(* ===== verification/Prelude.thy ===== *)
theory Prelude
  imports Main "HOL-Library.Word" "HOL-Library.Char_ord" "HOL-Library.List_Lexorder"
begin

text \<open>
  What the components share: the widths of Go's integers, its clock, the functions of the
  packages \<^verbatim>\<open>strings\<close>, \<^verbatim>\<open>strconv\<close>, \<^verbatim>\<open>time\<close> and \<^verbatim>\<open>fmt\<close> the program calls, and the generic
  lemmas about them.

  A Go string is its list of bytes (type \<^typ>\<open>string\<close>). Case folding is the folding of ASCII
  letters: the program folds only hexadecimal hashes, JSON field names and error texts.
  An instant is the number of nanoseconds since Go's zero time, so the zero time is \<open>0\<close>; the
  clock is read by passing the instant of the call. A failing function returns \<open>Inl\<close>.
\<close>

named_theorems go_defs \<open>definitions of the library functions, unfolded to compute\<close>
named_theorems go_intros \<open>introduction rules of the shared predicates\<close>

type_synonym u64 = "64 word"
type_synonym time = int
type_synonym duration = int

subsection \<open>Package strings\<close>

definition to_lower :: "char \<Rightarrow> char" where
  "to_lower c = (let n = of_char c :: nat in if 65 \<le> n \<and> n \<le> 90 then char_of (n + 32) else c)"

definition ToLower :: "string \<Rightarrow> string" where
  "ToLower s = map to_lower s"

definition EqualFold :: "string \<Rightarrow> string \<Rightarrow> bool" where
  "EqualFold s t \<longleftrightarrow> ToLower s = ToLower t"

definition HasPrefix :: "string \<Rightarrow> string \<Rightarrow> bool" where
  "HasPrefix s p \<longleftrightarrow> take (length p) s = p"

definition HasSuffix :: "string \<Rightarrow> string \<Rightarrow> bool" where
  "HasSuffix s p \<longleftrightarrow> length p \<le> length s \<and> drop (length s - length p) s = p"

definition TrimSuffix :: "string \<Rightarrow> string \<Rightarrow> string" where
  "TrimSuffix s p = (if HasSuffix s p then take (length s - length p) s else s)"

fun Contains :: "string \<Rightarrow> string \<Rightarrow> bool" where
  "Contains [] p = HasPrefix [] p"
| "Contains (c # s) p = (HasPrefix (c # s) p \<or> Contains s p)"

lemmas [go_defs] = to_lower_def ToLower_def EqualFold_def HasPrefix_def HasSuffix_def TrimSuffix_def

lemma EqualFold_refl [simp, go_intros]: "EqualFold s s"
  by (simp add: EqualFold_def)

lemma EqualFold_sym: "EqualFold s t \<longleftrightarrow> EqualFold t s"
  by (auto simp: EqualFold_def)

lemma EqualFold_trans [trans]: "EqualFold r s \<Longrightarrow> EqualFold s t \<Longrightarrow> EqualFold r t"
  by (simp add: EqualFold_def)

lemma EqualFold_cong: "EqualFold s t \<Longrightarrow> EqualFold s u \<longleftrightarrow> EqualFold t u"
  by (simp add: EqualFold_def)

lemma length_ToLower [simp]: "length (ToLower s) = length s"
  by (simp add: ToLower_def)

lemma ToLower_append [simp]: "ToLower (s @ t) = ToLower s @ ToLower t"
  by (simp add: ToLower_def)

lemma ToLower_eq_Nil [simp]: "ToLower s = [] \<longleftrightarrow> s = []"
  by (simp add: ToLower_def)

lemma EqualFold_length: "EqualFold s t \<Longrightarrow> length s = length t"
  by (metis EqualFold_def length_ToLower)

lemma EqualFold_Nil [simp]: "EqualFold s [] \<longleftrightarrow> s = []" "EqualFold [] s \<longleftrightarrow> s = []"
  by (auto dest: EqualFold_length)

lemma HasPrefix_append [simp]: "HasPrefix (p @ s) p"
  by (simp add: HasPrefix_def)

lemma HasPrefix_iff: "HasPrefix s p \<longleftrightarrow> (\<exists>r. s = p @ r)"
  unfolding HasPrefix_def by (metis append_eq_conv_conj append_take_drop_id)

subsection \<open>Package strconv: digits in a base up to 36\<close>

datatype parse_error = ErrSyntax | ErrRange

definition digit_val :: "char \<Rightarrow> nat option" where
  "digit_val c =
     (let n = of_char c :: nat; l = of_char (to_lower c) :: nat in
      if 48 \<le> n \<and> n \<le> 57 then Some (n - 48)
      else if 97 \<le> l \<and> l \<le> 122 then Some (l - 97 + 10)
      else None)"

definition digit_char :: "nat \<Rightarrow> char" where
  "digit_char d = (if d < 10 then char_of (48 + d) else char_of (87 + d))"

definition max_uint64 :: nat where
  "max_uint64 = 2 ^ 64 - 1"

text \<open>The loop of \<^verbatim>\<open>strconv.ParseUint(s, base, 64)\<close>, at the width it runs at.\<close>

fun parse_uint_loop :: "nat \<Rightarrow> u64 \<Rightarrow> string \<Rightarrow> parse_error + u64" where
  "parse_uint_loop b n [] = Inr n"
| "parse_uint_loop b n (c # cs) =
     (case digit_val c of
        None \<Rightarrow> Inl ErrSyntax
      | Some d \<Rightarrow>
          if b \<le> d then Inl ErrSyntax
          else if n \<ge> of_nat (max_uint64 div b + 1) then Inl ErrRange
          else let n' = n * of_nat b; n1 = n' + of_nat d in
            if n1 < n' then Inl ErrRange else parse_uint_loop b n1 cs)"

definition ParseUint :: "nat \<Rightarrow> string \<Rightarrow> parse_error + u64" where
  "ParseUint b s = (if s = [] then Inl ErrSyntax else parse_uint_loop b 0 s)"

text \<open>The reference: the digits read as a natural number of any size.\<close>

fun read_nat :: "nat \<Rightarrow> nat \<Rightarrow> string \<Rightarrow> nat option" where
  "read_nat b n [] = Some n"
| "read_nat b n (c # cs) =
     (case digit_val c of
        None \<Rightarrow> None
      | Some d \<Rightarrow> if b \<le> d then None else read_nat b (n * b + d) cs)"

fun format_uint :: "nat \<Rightarrow> nat \<Rightarrow> string" where
  "format_uint b n =
     (if n < b \<or> b < 2 then [digit_char n] else format_uint b (n div b) @ [digit_char (n mod b)])"

declare format_uint.simps [simp del]

text \<open>\<^verbatim>\<open>fmt\<close>'s verb \<^verbatim>\<open>%d\<close> on an unsigned integer.\<close>

definition show_u64 :: "u64 \<Rightarrow> string" where
  "show_u64 n = format_uint 10 (unat n)"

lemma digit_val_digit_char [simp]: "d < 36 \<Longrightarrow> digit_val (digit_char d) = Some d"
  by (auto simp: digit_val_def digit_char_def to_lower_def Let_def of_char_of)

lemma digit_char_digit_val: "digit_val c = Some d \<Longrightarrow> digit_char d = to_lower c"
proof -
  assume "digit_val c = Some d"
  moreover have "(of_char c :: nat) < 256" by simp
  ultimately show ?thesis
    by (auto simp: digit_val_def digit_char_def to_lower_def Let_def of_char_of split: if_splits)
qed

lemma read_nat_snoc:
  "read_nat b n (cs @ [c]) =
     (case read_nat b n cs of None \<Rightarrow> None
      | Some v \<Rightarrow> (case digit_val c of None \<Rightarrow> None
                   | Some d \<Rightarrow> if b \<le> d then None else Some (v * b + d)))"
  by (induction b n cs rule: read_nat.induct) (auto split: option.splits)

lemma read_nat_ge: "0 < b \<Longrightarrow> read_nat b n cs = Some v \<Longrightarrow> n \<le> v"
proof (induction b n cs rule: read_nat.induct)
  case (2 b n c cs)
  then obtain d where d: "digit_val c = Some d" "\<not> b \<le> d" "read_nat b (n * b + d) cs = Some v"
    by (auto split: option.splits if_splits)
  then have "n * b + d \<le> v" using 2 by blast
  moreover have "n \<le> n * b" using \<open>0 < b\<close> by simp
  ultimately show ?case by linarith
qed simp

lemma read_nat_format_uint:
  "2 \<le> b \<Longrightarrow> b \<le> 36 \<Longrightarrow> read_nat b 0 (format_uint b n) = Some n"
proof (induction b n rule: format_uint.induct)
  case (1 b n)
  show ?case
  proof (cases "n < b")
    case True
    with 1 show ?thesis by (simp add: format_uint.simps [of b n])
  next
    case False
    then have "read_nat b 0 (format_uint b (n div b)) = Some (n div b)" using 1 by simp
    moreover have "\<not> b \<le> n mod b" "n mod b < 36" using 1 mod_less_divisor [of b n] by linarith+
    ultimately show ?thesis using 1 False
      by (simp add: format_uint.simps [of b n] read_nat_snoc)
  qed
qed

lemma format_uint_inj: "2 \<le> b \<Longrightarrow> b \<le> 36 \<Longrightarrow> format_uint b m = format_uint b n \<longleftrightarrow> m = n"
  by (metis option.inject read_nat_format_uint)

lemma show_u64_inj [simp]: "show_u64 m = show_u64 n \<longleftrightarrow> m = n"
  by (simp add: show_u64_def format_uint_inj word_unat_eq_iff)

lemma format_uint_nonempty [simp]: "format_uint b n \<noteq> []"
  by (subst format_uint.simps) simp

lemma format_uint_no_colon: "2 \<le> b \<Longrightarrow> b \<le> 36 \<Longrightarrow> CHR '':'' \<notin> set (format_uint b n)"
proof -
  assume b: "2 \<le> b" "b \<le> 36"
  have "read_nat b 0 s = Some v \<Longrightarrow> c \<in> set s \<Longrightarrow> digit_val c \<noteq> None" for s v c
  proof -
    have "read_nat b n s = Some v \<Longrightarrow> c \<in> set s \<Longrightarrow> digit_val c \<noteq> None" for n
      by (induction b n s rule: read_nat.induct) (auto split: option.splits if_splits)
    then show "read_nat b 0 s = Some v \<Longrightarrow> c \<in> set s \<Longrightarrow> digit_val c \<noteq> None" .
  qed
  moreover have "digit_val CHR '':'' = None" by (simp add: digit_val_def to_lower_def)
  ultimately show ?thesis using read_nat_format_uint [OF b] by blast
qed

lemma colon_suffix_inj:
  assumes "a @ c # u = b @ c # v" "c \<notin> set u" "c \<notin> set v"
  shows "u = v"
proof -
  have "rev u @ c # rev a = rev v @ c # rev b"
    using arg_cong [OF assms(1), of rev] by simp
  then have "takeWhile (\<lambda>x. x \<noteq> c) (rev u @ c # rev a) = takeWhile (\<lambda>x. x \<noteq> c) (rev v @ c # rev b)"
    by simp
  moreover have "takeWhile (\<lambda>x. x \<noteq> c) (rev w @ c # r) = rev w" if "c \<notin> set w" for w r
    using that by (subst takeWhile_append2) auto
  ultimately show ?thesis using assms(2,3) by simp
qed

lemma separator_split:
  assumes "c \<notin> set a" "c \<notin> set b" "a @ c # u = b @ c # v"
  shows "a = b \<and> u = v"
proof -
  have before: "takeWhile (\<lambda>x. x \<noteq> c) (w @ c # r) = w" if "c \<notin> set w" for w r
    using that by (subst takeWhile_append2) auto
  have "a = b" using before [OF assms(1), of u] before [OF assms(2), of v] assms(3) by simp
  then show ?thesis using assms(3) by simp
qed

lemma show_u64_no_colon [simp]: "CHR '':'' \<notin> set (show_u64 n)"
  by (simp add: show_u64_def format_uint_no_colon)

text \<open>The overflow tests of the loop are exact.\<close>

lemma cutoff_iff:
  fixes n :: u64
  assumes "2 \<le> b" "b \<le> 36"
  shows "n \<ge> of_nat (max_uint64 div b + 1) \<longleftrightarrow> max_uint64 < unat n * b"
proof -
  let ?q = "max_uint64 div b"
  have q: "?q + 1 < 2 ^ 64"
  proof -
    have "?q \<le> max_uint64 div 2" using assms(1) by (rule div_le_mono2 [rotated]) simp
    then show ?thesis by (simp add: max_uint64_def)
  qed
  have "n \<ge> of_nat (?q + 1) \<longleftrightarrow> ?q + 1 \<le> unat n"
    using q by (simp add: word_le_nat_alt unat_of_nat take_bit_nat_eq_self del: of_nat_add of_nat_Suc)
  also have "\<dots> \<longleftrightarrow> max_uint64 < unat n * b"
    using assms(1) by (simp add: Suc_le_eq div_less_iff_less_mult)
  finally show ?thesis .
qed

lemma uint_step_overflow:
  fixes n :: u64
  assumes "b \<le> 36" "unat n * b \<le> max_uint64" "d < b"
  shows "n * of_nat b + of_nat d < n * of_nat b \<longleftrightarrow> max_uint64 < unat n * b + d"
    and "unat n * b + d \<le> max_uint64 \<Longrightarrow> unat (n * of_nat b + of_nat d) = unat n * b + d"
proof -
  have small: "b < 2 ^ 64" "d < 2 ^ 64" using assms by simp_all
  have prod: "unat (n * of_nat b) = unat n * b"
    using assms(2) small
    by (simp add: unat_word_ariths unat_of_nat take_bit_nat_eq_self max_uint64_def)
  have sum: "unat (n * of_nat b + of_nat d) = (unat n * b + d) mod 2 ^ 64"
    using prod small by (simp add: unat_word_ariths(1) unat_of_nat take_bit_nat_eq_self)
  show 2: "unat n * b + d \<le> max_uint64 \<Longrightarrow> unat (n * of_nat b + of_nat d) = unat n * b + d"
    using sum by (simp add: max_uint64_def)
  show "n * of_nat b + of_nat d < n * of_nat b \<longleftrightarrow> max_uint64 < unat n * b + d"
  proof (cases "unat n * b + d \<le> max_uint64")
    case True
    then show ?thesis using 2 prod by (simp add: word_less_nat_alt)
  next
    case False
    then have "(unat n * b + d) mod 2 ^ 64 = unat n * b + d - 2 ^ 64"
      using assms(2,3) small by (simp add: max_uint64_def mod_if)
    then show ?thesis using False sum prod small
      by (simp add: word_less_nat_alt max_uint64_def)
  qed
qed

lemma unat_le_max_uint64 [simp]: "unat (n :: u64) \<le> max_uint64"
  using unsigned_less [of n, where ?'a = nat] by (simp add: max_uint64_def)

lemma unat_of_nat_u64: "n < 2 ^ 64 \<Longrightarrow> unat (of_nat n :: u64) = n"
  by (simp add: unat_of_nat take_bit_nat_eq_self)

lemma of_nat_u64_eq_0: "n < 2 ^ 64 \<Longrightarrow> (of_nat n :: u64) = 0 \<longleftrightarrow> n = 0"
proof
  assume "n < 2 ^ 64" "(of_nat n :: u64) = 0"
  then show "n = 0" using unat_of_nat_u64 [of n] by (simp only: unsigned_0)
qed simp

lemma unat_Suc_u64: "unat (n :: u64) < max_uint64 \<Longrightarrow> unat (n + 1) = unat n + 1"
  by (simp add: unat_word_ariths max_uint64_def)

lemma unat_plus_one_le: "unat ((n :: u64) + 1) \<le> Suc (unat n)"
  using unat_word_ariths(1) [of n 1] by simp

lemma unat_plus_of_nat_le: "unat ((n :: u64) + of_nat k) \<le> unat n + k"
proof (induction k)
  case (Suc k)
  have "n + of_nat (Suc k) = n + of_nat k + 1" by (simp add: algebra_simps)
  then have "unat (n + of_nat (Suc k)) \<le> Suc (unat (n + of_nat k))"
    using unat_plus_one_le [of "n + of_nat k"] by (simp only:)
  then show ?case using Suc by simp
qed simp

lemma less_Suc_u64: "unat (n :: u64) < max_uint64 \<Longrightarrow> m \<le> n \<Longrightarrow> m < n + 1 \<and> m \<le> n + 1 \<and> 0 < n + 1"
  using unat_Suc_u64 [of n] by (auto simp: word_less_nat_alt word_le_nat_alt)

lemma unat_diff_u64: "(m :: u64) \<le> n \<Longrightarrow> unat (n - m) = unat n - unat m"
  by (simp add: unat_sub word_le_nat_alt)

text \<open>Stepping down towards a smaller number.\<close>

lemma u64_pred:
  fixes n c :: u64
  assumes "n < c"
  shows "unat c = unat (c - 1) + 1" "n \<le> c - 1" "c = (c - 1) + 1" "unat (c - n) = unat (c - 1 - n) + 1"
proof -
  have pos: "0 < unat c" using assms by (metis gr_zeroI not_less_zero word_less_nat_alt)
  then have "c \<noteq> 0" by auto
  then show 1: "unat c = unat (c - 1) + 1" using pos by (simp add: unat_minus_one)
  then show 2: "n \<le> c - 1" using assms by (simp add: word_le_nat_alt word_less_nat_alt)
  show "c = (c - 1) + 1" by simp
  have "unat (c - n) = unat c - unat n" using assms by (intro unat_diff_u64) simp
  moreover have "unat (c - 1 - n) = unat (c - 1) - unat n" using 2 by (rule unat_diff_u64)
  ultimately show "unat (c - n) = unat (c - 1 - n) + 1"
    using 1 2 by (simp add: word_le_nat_alt)
qed

lemma parse_uint_loop_iff:
  assumes "2 \<le> b" "b \<le> 36"
  shows "parse_uint_loop b n cs = Inr w \<longleftrightarrow> read_nat b (unat n) cs = Some (unat w)"
proof (induction cs arbitrary: n)
  case Nil
  show ?case by (simp add: word_unat_eq_iff)
next
  case (Cons c cs)
  show ?case
  proof (cases "\<exists>d. digit_val c = Some d \<and> d < b")
    case False
    then show ?thesis by (auto split: option.splits)
  next
    case True
    then obtain d where d: "digit_val c = Some d" "d < b" by blast
    show ?thesis
    proof (cases "unat n * b + d \<le> max_uint64")
      case True
      then have fits: "unat n * b \<le> max_uint64" by linarith
      have "\<not> n \<ge> of_nat (max_uint64 div b + 1)"
        unfolding cutoff_iff [OF assms] using fits by simp
      moreover have "\<not> n * of_nat b + of_nat d < n * of_nat b"
        unfolding uint_step_overflow(1) [OF assms(2) fits d(2)] using True by simp
      moreover have "unat (n * of_nat b + of_nat d) = unat n * b + d"
        by (rule uint_step_overflow(2) [OF assms(2) fits d(2) True])
      ultimately show ?thesis using d Cons.IH by (simp add: Let_def)
    next
      case False
      have none: "read_nat b (unat n) (c # cs) \<noteq> Some (unat w)"
      proof
        assume "read_nat b (unat n) (c # cs) = Some (unat w)"
        then have "unat n * b + d \<le> unat w" using d assms(1) by (auto intro: read_nat_ge [of b])
        then show False using False unat_le_max_uint64 [of w] by linarith
      qed
      have "parse_uint_loop b n (c # cs) \<noteq> Inr w"
      proof (cases "unat n * b \<le> max_uint64")
        case True
        have "n * of_nat b + of_nat d < n * of_nat b"
          unfolding uint_step_overflow(1) [OF assms(2) True d(2)] using False by simp
        then show ?thesis using d by (simp add: Let_def)
      next
        case False
        have "n \<ge> of_nat (max_uint64 div b + 1)" unfolding cutoff_iff [OF assms] using False by simp
        then show ?thesis using d by simp
      qed
      with none show ?thesis by blast
    qed
  qed
qed

lemma ParseUint_iff:
  "2 \<le> b \<Longrightarrow> b \<le> 36 \<Longrightarrow> ParseUint b s = Inr w \<longleftrightarrow> s \<noteq> [] \<and> read_nat b 0 s = Some (unat w)"
  by (simp add: ParseUint_def parse_uint_loop_iff)

lemma ParseUint_format_uint:
  "2 \<le> b \<Longrightarrow> b \<le> 36 \<Longrightarrow> ParseUint b (format_uint b (unat w)) = Inr w"
  by (simp add: ParseUint_iff read_nat_format_uint)

subsection \<open>Signed 64-bit integers\<close>

text \<open>An \<^verbatim>\<open>int64\<close> is an integer; where an operation can leave its range, the result wraps. The
  division \<^verbatim>\<open>/\<close> truncates towards zero.\<close>

definition int64 :: "int \<Rightarrow> int" where
  "int64 x = (x + 2 ^ 63) mod 2 ^ 64 - 2 ^ 63"

definition go_quot :: "int \<Rightarrow> int \<Rightarrow> int" where
  "go_quot a b = sgn a * sgn b * (\<bar>a\<bar> div \<bar>b\<bar>)"

lemma int64_id [simp]: "- (2 ^ 63) \<le> x \<Longrightarrow> x < 2 ^ 63 \<Longrightarrow> int64 x = x"
  by (simp add: int64_def)

lemma go_quot_pos: "0 < a \<Longrightarrow> 0 < b \<Longrightarrow> go_quot a b = a div b"
  by (simp add: go_quot_def)

text \<open>An error list with one entry when a test holds.\<close>

definition problem_if :: "bool \<Rightarrow> 'e \<Rightarrow> 'e list" where
  "problem_if b e = (if b then [e] else [])"

lemma problem_if_Nil [simp]: "problem_if b e = [] \<longleftrightarrow> \<not> b"
  by (simp add: problem_if_def)

subsection \<open>Package time\<close>

definition Millisecond :: duration where "Millisecond = 1000000"
definition Second :: duration where "Second = 1000 * Millisecond"
definition Minute :: duration where "Minute = 60 * Second"

lemmas duration_defs = Minute_def Second_def Millisecond_def

definition max_duration :: duration where
  "max_duration = 2 ^ 63 - 1"

text \<open>\<^verbatim>\<open>Time.Sub\<close> saturates at the bounds of a 64-bit duration.\<close>

definition time_sub :: "time \<Rightarrow> time \<Rightarrow> duration" where
  "time_sub t u = max (- (2 ^ 63)) (min max_duration (t - u))"

definition IsZeroTime :: "time \<Rightarrow> bool" where
  "IsZeroTime t \<longleftrightarrow> t = 0"

lemmas [go_defs] = time_sub_def IsZeroTime_def max_duration_def

text \<open>An age test against a duration that fits in 64 bits is the test on the exact difference.\<close>

lemma time_sub_gt_iff: "0 \<le> d \<Longrightarrow> d < max_duration \<Longrightarrow> time_sub t u > d \<longleftrightarrow> t - u > d"
  by (auto simp: time_sub_def max_duration_def)

subsection \<open>Lists, options and maps\<close>

text \<open>The loop of a validator that remembers the names seen so far.\<close>

fun seen_before :: "'a list \<Rightarrow> 'a list \<Rightarrow> bool list" where
  "seen_before seen [] = []"
| "seen_before seen (x # xs) = (x \<in> set seen) # seen_before (x # seen) xs"

lemma length_seen_before [simp]: "length (seen_before seen xs) = length xs"
  by (induction xs arbitrary: seen) auto

lemma seen_before_none:
  "True \<notin> set (seen_before seen xs) \<longleftrightarrow> distinct xs \<and> set xs \<inter> set seen = {}"
  by (induction xs arbitrary: seen) auto

text \<open>\<^verbatim>\<open>strings.Split\<close> at one character.\<close>

fun split_at :: "char \<Rightarrow> string \<Rightarrow> string list" where
  "split_at c [] = [[]]"
| "split_at c (x # xs) =
     (if x = c then [] # split_at c xs
      else (case split_at c xs of [] \<Rightarrow> [[x]] | y # ys \<Rightarrow> (x # y) # ys))"

text \<open>Go's stable sort by a preference test is the stable sort on the test's negation.\<close>

definition prefer_first :: "('a \<Rightarrow> bool) \<Rightarrow> 'a list \<Rightarrow> 'a list" where
  "prefer_first p xs = filter p xs @ filter (\<lambda>x. \<not> p x) xs"

lemma set_prefer_first [simp]: "set (prefer_first p xs) = set xs"
  by (auto simp: prefer_first_def)

lemma filter_length_all:
  assumes "length (filter p xs) = length xs"
  shows "\<forall>x \<in> set xs. p x"
proof
  fix x assume "x \<in> set xs"
  then show "p x" using length_filter_less [of x xs p] assms by (cases "p x") simp_all
qed

lemma distinct_map_strict:
  fixes f :: "'a \<Rightarrow> 'b::order"
  shows "sorted_wrt (\<lambda>a b. f a < f b) xs \<Longrightarrow> distinct (map f xs)"
  by (induction xs) auto

lemma length_prefer_first [simp]: "length (prefer_first p xs) = length xs"
  using sum_length_filter_compl [of p xs] by (simp add: prefer_first_def)

end
