(* ===== verification/Evm_Utils.thy ===== *)
theory Evm_Utils
  imports Prelude
begin

text \<open>
  The helpers of \<^verbatim>\<open>internal/utils/evm.go\<close>: EVM quantities (hexadecimal numbers without leading
  zeros, read into 64 bits) and 32-byte hashes. The lemmas say exactly which texts are accepted,
  that reading inverts printing, and that two accepted texts of one number differ in case only.
\<close>

datatype quantity_error =
    NotPrefixed            \<comment> \<open>quantity must be 0x-prefixed\<close>
  | LeadingZero            \<comment> \<open>quantity has leading zero\<close>
  | QuantityParse parse_error  \<comment> \<open>parse EVM quantity: ...\<close>

definition ParseEVMQuantity :: "string \<Rightarrow> quantity_error + u64" where
  "ParseEVMQuantity quantity =
     (if \<not> HasPrefix quantity ''0x'' \<or> length quantity < 3 then Inl NotPrefixed
      else if length quantity > 3 \<and> quantity ! 2 = CHR ''0'' then Inl LeadingZero
      else (case ParseUint 16 (drop 2 quantity) of
              Inl e \<Rightarrow> Inl (QuantityParse e)
            | Inr n \<Rightarrow> Inr n))"

definition FormatEVMQuantity :: "u64 \<Rightarrow> string" where
  "FormatEVMQuantity n = ''0x'' @ format_uint 16 (unat n)"

text \<open>\<^verbatim>\<open>hex.DecodeString\<close> succeeds on an even number of hexadecimal digits.\<close>

definition is_hex_digit :: "char \<Rightarrow> bool" where
  "is_hex_digit c = (case digit_val c of None \<Rightarrow> False | Some d \<Rightarrow> d < 16)"

definition hex_decodes :: "string \<Rightarrow> bool" where
  "hex_decodes s \<longleftrightarrow> even (length s) \<and> list_all is_hex_digit s"

definition IsEVMHash :: "string \<Rightarrow> bool" where
  "IsEVMHash s \<longleftrightarrow> length s = 66 \<and> HasPrefix s ''0x'' \<and> hex_decodes (drop 2 s)"

subsection \<open>Canonical digits\<close>

lemma digit_val_0 [simp]: "digit_val CHR ''0'' = Some 0"
  by (simp add: digit_val_def to_lower_def)

lemma digit_val_eq_0: "digit_val c = Some 0 \<longleftrightarrow> c = CHR ''0''"
proof
  assume "digit_val c = Some 0"
  then have "(of_char c :: nat) = of_char (CHR ''0'')"
    by (auto simp: digit_val_def Let_def split: if_splits)
  then show "c = CHR ''0''" by (simp only: of_char_eq_iff)
qed simp

lemma read_nat_pos:
  "0 < b \<Longrightarrow> read_nat b 0 (c # cs) = Some v \<Longrightarrow> c \<noteq> CHR ''0'' \<Longrightarrow> 0 < v"
proof -
  assume b: "0 < b" and r: "read_nat b 0 (c # cs) = Some v" and c: "c \<noteq> CHR ''0''"
  from r obtain d where d: "digit_val c = Some d" "read_nat b d cs = Some v"
    by (auto split: option.splits if_splits)
  from c d(1) have "d \<noteq> 0" using digit_val_eq_0 [of c] by (intro notI) simp
  with read_nat_ge [OF b d(2)] show "0 < v" by linarith
qed

text \<open>Digits without a leading zero are the printed form of their value, up to case.\<close>

lemma format_uint_read_nat:
  assumes "2 \<le> b" "cs \<noteq> []" "length cs > 1 \<longrightarrow> hd cs \<noteq> CHR ''0''" "read_nat b 0 cs = Some v"
  shows "format_uint b v = ToLower cs"
  using assms(2-)
proof (induction cs arbitrary: v rule: rev_induct)
  case (snoc c cs)
  from snoc.prems(3) obtain u d where u: "read_nat b 0 cs = Some u"
    and d: "digit_val c = Some d" "d < b" "v = u * b + d"
    by (auto simp: read_nat_snoc split: option.splits if_splits)
  show ?case
  proof (cases "cs = []")
    case True
    then show ?thesis using u d by (simp add: format_uint.simps ToLower_def digit_char_digit_val)
  next
    case False
    then have lead: "hd cs \<noteq> CHR ''0''" using snoc.prems(2) by simp
    then have "0 < u" using False u assms(1) read_nat_pos [of b "hd cs" "tl cs" u] by simp
    then have "b \<le> v" using d(3) by (cases u) auto
    moreover have "v div b = u" "v mod b = d" using d by simp_all
    ultimately show ?thesis using snoc.IH [OF False _ u] lead assms(1) d(1)
      by (simp add: format_uint.simps [of b v] ToLower_def digit_char_digit_val)
  qed
qed simp

lemma format_uint_hd_0: "2 \<le> b \<Longrightarrow> b \<le> 36 \<Longrightarrow> length (format_uint b n) > 1 \<Longrightarrow> hd (format_uint b n) \<noteq> CHR ''0''"
proof (induction b n rule: format_uint.induct)
  case (1 b n)
  have big: "\<not> (n < b \<or> b < 2)" using 1 by (auto simp: format_uint.simps [of b n] split: if_splits)
  have hd: "hd (format_uint b n) = hd (format_uint b (n div b))"
    using big by (simp add: format_uint.simps [of b n])
  show ?case
  proof (cases "length (format_uint b (n div b)) > 1")
    case True
    then show ?thesis using 1 big hd by simp
  next
    case False
    then have small: "n div b < b"
      using 1(2) by (auto simp: format_uint.simps [of b "n div b"] split: if_splits)
    have "0 < n div b" using big by (simp add: div_greater_zero_iff)
    moreover have "n div b < 36" using small 1(3) by linarith
    ultimately have "digit_val (digit_char (n div b)) \<noteq> Some 0" by simp
    then show ?thesis using small hd by (auto simp: format_uint.simps [of b "n div b"] digit_val_eq_0)
  qed
qed

lemma ParseEVMQuantity_drop:
  "ParseEVMQuantity s = Inr n \<longleftrightarrow>
     HasPrefix s ''0x'' \<and> drop 2 s \<noteq> [] \<and> (length (drop 2 s) > 1 \<longrightarrow> hd (drop 2 s) \<noteq> CHR ''0'')
       \<and> read_nat 16 0 (drop 2 s) = Some (unat n)"
proof -
  have "ParseEVMQuantity s = Inr n \<longleftrightarrow> HasPrefix s ''0x'' \<and> 3 \<le> length s
      \<and> (3 < length s \<longrightarrow> s ! 2 \<noteq> CHR ''0'') \<and> ParseUint 16 (drop 2 s) = Inr n"
    by (auto simp: ParseEVMQuantity_def split: if_splits sum.splits)
  then show ?thesis by (auto simp: ParseUint_iff hd_drop_conv_nth)
qed

lemma ToLower_prefix_0x: "HasPrefix s ''0x'' \<Longrightarrow> ToLower s = ''0x'' @ ToLower (drop 2 s)"
  by (auto simp: HasPrefix_iff ToLower_def to_lower_def)

lemma digit_val_to_lower [simp]: "digit_val (to_lower c) = digit_val c"
proof -
  have "(of_char c :: nat) < 256" by simp
  then show ?thesis by (auto simp: digit_val_def to_lower_def Let_def of_char_of)
qed

lemma read_nat_ToLower [simp]: "read_nat b n (ToLower s) = read_nat b n s"
  by (induction b n s rule: read_nat.induct) (auto simp: ToLower_def split: option.splits)

text \<open>The parser accepts exactly the printed forms, read without regard to the digits' case.\<close>

lemma ParseEVMQuantity_iff_Format:
  "ParseEVMQuantity s = Inr n \<longleftrightarrow> HasPrefix s ''0x'' \<and> ToLower s = FormatEVMQuantity n"
proof
  assume L: "ParseEVMQuantity s = Inr n"
  then have p: "HasPrefix s ''0x''" by (simp add: ParseEVMQuantity_drop)
  have "format_uint 16 (unat n) = ToLower (drop 2 s)"
    using L by (intro format_uint_read_nat) (auto simp: ParseEVMQuantity_drop)
  then show "HasPrefix s ''0x'' \<and> ToLower s = FormatEVMQuantity n"
    using p by (simp add: FormatEVMQuantity_def ToLower_prefix_0x)
next
  assume R: "HasPrefix s ''0x'' \<and> ToLower s = FormatEVMQuantity n"
  then have ds: "ToLower (drop 2 s) = format_uint 16 (unat n)"
    using ToLower_prefix_0x [of s] by (simp add: FormatEVMQuantity_def)
  have ne: "drop 2 s \<noteq> []" using ds by (metis ToLower_eq_Nil format_uint_nonempty)
  have "hd (drop 2 s) \<noteq> CHR ''0''" if "length (drop 2 s) > 1"
  proof
    assume "hd (drop 2 s) = CHR ''0''"
    then have "hd (ToLower (drop 2 s)) = CHR ''0''" using ne
      by (cases "drop 2 s") (auto simp: ToLower_def to_lower_def)
    moreover have "length (format_uint 16 (unat n)) > 1" using that ds by (metis length_ToLower)
    ultimately show False using format_uint_hd_0 [of 16 "unat n"] ds by simp
  qed
  moreover have "read_nat 16 0 (drop 2 s) = Some (unat n)"
    using ds read_nat_format_uint [of 16 "unat n"] read_nat_ToLower [of 16 0 "drop 2 s"] by simp
  ultimately show "ParseEVMQuantity s = Inr n" using R ne by (auto simp: ParseEVMQuantity_drop)
qed

lemma HasPrefix_FormatEVMQuantity [simp]: "HasPrefix (FormatEVMQuantity n) ''0x''"
  by (simp add: FormatEVMQuantity_def HasPrefix_def)

lemma to_lower_digit_char: "d < 36 \<Longrightarrow> to_lower (digit_char d) = digit_char d"
  by (auto simp: digit_char_def to_lower_def Let_def of_char_of)

lemma ToLower_format_uint:
  "2 \<le> b \<Longrightarrow> b \<le> 36 \<Longrightarrow> ToLower (format_uint b n) = format_uint b n"
proof (induction b n rule: format_uint.induct)
  case (1 b n)
  show ?case
  proof (cases "n < b")
    case True
    then show ?thesis using 1
      by (simp add: format_uint.simps [of b n] ToLower_def to_lower_digit_char)
  next
    case False
    have "n mod b < 36" using 1 mod_less_divisor [of b n] by linarith
    then have "ToLower [digit_char (n mod b)] = [digit_char (n mod b)]"
      by (simp add: ToLower_def to_lower_digit_char)
    then show ?thesis using 1 False by (simp add: format_uint.simps [of b n])
  qed
qed

lemma ToLower_FormatEVMQuantity: "ToLower (FormatEVMQuantity n) = FormatEVMQuantity n"
  by (simp add: FormatEVMQuantity_def ToLower_prefix_0x [unfolded HasPrefix_def] ToLower_format_uint)

lemma ParseEVMQuantity_Format [simp]: "ParseEVMQuantity (FormatEVMQuantity n) = Inr n"
  by (simp add: ParseEVMQuantity_iff_Format ToLower_FormatEVMQuantity)

lemma IsEVMHash_nonempty [dest]: "IsEVMHash s \<Longrightarrow> s \<noteq> []"
  by (auto simp: IsEVMHash_def)

lemma IsEVMHash_length: "IsEVMHash s \<Longrightarrow> length s = 66"
  by (simp add: IsEVMHash_def)

lemma IsEVMHash_not_Nil [simp]: "\<not> IsEVMHash []"
  by (simp add: IsEVMHash_def)

text \<open>
  Property C37. The quantity parser accepts exactly the canonical texts: a text denotes \<open>n\<close> iff it
  starts with \<^verbatim>\<open>0x\<close> and is, up to the case of its digits, what the formatter prints for \<open>n\<close>; no
  leading zero, sign, empty digit string or value of more than 64 bits is accepted, and what the
  formatter prints is read back.
\<close>

theorem quantity_texts:
  "(ParseEVMQuantity s = Inr n \<longleftrightarrow> HasPrefix s ''0x'' \<and> ToLower s = FormatEVMQuantity n)
   \<and> ParseEVMQuantity (FormatEVMQuantity n) = Inr n"
  by (simp add: ParseEVMQuantity_iff_Format ToLower_FormatEVMQuantity)

end
