(* ===== verification/Go_Json.thy ===== *)
theory Go_Json
  imports Prelude
begin

text \<open>
  What the program uses of the package \<^verbatim>\<open>encoding/json\<close>. A non-empty raw message is the value
  its text denotes (numbers keep their literal text, objects their member order), an empty one
  is \<open>None\<close>; white space between tokens is not kept. Decoding follows the package: a struct
  field takes every member whose name folds to the field's name, in order, \<^verbatim>\<open>null\<close> leaves a
  string, number or boolean unchanged and resets a pointer or a map, and a member of the wrong
  type makes the whole decoding fail. A Go map with string keys is an association list without
  duplicate keys; encoding sorts its keys.
\<close>

datatype json =
    JNull
  | JBool bool
  | JNum string
  | JStr string
  | JArr "json list"
  | JObj "(string \<times> json) list"

type_synonym raw = "json option"
type_synonym raw_map = "(string \<times> json) list"

subsection \<open>Maps of raw messages\<close>

definition map_delete :: "'k \<Rightarrow> ('k \<times> 'v) list \<Rightarrow> ('k \<times> 'v) list" where
  "map_delete k m = filter (\<lambda>p. fst p \<noteq> k) m"

definition map_set :: "'k \<Rightarrow> 'v \<Rightarrow> ('k \<times> 'v) list \<Rightarrow> ('k \<times> 'v) list" where
  "map_set k v m = (k, v) # map_delete k m"

text \<open>Decoding into a map variable: failure, a nil map (of \<^verbatim>\<open>null\<close>), or the members, the last
  of each name winning.\<close>

definition members_map :: "(string \<times> json) list \<Rightarrow> raw_map" where
  "members_map ms = fold (\<lambda>(k, v). map_set k v) ms []"

fun unmarshal_map :: "json \<Rightarrow> raw_map option option" where
  "unmarshal_map JNull = Some None"
| "unmarshal_map (JObj ms) = Some (Some (members_map ms))"
| "unmarshal_map _ = None"

definition marshal_map :: "raw_map \<Rightarrow> json" where
  "marshal_map m = JObj (sort_key fst m)"

lemma map_of_map_delete [simp]: "map_of (map_delete k m) k' = (if k' = k then None else map_of m k')"
  by (induction m) (auto simp: map_delete_def)

lemma map_of_map_set [simp]: "map_of (map_set k v m) = (map_of m)(k \<mapsto> v)"
  by (auto simp: map_set_def fun_eq_iff)

lemma distinct_map_delete [simp, intro]: "distinct (map fst m) \<Longrightarrow> distinct (map fst (map_delete k m))"
  unfolding map_delete_def by (rule distinct_map_filter)

lemma distinct_map_set [simp, intro]: "distinct (map fst m) \<Longrightarrow> distinct (map fst (map_set k v m))"
  by (auto simp: map_set_def) (auto simp: map_delete_def)

lemma distinct_members_map [simp]: "distinct (map fst (members_map ms))"
proof -
  have "distinct (map fst m) \<Longrightarrow> distinct (map fst (fold (\<lambda>(k, v). map_set k v) ms m))" for m
    by (induction ms arbitrary: m) auto
  then show ?thesis by (simp add: members_map_def)
qed

text \<open>Encoding a map and decoding it again gives the same map.\<close>

lemma map_of_members_map_distinct:
  "distinct (map fst ms) \<Longrightarrow> map_of (members_map ms) = map_of ms"
proof -
  have "distinct (map fst ms) \<Longrightarrow> map_of (fold (\<lambda>(k, v). map_set k v) ms m) = map_of m ++ map_of ms" for m
  proof (induction ms arbitrary: m)
    case (Cons p ms)
    obtain k v where p: "p = (k, v)" by (cases p)
    have "map_of ms k = None" using Cons.prems p by (simp add: map_of_eq_None_iff)
    then show ?case using Cons p by (auto simp: fun_eq_iff map_add_def split: option.splits)
  qed simp
  then show "distinct (map fst ms) \<Longrightarrow> map_of (members_map ms) = map_of ms"
    by (simp add: members_map_def)
qed

lemma map_of_sort_key: "distinct (map fst m) \<Longrightarrow> map_of (sort_key fst m) = map_of m"
  by (rule map_of_eqI) (auto simp: sort_key_simps distinct_map intro: map_of_eqI)

lemma unmarshal_marshal_map:
  assumes "distinct (map fst m)"
  shows "\<exists>m'. unmarshal_map (marshal_map m) = Some (Some m') \<and> map_of m' = map_of m"
proof -
  have "distinct (map fst (sort_key fst m))" using assms by (simp add: distinct_map)
  then show ?thesis using assms
    by (simp add: marshal_map_def map_of_members_map_distinct map_of_sort_key)
qed

subsection \<open>Structs\<close>

definition struct_values :: "string \<Rightarrow> (string \<times> json) list \<Rightarrow> json list" where
  "struct_values name ms = map snd (filter (\<lambda>m. EqualFold (fst m) name) ms)"

fun fold_field :: "('a \<Rightarrow> json \<Rightarrow> 'a option) \<Rightarrow> 'a \<Rightarrow> json list \<Rightarrow> 'a option" where
  "fold_field f a [] = Some a"
| "fold_field f a (v # vs) = (case f a v of None \<Rightarrow> None | Some a' \<Rightarrow> fold_field f a' vs)"

fun decode_string :: "string \<Rightarrow> json \<Rightarrow> string option" where
  "decode_string s JNull = Some s"
| "decode_string s (JStr t) = Some t"
| "decode_string s _ = None"

fun decode_bool :: "bool \<Rightarrow> json \<Rightarrow> bool option" where
  "decode_bool b JNull = Some b"
| "decode_bool b (JBool c) = Some c"
| "decode_bool b _ = None"

fun decode_bool_ptr :: "bool option \<Rightarrow> json \<Rightarrow> bool option option" where
  "decode_bool_ptr b JNull = Some None"
| "decode_bool_ptr b (JBool c) = Some (Some c)"
| "decode_bool_ptr b _ = None"

fun decode_uint :: "u64 \<Rightarrow> json \<Rightarrow> u64 option" where
  "decode_uint n JNull = Some n"
| "decode_uint n (JNum t) = (case ParseUint 10 t of Inl _ \<Rightarrow> None | Inr m \<Rightarrow> Some m)"
| "decode_uint n _ = None"

fun decode_uint_ptr :: "u64 option \<Rightarrow> json \<Rightarrow> u64 option option" where
  "decode_uint_ptr n JNull = Some None"
| "decode_uint_ptr n (JNum t) = (case ParseUint 10 t of Inl _ \<Rightarrow> None | Inr m \<Rightarrow> Some (Some m))"
| "decode_uint_ptr n _ = None"

definition decode_raw :: "raw \<Rightarrow> json \<Rightarrow> raw option" where
  "decode_raw r v = Some (Some v)"

definition string_field :: "string \<Rightarrow> (string \<times> json) list \<Rightarrow> string option" where
  "string_field name ms = fold_field decode_string [] (struct_values name ms)"

definition bool_field :: "string \<Rightarrow> (string \<times> json) list \<Rightarrow> bool option" where
  "bool_field name ms = fold_field decode_bool False (struct_values name ms)"

definition bool_ptr_field :: "string \<Rightarrow> (string \<times> json) list \<Rightarrow> bool option option" where
  "bool_ptr_field name ms = fold_field decode_bool_ptr None (struct_values name ms)"

definition uint_ptr_field :: "string \<Rightarrow> (string \<times> json) list \<Rightarrow> u64 option option" where
  "uint_ptr_field name ms = fold_field decode_uint_ptr None (struct_values name ms)"

definition raw_field :: "string \<Rightarrow> (string \<times> json) list \<Rightarrow> raw option" where
  "raw_field name ms = fold_field decode_raw None (struct_values name ms)"

text \<open>\<^verbatim>\<open>json.Unmarshal\<close> of a raw message into a fresh variable; an empty message is an error.\<close>

definition unmarshal_string :: "raw \<Rightarrow> string option" where
  "unmarshal_string r = (case r of None \<Rightarrow> None | Some v \<Rightarrow> decode_string [] v)"

definition unmarshal_uint :: "raw \<Rightarrow> u64 option" where
  "unmarshal_uint r = (case r of None \<Rightarrow> None | Some v \<Rightarrow> decode_uint 0 v)"

definition unmarshal_uint_ptr :: "raw \<Rightarrow> u64 option option" where
  "unmarshal_uint_ptr r = (case r of None \<Rightarrow> None | Some v \<Rightarrow> decode_uint_ptr None v)"

text \<open>The members a struct decodes from: none for \<^verbatim>\<open>null\<close>, which leaves the struct as it is.\<close>

fun struct_members :: "json \<Rightarrow> (string \<times> json) list option" where
  "struct_members JNull = Some []"
| "struct_members (JObj ms) = Some ms"
| "struct_members _ = None"

lemma fold_field_raw [simp]: "\<exists>r. fold_field decode_raw a vs = Some r"
  by (induction vs arbitrary: a) (auto simp: decode_raw_def)

lemma raw_field_total [simp]: "\<exists>r. raw_field name ms = Some r"
  by (simp add: raw_field_def)

lemma unmarshal_string_JStr [simp]: "unmarshal_string (Some (JStr s)) = Some s"
  by (simp add: unmarshal_string_def)

lemma unmarshal_string_nonempty:
  "unmarshal_string r = Some s \<Longrightarrow> s \<noteq> [] \<Longrightarrow> r = Some (JStr s)"
  unfolding unmarshal_string_def by (cases r; cases "the r") (auto split: option.splits)

subsection \<open>fmt.Sprint of a decoded value\<close>

text \<open>The texts of floating-point numbers are the argument \<open>num\<close>.\<close>

definition join_sp :: "string list \<Rightarrow> string" where
  "join_sp xs = concat (case xs of [] \<Rightarrow> [] | y # ys \<Rightarrow> y # map (\<lambda>z. '' '' @ z) ys)"

fun sprint :: "(string \<Rightarrow> string) \<Rightarrow> json \<Rightarrow> string" where
  "sprint num JNull = ''<nil>''"
| "sprint num (JBool b) = (if b then ''true'' else ''false'')"
| "sprint num (JNum t) = num t"
| "sprint num (JStr s) = s"
| "sprint num (JArr vs) = ''['' @ join_sp (map (sprint num) vs) @ '']''"
| "sprint num (JObj ms) =
     (let ps = map (\<lambda>m. (fst m, sprint num (snd m))) ms;
          sorted = sort_key fst (fold (\<lambda>(k, v). map_set k v) ps [])
      in ''map['' @ join_sp (map (\<lambda>(k, v). k @ '':'' @ v) sorted) @ '']'')"

end
