(* ===== verification/Quicknode.thy ===== *)
theory Quicknode
  imports Prelude
begin

text \<open>
  The derivation of one provider's endpoints per network, \<^verbatim>\<open>internal/services/quicknode\<close>. The
  functions of the package \<^verbatim>\<open>net/url\<close> the program calls are the fields of \<open>url_pkg\<close>, an argument
  of the definitions; the regular expressions are written out as predicates.
\<close>

record url =
  Scheme :: string
  User :: "string option"
  Host :: string
  Path :: string
  RawPath :: string
  RawQuery :: string
  Fragment :: string

record url_pkg =
  url_Parse :: "string \<Rightarrow> url option"
  url_ParseRequestURI :: "string \<Rightarrow> url option"
  url_EscapedPath :: "url \<Rightarrow> string"
  url_String :: "url \<Rightarrow> string"

definition is_lower :: "char \<Rightarrow> bool" where
  "is_lower c \<longleftrightarrow> 97 \<le> (of_char c :: nat) \<and> (of_char c :: nat) \<le> 122"

definition is_upper :: "char \<Rightarrow> bool" where
  "is_upper c \<longleftrightarrow> 65 \<le> (of_char c :: nat) \<and> (of_char c :: nat) \<le> 90"

definition is_digit :: "char \<Rightarrow> bool" where
  "is_digit c \<longleftrightarrow> 48 \<le> (of_char c :: nat) \<and> (of_char c :: nat) \<le> 57"

text \<open>\<^verbatim>\<open>^[a-z0-9](?:[a-z0-9-]{0,61}[a-z0-9])?$\<close>\<close>

definition network_match :: "string \<Rightarrow> bool" where
  "network_match s \<longleftrightarrow>
     (let edge = (\<lambda>c. is_lower c \<or> is_digit c) in
      1 \<le> length s \<and> length s \<le> 63 \<and> edge (hd s) \<and> edge (last s) \<and>
      list_all (\<lambda>c. edge c \<or> c = CHR ''-'') s)"

text \<open>\<^verbatim>\<open>^/[A-Za-z0-9_-]+/?$\<close>\<close>

definition token_char :: "char \<Rightarrow> bool" where
  "token_char c \<longleftrightarrow> is_upper c \<or> is_lower c \<or> is_digit c \<or> c = CHR ''_'' \<or> c = CHR ''-''"

definition token_path_match :: "string \<Rightarrow> bool" where
  "token_path_match s \<longleftrightarrow>
     HasPrefix s ''/'' \<and>
     (let t = TrimSuffix (drop 1 s) ''/'' in t \<noteq> [] \<and> list_all token_char t)"

datatype quicknode_error = InvalidEndpointURL | WrongEndpointHost | WrongTokenPath | BadNetwork

record service =
  endpoint :: url
  qn_name :: string

record endpoints =
  ep_HTTPURL :: string
  ep_WebsocketURL :: string

definition avalanche :: "string \<Rightarrow> bool" where
  "avalanche network \<longleftrightarrow> network = ''avalanche-mainnet'' \<or> network = ''avalanche-testnet''"

definition NewService :: "url_pkg \<Rightarrow> string \<Rightarrow> quicknode_error + service" where
  "NewService pkg endpointURL =
     (case url_Parse pkg endpointURL of
        None \<Rightarrow> Inl InvalidEndpointURL
      | Some ep \<Rightarrow>
          let hostname = split_at CHR ''.'' (Host ep); n = length hostname in
          if Scheme ep \<noteq> ''https'' \<or> User ep \<noteq> None \<or> Fragment ep \<noteq> [] \<or> (n \<noteq> 3 \<and> n \<noteq> 4)
             \<or> hostname ! (n - 2) \<noteq> ''quiknode'' \<or> hostname ! (n - 1) \<noteq> ''pro''
             \<or> \<not> network_match (hostname ! 0) \<or> n = 4 \<and> \<not> network_match (hostname ! 1)
          then Inl WrongEndpointHost
          else
            let path0 = url_EscapedPath pkg ep;
                path = (if n = 4 \<and> avalanche (hostname ! 1)
                        then (if HasSuffix path0 ''/ext/bc/C/rpc/''
                              then TrimSuffix path0 ''/ext/bc/C/rpc/''
                              else TrimSuffix path0 ''/ext/bc/C/rpc'')
                        else path0)
            in if \<not> token_path_match path then Inl WrongTokenPath
               else Inr \<lparr>endpoint = ep\<lparr>Path := path, RawPath := []\<rparr>, qn_name = hostname ! 0\<rparr>)"

definition GetEndpoints :: "url_pkg \<Rightarrow> service \<Rightarrow> string \<Rightarrow> quicknode_error + endpoints" where
  "GetEndpoints pkg s network =
     (if \<not> network_match network then Inl BadNetwork
      else
        let host = (if network \<noteq> ''mainnet'' then qn_name s @ ''.'' @ network @ ''.quiknode.pro''
                    else qn_name s @ ''.quiknode.pro'');
            ep = (endpoint s)\<lparr>Host := host\<rparr>;
            ws = ep\<lparr>Scheme := ''wss''\<rparr>;
            tokenPath = TrimSuffix (Path ep) ''/''
        in if avalanche network
           then Inr \<lparr>ep_HTTPURL = url_String pkg (ep\<lparr>Path := tokenPath @ ''/ext/bc/C/rpc''\<rparr>),
                     ep_WebsocketURL = url_String pkg (ws\<lparr>Path := tokenPath @ ''/ext/bc/C/ws''\<rparr>)\<rparr>
           else Inr \<lparr>ep_HTTPURL = url_String pkg ep, ep_WebsocketURL = url_String pkg ws\<rparr>)"

lemma NewService_Inr:
  assumes "NewService pkg u = Inr s"
  shows "Scheme (endpoint s) = ''https''" "User (endpoint s) = None" "token_path_match (Path (endpoint s))"
    "network_match (qn_name s)" "Fragment (endpoint s) = []" "RawPath (endpoint s) = []"
  using assms by (auto simp: NewService_def Let_def split: option.splits if_splits)

text \<open>
  Every endpoint derived from an accepted provider URL is encrypted, carries no user
  information, and names a host of the provider under the configured endpoint name and the
  requested network (none for the main network); its path is the token of the configured URL,
  followed by the C-Chain transport path on Avalanche only.
\<close>

theorem derived_endpoints:
  assumes "NewService pkg url0 = Inr s" "GetEndpoints pkg s network = Inr e"
  shows "\<exists>h w. ep_HTTPURL e = url_String pkg h \<and> ep_WebsocketURL e = url_String pkg w
    \<and> Scheme h = ''https'' \<and> Scheme w = ''wss'' \<and> User h = None \<and> User w = None
    \<and> Host h = Host w \<and> Host h = qn_name s @ (if network = ''mainnet'' then [] else ''.'' @ network) @ ''.quiknode.pro''
    \<and> network_match (qn_name s) \<and> network_match network
    \<and> (\<exists>token. token \<noteq> [] \<and> list_all token_char token
        \<and> HasPrefix (Path h) (''/'' @ token) \<and> HasPrefix (Path w) (''/'' @ token)
        \<and> drop (Suc (length token)) (Path h) \<in> (if avalanche network then {''/ext/bc/C/rpc''} else {[], ''/''})
        \<and> drop (Suc (length token)) (Path w) \<in> (if avalanche network then {''/ext/bc/C/ws''} else {[], ''/''}))"
proof -
  let ?p = "Path (endpoint s)"
  let ?host = "if network \<noteq> ''mainnet'' then qn_name s @ ''.'' @ network @ ''.quiknode.pro''
                    else qn_name s @ ''.quiknode.pro''"
  let ?ep = "(endpoint s)\<lparr>Host := ?host\<rparr>"
  let ?h = "if avalanche network then ?ep\<lparr>Path := TrimSuffix ?p ''/'' @ ''/ext/bc/C/rpc''\<rparr> else ?ep"
  let ?w = "if avalanche network then ?ep\<lparr>Scheme := ''wss'', Path := TrimSuffix ?p ''/'' @ ''/ext/bc/C/ws''\<rparr>
    else ?ep\<lparr>Scheme := ''wss''\<rparr>"
  note s = NewService_Inr [OF assms(1)]
  obtain token where token: "?p = ''/'' @ token \<or> ?p = ''/'' @ token @ ''/''" "token \<noteq> []"
    "list_all token_char token"
  proof -
    let ?t = "TrimSuffix (drop 1 ?p) ''/''"
    have p: "HasPrefix ?p ''/''" and t: "?t \<noteq> []" "list_all token_char ?t"
      using s(3) by (auto simp: token_path_match_def Let_def)
    from p obtain r where r: "?p = ''/'' @ r" by (auto simp: HasPrefix_iff)
    have "r = ?t \<or> r = ?t @ ''/''"
    proof (cases "HasSuffix r ''/''")
      case True
      then have "r = take (length r - 1) r @ ''/''"
        by (metis HasSuffix_def append_take_drop_id length_Cons list.size(3) One_nat_def)
      then show ?thesis using r True by (simp add: TrimSuffix_def)
    qed (use r in \<open>simp add: TrimSuffix_def\<close>)
    then show thesis using that [of ?t] r t by auto
  qed
  have no_slash: "last token \<noteq> CHR ''/''"
  proof
    assume "last token = CHR ''/''"
    moreover have "token_char (last token)" using token(2,3) by (auto simp: list_all_iff)
    ultimately show False by (simp add: token_char_def is_upper_def is_lower_def is_digit_def)
  qed
  have trim: "TrimSuffix ?p ''/'' = ''/'' @ token"
    using token(1,2) no_slash
    by (auto simp: TrimSuffix_def HasSuffix_def drop_Suc_Cons last_conv_nth nth_append Cons_eq_append_conv
        dest!: arg_cong [of _ "[CHR ''/'']" hd] simp: hd_drop_conv_nth)
  have net: "network_match network" using assms(2) by (auto simp: GetEndpoints_def split: if_splits)
  have "ep_HTTPURL e = url_String pkg ?h" "ep_WebsocketURL e = url_String pkg ?w"
    using assms(2) by (auto simp: GetEndpoints_def Let_def split: if_splits)
  moreover have "Scheme ?h = ''https''" "Scheme ?w = ''wss''" "User ?h = None" "User ?w = None"
    "Host ?h = Host ?w"
    "Host ?h = qn_name s @ (if network = ''mainnet'' then [] else ''.'' @ network) @ ''.quiknode.pro''"
    using s by simp_all
  moreover have "HasPrefix (Path ?h) (''/'' @ token) \<and> HasPrefix (Path ?w) (''/'' @ token)
        \<and> drop (Suc (length token)) (Path ?h) \<in> (if avalanche network then {''/ext/bc/C/rpc''} else {[], ''/''})
        \<and> drop (Suc (length token)) (Path ?w) \<in> (if avalanche network then {''/ext/bc/C/ws''} else {[], ''/''})"
    using token(1) trim by (cases "avalanche network") (auto simp: HasPrefix_def)
  ultimately show ?thesis using s net token(2,3)
    by (intro exI [of _ ?h] exI [of _ ?w]) blast
qed

definition sample_url :: url where
  "sample_url = \<lparr>Scheme = ''https'', User = None, Host = ''ep.base-mainnet.quiknode.pro'', Path = ''/tok/'',
     RawPath = [], RawQuery = [], Fragment = []\<rparr>"

definition sample_pkg :: url_pkg where
  "sample_pkg = \<lparr>url_Parse = (\<lambda>s. if s = ''https://ep.base-mainnet.quiknode.pro/tok/'' then Some sample_url else None),
     url_ParseRequestURI = (\<lambda>_. None), url_EscapedPath = Path,
     url_String = (\<lambda>u. Scheme u @ ''://'' @ Host u @ Path u)\<rparr>"

theorem derived_endpoints_witness:
  "\<exists>h. ''https://ep.avalanche-mainnet.quiknode.pro/tok/ext/bc/C/rpc'' = url_String sample_pkg h \<and> User h = None"
proof -
  have "NewService sample_pkg ''https://ep.base-mainnet.quiknode.pro/tok/'' =
      Inr \<lparr>endpoint = sample_url, qn_name = ''ep''\<rparr>"
    by code_simp
  moreover have "GetEndpoints sample_pkg \<lparr>endpoint = sample_url, qn_name = ''ep''\<rparr> ''avalanche-mainnet'' =
      Inr \<lparr>ep_HTTPURL = ''https://ep.avalanche-mainnet.quiknode.pro/tok/ext/bc/C/rpc'',
           ep_WebsocketURL = ''wss://ep.avalanche-mainnet.quiknode.pro/tok/ext/bc/C/ws''\<rparr>"
    by code_simp
  ultimately show ?thesis using derived_endpoints [of sample_pkg _ _ "''avalanche-mainnet''"] by fastforce
qed

end
