(* ===== verification/Config.thy ===== *)
theory Config
  imports Evm_Utils Go_Json Quicknode
begin

text \<open>
  The configuration of \<^verbatim>\<open>internal/config\<close>: what \<^verbatim>\<open>Load\<close> does with a decoded document (environment
  values, derived provider upstreams, defaults, validation). The YAML decoder and the
  environment are arguments. Durations and limits are Go integers; the one product that can
  overflow wraps. The lemmas characterise the accepted configurations, which is what the other
  components assume about their settings.
\<close>

record CacheConfig =
  Disabled :: bool
  MaxEntries :: int
  MaxBytes :: int
  MaxEntryBytes :: int
  TTL :: duration

record QuickNodeConfig =
  qn_HTTPURL :: string
  qn_HTTPURLEnv :: string
  qn_ID :: string
  qn_MaxConcurrency :: int
  qn_WebsocketDisabled :: bool

record ServerConfig =
  ListenAddress :: string
  AdminAddress :: string
  RequestTimeout :: duration
  MaxBodyBytes :: int
  MaxBatchSize :: int
  WebsocketQueueSize :: int

record RedisConfig =
  rd_URLEnv :: string
  rd_URL :: string
  KeyPrefix :: string
  LeaderTTL :: duration
  StreamMaxLength :: int

record DatadogConfig =
  dd_Enabled :: bool
  StatsdAddress :: string
  AgentAddress :: string
  dd_Service :: string
  dd_Environment :: string
  dd_Version :: string
  ProfilingEnabled :: bool

record UpstreamConfig =
  up_ID :: string
  up_HTTPURL :: string
  up_HTTPURLEnv :: string
  up_WebsocketURL :: string
  up_WebsocketURLEnv :: string
  up_Headers :: "(string \<times> string) list"
  up_HeaderEnvs :: "(string \<times> string) list"
  up_MaxConcurrency :: int

record ChainConfig =
  QuickNodeNetwork :: string
  cc_Name :: string
  cc_Family :: string
  ChainID :: string
  GenesisHash :: string
  BlockTime :: duration
  PollInterval :: duration
  HeadRequestTimeout :: duration
  WebsocketIdleTimeout :: duration
  MaxHeadAge :: duration
  ReorgDepth :: int
  Upstreams :: "UpstreamConfig list"

record config =
  Server :: ServerConfig
  Redis :: RedisConfig
  Datadog :: DatadogConfig
  Cache :: CacheConfig
  Chains :: "ChainConfig list"
  QuickNode :: "QuickNodeConfig option"
  Clients :: "string list"

datatype problem =
    BadClient string
  | BadCacheLimits
  | BadRequestTimeout
  | BadServerLimits
  | BadRedisLimits
  | RedisURLRequired
  | RedisURLInvalid
  | RedisURLScheme
  | NoChains
  | BadChainName nat
  | BadFamily string
  | BadChainID string quantity_error
  | GenesisHashRequired string
  | BadTiming string
  | BadHeadTimeout string
  | BadIdleTimeout string
  | NoUpstreams string
  | BadUpstreamID string
  | BadConcurrency string string
  | BadHTTPURL string string
  | BadWebsocketURL string string

datatype config_error =
    EmptyEnvironment string
  | QuickNodeError quicknode_error
  | QuickNodeConcurrency
  | QuickNodeMissing string
  | QuickNodeNetworkError string quicknode_error
  | Invalid "problem list"

subsection \<open>Environment values\<close>

fun header_values :: "(string \<Rightarrow> string) \<Rightarrow> (string \<times> string) list \<Rightarrow> (string \<times> string) list \<Rightarrow>
    config_error + (string \<times> string) list" where
  "header_values env headers [] = Inr headers"
| "header_values env headers ((header, name) # rest) =
     (if env name = [] then Inl (EmptyEnvironment name)
      else header_values env (map_set header (env name) headers) rest)"

definition upstream_environment :: "(string \<Rightarrow> string) \<Rightarrow> UpstreamConfig \<Rightarrow> config_error + UpstreamConfig" where
  "upstream_environment env up =
     (let up1 = (if up_HTTPURL up = [] \<and> up_HTTPURLEnv up \<noteq> []
                 then up\<lparr>up_HTTPURL := env (up_HTTPURLEnv up)\<rparr> else up) in
      if up_HTTPURL up = [] \<and> up_HTTPURLEnv up \<noteq> [] \<and> up_HTTPURL up1 = []
      then Inl (EmptyEnvironment (up_HTTPURLEnv up))
      else
        let up2 = (if up_WebsocketURL up = [] \<and> up_WebsocketURLEnv up \<noteq> []
                   then up1\<lparr>up_WebsocketURL := env (up_WebsocketURLEnv up)\<rparr> else up1) in
        if up_WebsocketURL up = [] \<and> up_WebsocketURLEnv up \<noteq> [] \<and> up_WebsocketURL up2 = []
        then Inl (EmptyEnvironment (up_WebsocketURLEnv up))
        else (case header_values env (up_Headers up2) (up_HeaderEnvs up2) of
                Inl e \<Rightarrow> Inl e
              | Inr hs \<Rightarrow> Inr (up2\<lparr>up_Headers := hs\<rparr>)))"

fun traverse :: "('a \<Rightarrow> 'e + 'b) \<Rightarrow> 'a list \<Rightarrow> 'e + 'b list" where
  "traverse f [] = Inr []"
| "traverse f (x # xs) =
     (case f x of
        Inl e \<Rightarrow> Inl e
      | Inr y \<Rightarrow> (case traverse f xs of Inl e \<Rightarrow> Inl e | Inr ys \<Rightarrow> Inr (y # ys)))"

definition chain_environment :: "(string \<Rightarrow> string) \<Rightarrow> ChainConfig \<Rightarrow> config_error + ChainConfig" where
  "chain_environment env chain =
     (case traverse (upstream_environment env) (Upstreams chain) of
        Inl e \<Rightarrow> Inl e
      | Inr ups \<Rightarrow> Inr (chain\<lparr>Upstreams := ups\<rparr>))"

definition quicknode_environment :: "(string \<Rightarrow> string) \<Rightarrow> QuickNodeConfig option \<Rightarrow>
    config_error + QuickNodeConfig option" where
  "quicknode_environment env qn =
     (case qn of
        None \<Rightarrow> Inr None
      | Some q \<Rightarrow>
          if qn_HTTPURL q = [] \<and> qn_HTTPURLEnv q \<noteq> []
          then (let v = env (qn_HTTPURLEnv q) in
                if v = [] then Inl (EmptyEnvironment (qn_HTTPURLEnv q)) else Inr (Some (q\<lparr>qn_HTTPURL := v\<rparr>)))
          else Inr (Some q))"

definition redis_environment :: "(string \<Rightarrow> string) \<Rightarrow> RedisConfig \<Rightarrow> config_error + RedisConfig" where
  "redis_environment env r =
     (if rd_URL r = [] \<and> rd_URLEnv r \<noteq> []
      then (let v = env (rd_URLEnv r) in
            if v = [] then Inl (EmptyEnvironment (rd_URLEnv r)) else Inr (r\<lparr>rd_URL := v\<rparr>))
      else Inr r)"

definition getEnvironmentValues :: "(string \<Rightarrow> string) \<Rightarrow> config \<Rightarrow> config_error + config" where
  "getEnvironmentValues env cfg =
     (case quicknode_environment env (QuickNode cfg) of
        Inl e \<Rightarrow> Inl e
      | Inr qn \<Rightarrow>
          (case redis_environment env (Redis cfg) of
             Inl e \<Rightarrow> Inl e
           | Inr r \<Rightarrow>
               (case traverse (chain_environment env) (Chains cfg) of
                  Inl e \<Rightarrow> Inl e
                | Inr cs \<Rightarrow> Inr (cfg\<lparr>QuickNode := qn, Redis := r, Chains := cs\<rparr>))))"

subsection \<open>Derived upstreams\<close>

definition add_quicknode_upstream :: "url_pkg \<Rightarrow> (QuickNodeConfig \<times> service) option \<Rightarrow> ChainConfig \<Rightarrow>
    config_error + ChainConfig" where
  "add_quicknode_upstream pkg qn chain =
     (if QuickNodeNetwork chain = [] then Inr chain
      else (case qn of
              None \<Rightarrow> Inl (QuickNodeMissing (cc_Name chain))
            | Some (q, s) \<Rightarrow>
                (case GetEndpoints pkg s (QuickNodeNetwork chain) of
                   Inl e \<Rightarrow> Inl (QuickNodeNetworkError (cc_Name chain) e)
                 | Inr urls \<Rightarrow>
                     Inr (chain\<lparr>Upstreams := Upstreams chain @
                       [\<lparr>up_ID = (if qn_ID q = [] then ''quicknode'' else qn_ID q),
                         up_HTTPURL = ep_HTTPURL urls, up_HTTPURLEnv = [],
                         up_WebsocketURL = (if cc_Family chain = ''evm'' \<and> \<not> qn_WebsocketDisabled q
                                            then ep_WebsocketURL urls else []),
                         up_WebsocketURLEnv = [], up_Headers = [], up_HeaderEnvs = [],
                         up_MaxConcurrency = qn_MaxConcurrency q\<rparr>]\<rparr>))))"

definition addQuickNodeUpstreams :: "url_pkg \<Rightarrow> config \<Rightarrow> config_error + config" where
  "addQuickNodeUpstreams pkg cfg =
     (let with_service = (\<lambda>qn. case traverse (add_quicknode_upstream pkg qn) (Chains cfg) of
            Inl e \<Rightarrow> Inl e | Inr cs \<Rightarrow> Inr (cfg\<lparr>Chains := cs\<rparr>)) in
      case QuickNode cfg of
        None \<Rightarrow> with_service None
      | Some q \<Rightarrow>
          (case NewService pkg (qn_HTTPURL q) of
             Inl e \<Rightarrow> Inl (QuickNodeError e)
           | Inr s \<Rightarrow> if qn_MaxConcurrency q < 0 then Inl QuickNodeConcurrency
                      else with_service (Some (q, s))))"

subsection \<open>Defaults\<close>

definition default_int :: "int \<Rightarrow> int \<Rightarrow> int" where
  "default_int d v = (if v = 0 then d else v)"

definition default_string :: "string \<Rightarrow> string \<Rightarrow> string" where
  "default_string d v = (if v = [] then d else v)"

definition chain_defaults :: "ChainConfig \<Rightarrow> ChainConfig" where
  "chain_defaults chain =
     (let bt = default_int (12 * Second) (BlockTime chain);
          age = default_int (int64 (2 * bt)) (MaxHeadAge chain)
      in chain\<lparr>BlockTime := bt,
               PollInterval := default_int (2 * Second) (PollInterval chain),
               MaxHeadAge := age,
               HeadRequestTimeout := default_int (2 * Second) (HeadRequestTimeout chain),
               WebsocketIdleTimeout := default_int (age - go_quot age 4) (WebsocketIdleTimeout chain),
               ReorgDepth := default_int 64 (ReorgDepth chain),
               Upstreams := map (\<lambda>up. up\<lparr>up_MaxConcurrency := default_int 256 (up_MaxConcurrency up)\<rparr>) (Upstreams chain)\<rparr>)"

definition applyDefaults :: "config \<Rightarrow> config" where
  "applyDefaults cfg =
     cfg\<lparr>Cache := (Cache cfg)
           \<lparr>MaxEntries := default_int 4096 (MaxEntries (Cache cfg)),
            MaxBytes := default_int (64 * 2 ^ 20) (MaxBytes (Cache cfg)),
            MaxEntryBytes := default_int (2 ^ 20) (MaxEntryBytes (Cache cfg)),
            TTL := default_int (5 * Minute) (TTL (Cache cfg))\<rparr>,
         Server := (Server cfg)
           \<lparr>ListenAddress := default_string '':8080'' (ListenAddress (Server cfg)),
            AdminAddress := default_string ''127.0.0.1:8081'' (AdminAddress (Server cfg)),
            RequestTimeout := default_int (5 * Second) (RequestTimeout (Server cfg)),
            MaxBodyBytes := default_int (10 * 2 ^ 20) (MaxBodyBytes (Server cfg)),
            MaxBatchSize := default_int 100 (MaxBatchSize (Server cfg)),
            WebsocketQueueSize := default_int 256 (WebsocketQueueSize (Server cfg))\<rparr>,
         Redis := (Redis cfg)
           \<lparr>KeyPrefix := default_string ''rpc-proxy'' (KeyPrefix (Redis cfg)),
            LeaderTTL := default_int (5 * Second) (LeaderTTL (Redis cfg)),
            StreamMaxLength := default_int 4096 (StreamMaxLength (Redis cfg))\<rparr>,
         Datadog := (Datadog cfg)
           \<lparr>dd_Service := default_string ''rpc-proxy'' (dd_Service (Datadog cfg)),
            StatsdAddress := default_string ''127.0.0.1:8125'' (StatsdAddress (Datadog cfg)),
            AgentAddress := default_string ''127.0.0.1:8126'' (AgentAddress (Datadog cfg))\<rparr>,
         Chains := map chain_defaults (Chains cfg)\<rparr>"

subsection \<open>Validation\<close>

text \<open>\<^verbatim>\<open>^[a-z][a-z0-9_-]{0,63}$\<close>\<close>

definition client_match :: "string \<Rightarrow> bool" where
  "client_match s \<longleftrightarrow>
     1 \<le> length s \<and> length s \<le> 64 \<and> is_lower (hd s) \<and>
     list_all (\<lambda>c. is_lower c \<or> is_digit c \<or> c = CHR ''_'' \<or> c = CHR ''-'') (tl s)"

definition client_problems :: "string list \<Rightarrow> problem list" where
  "client_problems clients =
     concat (map (\<lambda>(client, seen). problem_if
         (\<not> client_match client \<or> client = ''anonymous'' \<or> client = ''unknown'' \<or> seen) (BadClient client))
       (zip clients (seen_before [] clients)))"

definition cache_problems :: "CacheConfig \<Rightarrow> problem list" where
  "cache_problems c = problem_if
     (MaxEntries c \<le> 0 \<or> MaxBytes c \<le> 0 \<or> MaxEntryBytes c \<le> 0 \<or> MaxEntryBytes c > MaxBytes c \<or> TTL c \<le> 0)
     BadCacheLimits"

definition server_problems :: "ServerConfig \<Rightarrow> problem list" where
  "server_problems s =
     problem_if (RequestTimeout s \<le> 0) BadRequestTimeout @
     problem_if (MaxBodyBytes s \<le> 0 \<or> MaxBatchSize s \<le> 0 \<or> MaxBatchSize s > 100 \<or> WebsocketQueueSize s \<le> 0)
       BadServerLimits"

definition redis_problems :: "url_pkg \<Rightarrow> RedisConfig \<Rightarrow> problem list" where
  "redis_problems pkg r =
     problem_if (LeaderTTL r \<le> 0 \<or> StreamMaxLength r \<le> 0) BadRedisLimits @
     problem_if (rd_URL r = []) RedisURLRequired @
     (case url_ParseRequestURI pkg (rd_URL r) of
        None \<Rightarrow> [RedisURLInvalid]
      | Some u \<Rightarrow> problem_if (Scheme u \<noteq> ''redis'' \<and> Scheme u \<noteq> ''rediss'' \<and> Scheme u \<noteq> ''unix'') RedisURLScheme)"

definition scheme_in :: "url_pkg \<Rightarrow> string \<Rightarrow> string list \<Rightarrow> bool" where
  "scheme_in pkg s schemes \<longleftrightarrow>
     (case url_ParseRequestURI pkg s of None \<Rightarrow> False | Some u \<Rightarrow> Scheme u \<in> set schemes)"

definition upstream_problems :: "url_pkg \<Rightarrow> string \<Rightarrow> UpstreamConfig \<Rightarrow> bool \<Rightarrow> problem list" where
  "upstream_problems pkg chain up seen =
     problem_if (up_ID up = [] \<or> seen) (BadUpstreamID chain) @
     problem_if (up_MaxConcurrency up \<le> 0) (BadConcurrency chain (up_ID up)) @
     problem_if (\<not> scheme_in pkg (up_HTTPURL up) [''http'', ''https'']) (BadHTTPURL chain (up_ID up)) @
     problem_if (up_WebsocketURL up \<noteq> [] \<and> \<not> scheme_in pkg (up_WebsocketURL up) [''ws'', ''wss''])
       (BadWebsocketURL chain (up_ID up))"

definition chain_problems :: "url_pkg \<Rightarrow> nat \<Rightarrow> ChainConfig \<Rightarrow> bool \<Rightarrow> problem list" where
  "chain_problems pkg i chain seen =
     problem_if (cc_Name chain = [] \<or> seen) (BadChainName i) @
     problem_if (cc_Family chain \<noteq> ''evm'' \<and> cc_Family chain \<noteq> ''solana'') (BadFamily (cc_Name chain)) @
     (if cc_Family chain = ''evm''
      then (case ParseEVMQuantity (ChainID chain) of Inl e \<Rightarrow> [BadChainID (cc_Name chain) e] | Inr _ \<Rightarrow> [])
      else []) @
     problem_if (cc_Family chain = ''solana'' \<and> GenesisHash chain = []) (GenesisHashRequired (cc_Name chain)) @
     problem_if (BlockTime chain \<le> 0 \<or> PollInterval chain \<le> 0 \<or> MaxHeadAge chain \<le> 0 \<or> ReorgDepth chain \<le> 0)
       (BadTiming (cc_Name chain)) @
     problem_if (HeadRequestTimeout chain \<le> 0) (BadHeadTimeout (cc_Name chain)) @
     problem_if (cc_Family chain = ''evm'' \<and>
         (WebsocketIdleTimeout chain \<le> 0 \<or> WebsocketIdleTimeout chain \<ge> MaxHeadAge chain))
       (BadIdleTimeout (cc_Name chain)) @
     problem_if (Upstreams chain = []) (NoUpstreams (cc_Name chain)) @
     concat (map (\<lambda>(up, s). upstream_problems pkg (cc_Name chain) up s)
       (zip (Upstreams chain) (seen_before [] (map up_ID (Upstreams chain)))))"

definition config_problems :: "url_pkg \<Rightarrow> config \<Rightarrow> problem list" where
  "config_problems pkg cfg =
     client_problems (Clients cfg) @ cache_problems (Cache cfg) @ server_problems (Server cfg) @
     redis_problems pkg (Redis cfg) @ problem_if (Chains cfg = []) NoChains @
     concat (map (\<lambda>(i, chain, seen). chain_problems pkg i chain seen)
       (zip [0..<length (Chains cfg)] (zip (Chains cfg) (seen_before [] (map cc_Name (Chains cfg))))))"

text \<open>Loading a decoded document.\<close>

definition Load :: "url_pkg \<Rightarrow> (string \<Rightarrow> string) \<Rightarrow> config \<Rightarrow> config_error + config" where
  "Load pkg env cfg0 =
     (case getEnvironmentValues env cfg0 of
        Inl e \<Rightarrow> Inl e
      | Inr cfg1 \<Rightarrow>
          (case addQuickNodeUpstreams pkg cfg1 of
             Inl e \<Rightarrow> Inl e
           | Inr cfg2 \<Rightarrow>
               let cfg = applyDefaults cfg2; problems = config_problems pkg cfg in
               if problems = [] then Inr cfg else Inl (Invalid problems)))"

subsection \<open>The accepted configurations\<close>

definition valid_cache :: "CacheConfig \<Rightarrow> bool" where
  "valid_cache c \<longleftrightarrow> 0 < MaxEntries c \<and> 0 < MaxEntryBytes c \<and> MaxEntryBytes c \<le> MaxBytes c \<and> 0 < TTL c"

definition valid_server :: "ServerConfig \<Rightarrow> bool" where
  "valid_server s \<longleftrightarrow> 0 < RequestTimeout s \<and> 0 < MaxBodyBytes s \<and> 0 < MaxBatchSize s \<and> MaxBatchSize s \<le> 100
     \<and> 0 < WebsocketQueueSize s"

definition valid_redis :: "url_pkg \<Rightarrow> RedisConfig \<Rightarrow> bool" where
  "valid_redis pkg r \<longleftrightarrow> 0 < LeaderTTL r \<and> 0 < StreamMaxLength r \<and> rd_URL r \<noteq> []
     \<and> scheme_in pkg (rd_URL r) [''redis'', ''rediss'', ''unix'']"

definition valid_upstream :: "url_pkg \<Rightarrow> UpstreamConfig \<Rightarrow> bool" where
  "valid_upstream pkg up \<longleftrightarrow> up_ID up \<noteq> [] \<and> 0 < up_MaxConcurrency up
     \<and> scheme_in pkg (up_HTTPURL up) [''http'', ''https'']
     \<and> (up_WebsocketURL up = [] \<or> scheme_in pkg (up_WebsocketURL up) [''ws'', ''wss''])"

definition valid_chain :: "url_pkg \<Rightarrow> ChainConfig \<Rightarrow> bool" where
  "valid_chain pkg c \<longleftrightarrow> cc_Name c \<noteq> []
     \<and> (cc_Family c = ''evm'' \<and> (\<exists>n. ParseEVMQuantity (ChainID c) = Inr n)
          \<and> 0 < WebsocketIdleTimeout c \<and> WebsocketIdleTimeout c < MaxHeadAge c
        \<or> cc_Family c = ''solana'' \<and> GenesisHash c \<noteq> [])
     \<and> 0 < BlockTime c \<and> 0 < PollInterval c \<and> 0 < MaxHeadAge c \<and> 0 < ReorgDepth c \<and> 0 < HeadRequestTimeout c
     \<and> Upstreams c \<noteq> [] \<and> list_all (valid_upstream pkg) (Upstreams c) \<and> distinct (map up_ID (Upstreams c))"

definition valid_clients :: "string list \<Rightarrow> bool" where
  "valid_clients cs \<longleftrightarrow> distinct cs \<and> list_all client_match cs \<and> ''anonymous'' \<notin> set cs \<and> ''unknown'' \<notin> set cs"

definition valid_config :: "url_pkg \<Rightarrow> config \<Rightarrow> bool" where
  "valid_config pkg cfg \<longleftrightarrow> valid_clients (Clients cfg) \<and> valid_cache (Cache cfg) \<and> valid_server (Server cfg)
     \<and> valid_redis pkg (Redis cfg) \<and> Chains cfg \<noteq> [] \<and> list_all (valid_chain pkg) (Chains cfg)
     \<and> distinct (map cc_Name (Chains cfg))"

text \<open>A validator that reports each element against the names before it reports nothing iff the
  elements are good and no name repeats.\<close>

lemma seen_problems_Nil:
  assumes "\<And>x s. f x s = [] \<longleftrightarrow> good x \<and> \<not> s"
  shows "concat (map (\<lambda>(x, s). f x s) (zip xs (seen_before seen (map k xs)))) = [] \<longleftrightarrow>
    list_all good xs \<and> distinct (map k xs) \<and> k ` set xs \<inter> set seen = {}"
  by (induction xs arbitrary: seen) (auto simp: assms)

lemma indexed_problems_Nil:
  assumes "\<And>i x s. f i x s = [] \<longleftrightarrow> good x \<and> \<not> s"
  shows "concat (map (\<lambda>(i, x, s). f i x s) (zip [n..<n + length xs] (zip xs (seen_before seen (map k xs))))) = [] \<longleftrightarrow>
    list_all good xs \<and> distinct (map k xs) \<and> k ` set xs \<inter> set seen = {}"
proof (induction xs arbitrary: seen n)
  case (Cons x xs)
  have "[n..<n + length (x # xs)] = n # [Suc n..<Suc n + length xs]"
    by (subst upt_conv_Cons) auto
  then show ?case using Cons.IH [of "Suc n" "k x # seen"] by (auto simp: assms)
qed simp

lemma upstream_problems_Nil: "upstream_problems pkg c up s = [] \<longleftrightarrow> valid_upstream pkg up \<and> \<not> s"
  by (auto simp: upstream_problems_def valid_upstream_def)

lemma chain_problems_Nil: "chain_problems pkg i c s = [] \<longleftrightarrow> valid_chain pkg c \<and> \<not> s"
proof -
  have "ParseEVMQuantity (ChainID c) = Inl e \<or> (\<exists>n. ParseEVMQuantity (ChainID c) = Inr n)"
    if "e = projl (ParseEVMQuantity (ChainID c))" for e
    using that by (cases "ParseEVMQuantity (ChainID c)") auto
  then show ?thesis
    using seen_problems_Nil [of "upstream_problems pkg (cc_Name c)" "valid_upstream pkg" "Upstreams c" "[]" up_ID,
        OF upstream_problems_Nil]
    by (auto simp: chain_problems_def valid_chain_def not_le split: sum.splits)
qed

lemma client_problems_Nil: "client_problems cs = [] \<longleftrightarrow> valid_clients cs"
proof -
  let ?good = "\<lambda>c. client_match c \<and> c \<noteq> ''anonymous'' \<and> c \<noteq> ''unknown''"
  have "client_problems cs = [] \<longleftrightarrow> list_all ?good cs \<and> distinct (map (\<lambda>x. x) cs) \<and> (\<lambda>x. x) ` set cs \<inter> set [] = {}"
    using seen_problems_Nil [of "\<lambda>c seen. problem_if (\<not> client_match c \<or> c = ''anonymous'' \<or> c = ''unknown'' \<or> seen)
        (BadClient c)" ?good cs "[]" "\<lambda>x. x"]
    by (auto simp: client_problems_def)
  also have "\<dots> \<longleftrightarrow> valid_clients cs"
    unfolding valid_clients_def list_all_iff by auto
  finally show ?thesis .
qed

lemma config_problems_Nil: "config_problems pkg cfg = [] \<longleftrightarrow> valid_config pkg cfg"
proof -
  have cache: "cache_problems c = [] \<longleftrightarrow> valid_cache c" for c
    by (auto simp: cache_problems_def valid_cache_def)
  have server: "server_problems s = [] \<longleftrightarrow> valid_server s" for s
    by (auto simp: server_problems_def valid_server_def)
  have redis: "redis_problems pkg r = [] \<longleftrightarrow> valid_redis pkg r" for r
    by (auto simp: redis_problems_def valid_redis_def scheme_in_def split: option.splits)
  show ?thesis
    using indexed_problems_Nil [of "chain_problems pkg" "valid_chain pkg" 0 "Chains cfg" "[]" cc_Name,
        OF chain_problems_Nil]
    by (auto simp: config_problems_def valid_config_def client_problems_Nil cache server redis)
qed

text \<open>
  Property C36. Validation accepts exactly the valid configurations: client labels unique and of the
  allowed form, positive limits with the entry limit within the cache limit, a Redis URL of a
  known scheme, and at least one chain; chain names unique; per chain a known family with its
  identity, positive timings, for EVM an idle timeout below the maximal head age, and at least one
  upstream, with unique identifiers, positive concurrency and URLs of the right scheme.
\<close>

theorem validation_exact:
  "config_problems pkg cfg = [] \<longleftrightarrow> valid_config pkg cfg"
  by (rule config_problems_Nil)

subsection \<open>What loading does\<close>

lemma traverse_Inr:
  "traverse f xs = Inr ys \<Longrightarrow> list_all2 (\<lambda>x y. f x = Inr y) xs ys"
  by (induction xs arbitrary: ys) (auto split: sum.splits)

text \<open>The upstream a document's upstream becomes, and the upstreams derived for its chain.\<close>

definition loaded_upstream :: "(string \<Rightarrow> string) \<Rightarrow> UpstreamConfig \<Rightarrow> UpstreamConfig \<Rightarrow> bool" where
  "loaded_upstream env d up \<longleftrightarrow>
     up_ID up = up_ID d
     \<and> up_HTTPURL up = (if up_HTTPURL d = [] \<and> up_HTTPURLEnv d \<noteq> [] then env (up_HTTPURLEnv d) else up_HTTPURL d)
     \<and> up_WebsocketURL up =
         (if up_WebsocketURL d = [] \<and> up_WebsocketURLEnv d \<noteq> [] then env (up_WebsocketURLEnv d) else up_WebsocketURL d)
     \<and> (\<forall>h v. map_of (rev (up_HeaderEnvs d)) h = Some v \<longrightarrow> env v \<noteq> [] \<and> map_of (up_Headers up) h = Some (env v))
     \<and> (\<forall>h. h \<notin> fst ` set (up_HeaderEnvs d) \<longrightarrow> map_of (up_Headers up) h = map_of (up_Headers d) h)
     \<and> up_MaxConcurrency up = default_int 256 (up_MaxConcurrency d)"

lemma header_values_Inr:
  "header_values env hs es = Inr hs' \<Longrightarrow>
     (\<forall>h v. map_of (rev es) h = Some v \<longrightarrow> env v \<noteq> [] \<and> map_of hs' h = Some (env v))
     \<and> (\<forall>h. h \<notin> fst ` set es \<longrightarrow> map_of hs' h = map_of hs h)"
proof (induction env hs es rule: header_values.induct)
  case (2 env headers header name rest)
  have IH: "env name \<noteq> []"
    "\<forall>h v. map_of (rev rest) h = Some v \<longrightarrow> env v \<noteq> [] \<and> map_of hs' h = Some (env v)"
    "\<forall>h. h \<notin> fst ` set rest \<longrightarrow> map_of hs' h = map_of (map_set header (env name) headers) h"
    using 2 by (auto split: if_splits)
  have "map_of (rev rest) h = None \<longleftrightarrow> h \<notin> fst ` set rest" for h
    by (simp add: map_of_eq_None_iff)
  then show ?case using IH by (auto simp: map_add_def split: option.splits if_splits)
qed simp

lemma upstream_environment_Inr:
  assumes "upstream_environment env d = Inr up"
  shows "loaded_upstream env d (up\<lparr>up_MaxConcurrency := default_int 256 (up_MaxConcurrency up)\<rparr>)"
  using assms header_values_Inr
  by (auto simp: upstream_environment_def loaded_upstream_def Let_def split: sum.splits if_splits; fastforce?)

definition provider_upstream :: "url_pkg \<Rightarrow> (string \<Rightarrow> string) \<Rightarrow> QuickNodeConfig option \<Rightarrow> ChainConfig \<Rightarrow>
    UpstreamConfig \<Rightarrow> bool" where
  "provider_upstream pkg env qn d up \<longleftrightarrow>
     (\<exists>q s e. qn = Some q
        \<and> NewService pkg (if qn_HTTPURL q = [] \<and> qn_HTTPURLEnv q \<noteq> [] then env (qn_HTTPURLEnv q) else qn_HTTPURL q) = Inr s
        \<and> GetEndpoints pkg s (QuickNodeNetwork d) = Inr e
        \<and> up_ID up = default_string ''quicknode'' (qn_ID q) \<and> up_HTTPURL up = ep_HTTPURL e
        \<and> up_WebsocketURL up = (if cc_Family d = ''evm'' \<and> \<not> qn_WebsocketDisabled q then ep_WebsocketURL e else []))"

definition loaded_chain :: "url_pkg \<Rightarrow> (string \<Rightarrow> string) \<Rightarrow> QuickNodeConfig option \<Rightarrow> ChainConfig \<Rightarrow>
    ChainConfig \<Rightarrow> bool" where
  "loaded_chain pkg env qn d c \<longleftrightarrow>
     cc_Name c = cc_Name d \<and> cc_Family c = cc_Family d \<and> ChainID c = ChainID d \<and> GenesisHash c = GenesisHash d
     \<and> (\<exists>ups extra. Upstreams c = ups @ extra \<and> list_all2 (loaded_upstream env) (Upstreams d) ups
          \<and> (if QuickNodeNetwork d = [] then extra = []
             else \<exists>up. extra = [up] \<and> provider_upstream pkg env qn d up))"

lemma quicknode_environment_Some:
  assumes "quicknode_environment env qn = Inr (Some q')"
  shows "\<exists>q. qn = Some q \<and> qn_ID q' = qn_ID q \<and> qn_WebsocketDisabled q' = qn_WebsocketDisabled q
    \<and> qn_HTTPURL q' = (if qn_HTTPURL q = [] \<and> qn_HTTPURLEnv q \<noteq> [] then env (qn_HTTPURLEnv q) else qn_HTTPURL q)"
  using assms by (auto simp: quicknode_environment_def Let_def split: option.splits if_splits)

lemma chain_loaded:
  assumes "chain_environment env d = Inr c1" "add_quicknode_upstream pkg qs c1 = Inr c2"
    and "\<And>q' s. qs = Some (q', s) \<Longrightarrow> quicknode_environment env qn = Inr (Some q') \<and> NewService pkg (qn_HTTPURL q') = Inr s"
  shows "loaded_chain pkg env qn d (chain_defaults c2)"
proof -
  let ?def = "\<lambda>up. up\<lparr>up_MaxConcurrency := default_int 256 (up_MaxConcurrency up)\<rparr>"
  obtain ups where ups: "list_all2 (\<lambda>x y. upstream_environment env x = Inr y) (Upstreams d) ups"
    "c1 = d\<lparr>Upstreams := ups\<rparr>"
    using assms(1) by (auto simp: chain_environment_def split: sum.splits dest: traverse_Inr)
  have same: "cc_Name (chain_defaults c2) = cc_Name d" "cc_Family (chain_defaults c2) = cc_Family d"
    "ChainID (chain_defaults c2) = ChainID d" "GenesisHash (chain_defaults c2) = GenesisHash d"
    using assms(2) ups(2)
    by (auto simp: add_quicknode_upstream_def chain_defaults_def Let_def split: if_splits option.splits sum.splits)
  have own: "list_all2 (loaded_upstream env) (Upstreams d) (map ?def ups)"
    using ups(1) by (auto simp: list_all2_map2 intro: list_all2_mono upstream_environment_Inr)
  have "\<exists>extra. Upstreams (chain_defaults c2) = map ?def ups @ extra
          \<and> (if QuickNodeNetwork d = [] then extra = []
             else \<exists>up. extra = [up] \<and> provider_upstream pkg env qn d up)"
  proof (cases "QuickNodeNetwork d = []")
    case True
    then have "c2 = d\<lparr>Upstreams := ups\<rparr>" using assms(2) ups(2) by (simp add: add_quicknode_upstream_def)
    then show ?thesis using True by (simp add: chain_defaults_def Let_def)
  next
    case False
    then obtain q' s where q': "qs = Some (q', s)"
      using assms(2) ups(2) by (cases qs) (auto simp: add_quicknode_upstream_def)
    obtain e where e: "GetEndpoints pkg s (QuickNodeNetwork d) = Inr e"
      using assms(2) ups(2) False q' by (auto simp: add_quicknode_upstream_def split: sum.splits)
    let ?up = "\<lparr>up_ID = (if qn_ID q' = [] then ''quicknode'' else qn_ID q'),
        up_HTTPURL = ep_HTTPURL e, up_HTTPURLEnv = [],
        up_WebsocketURL = (if cc_Family d = ''evm'' \<and> \<not> qn_WebsocketDisabled q' then ep_WebsocketURL e else []),
        up_WebsocketURLEnv = [], up_Headers = [], up_HeaderEnvs = [], up_MaxConcurrency = qn_MaxConcurrency q'\<rparr>"
    have "c2 = d\<lparr>Upstreams := ups @ [?up]\<rparr>"
      using assms(2) ups(2) False q' e by (simp add: add_quicknode_upstream_def)
    moreover obtain q where q: "qn = Some q" "qn_ID q' = qn_ID q" "qn_WebsocketDisabled q' = qn_WebsocketDisabled q"
      "qn_HTTPURL q' = (if qn_HTTPURL q = [] \<and> qn_HTTPURLEnv q \<noteq> [] then env (qn_HTTPURLEnv q) else qn_HTTPURL q)"
      using quicknode_environment_Some assms(3) [OF q'] by blast
    have "provider_upstream pkg env qn d (?def ?up)"
      unfolding provider_upstream_def
      using assms(3) [OF q'] q e by (intro exI [of _ q] exI [of _ s] exI [of _ e]) (simp add: default_string_def)
    ultimately show ?thesis using False by (simp add: chain_defaults_def Let_def)
  qed
  then show ?thesis using same own unfolding loaded_chain_def by blast
qed

text \<open>
  A configuration that loads is valid, and has the document's chains in order, each
  with its name, family and identity, the upstreams the document gives it (values the document sets
  are kept, the others are the environment's, and a header named in the environment is present and
  not empty) and, for a chain with a provider network, one more upstream with the endpoints derived
  from the provider's URL.
\<close>

theorem load_effect:
  assumes "Load pkg env d = Inr cfg"
  shows "valid_config pkg cfg \<and> list_all2 (loaded_chain pkg env (QuickNode d)) (Chains d) (Chains cfg)"
proof -
  obtain cfg1 cfg2 where c: "getEnvironmentValues env d = Inr cfg1" "addQuickNodeUpstreams pkg cfg1 = Inr cfg2"
    "cfg = applyDefaults cfg2" "config_problems pkg cfg = []"
    using assms by (auto simp: Load_def Let_def split: sum.splits if_splits)
  obtain qn cs1 where 1: "quicknode_environment env (QuickNode d) = Inr qn" "QuickNode cfg1 = qn"
    "Chains cfg1 = cs1" "list_all2 (\<lambda>x y. chain_environment env x = Inr y) (Chains d) cs1"
    using c(1) by (auto simp: getEnvironmentValues_def split: sum.splits dest: traverse_Inr)
  obtain qs where 2: "list_all2 (\<lambda>x y. add_quicknode_upstream pkg qs x = Inr y) cs1 (Chains cfg2)"
    "\<And>q' s. qs = Some (q', s) \<Longrightarrow> qn = Some q' \<and> NewService pkg (qn_HTTPURL q') = Inr s"
    using c(2) 1(2,3)
    by (fastforce simp: addQuickNodeUpstreams_def Let_def split: option.splits sum.splits if_splits dest: traverse_Inr)
  have "list_all2 (\<lambda>x y. loaded_chain pkg env (QuickNode d) x (chain_defaults y)) (Chains d) (Chains cfg2)"
    using 1(4) 2(1)
  proof (rule list_all2_trans [rotated])
    show "loaded_chain pkg env (QuickNode d) x (chain_defaults z)"
      if "chain_environment env x = Inr y" "add_quicknode_upstream pkg qs y = Inr z" for x y z
      using chain_loaded [OF that] 2(2) 1(1) by blast
  qed
  moreover have "Chains cfg = map chain_defaults (Chains cfg2)" using c(3) by (simp add: applyDefaults_def)
  moreover have "valid_config pkg cfg" using c(4) by (simp only: config_problems_Nil)
  ultimately show ?thesis by (simp add: list_all2_map2)
qed

definition sample_upstream :: UpstreamConfig where
  "sample_upstream = \<lparr>up_ID = ''a'', up_HTTPURL = [], up_HTTPURLEnv = ''A'', up_WebsocketURL = [],
     up_WebsocketURLEnv = [], up_Headers = [], up_HeaderEnvs = [(''k'', ''K'')], up_MaxConcurrency = 0\<rparr>"

definition sample_chain :: ChainConfig where
  "sample_chain = \<lparr>QuickNodeNetwork = [], cc_Name = ''eth'', cc_Family = ''evm'', ChainID = FormatEVMQuantity 1,
     GenesisHash = [], BlockTime = 0, PollInterval = 0, HeadRequestTimeout = 0, WebsocketIdleTimeout = 0,
     MaxHeadAge = 0, ReorgDepth = 0, Upstreams = [sample_upstream]\<rparr>"

definition sample_document :: config where
  "sample_document =
     \<lparr>Server = \<lparr>ListenAddress = [], AdminAddress = [], RequestTimeout = 0, MaxBodyBytes = 0, MaxBatchSize = 0,
        WebsocketQueueSize = 0\<rparr>,
      Redis = \<lparr>rd_URLEnv = [], rd_URL = ''redis://r'', KeyPrefix = [], LeaderTTL = 0, StreamMaxLength = 0\<rparr>,
      Datadog = \<lparr>dd_Enabled = False, StatsdAddress = [], AgentAddress = [], dd_Service = [], dd_Environment = [],
        dd_Version = [], ProfilingEnabled = False\<rparr>,
      Cache = \<lparr>Disabled = False, MaxEntries = 0, MaxBytes = 0, MaxEntryBytes = 0, TTL = 0\<rparr>,
      Chains = [sample_chain], QuickNode = None, Clients = [''c'']\<rparr>"

definition sample_urls :: url_pkg where
  "sample_urls = sample_pkg\<lparr>url_ParseRequestURI :=
     (\<lambda>s. Some (sample_url\<lparr>Scheme := (if s = ''redis://r'' then ''redis'' else ''http'')\<rparr>))\<rparr>"

theorem load_effect_witness:
  "\<exists>cfg. Load sample_urls (\<lambda>_. ''v'') sample_document = Inr cfg \<and> valid_config sample_urls cfg \<and>
     list_all2 (loaded_chain sample_urls (\<lambda>_. ''v'') None) [sample_chain] (Chains cfg)"
proof -
  let ?env = "\<lambda>_ :: string. ''v''"
  let ?up = "sample_upstream\<lparr>up_HTTPURL := ''v'', up_Headers := [(''k'', ''v'')]\<rparr>"
  let ?doc = "sample_document\<lparr>Chains := [sample_chain\<lparr>Upstreams := [?up]\<rparr>]\<rparr>"
  have "getEnvironmentValues ?env sample_document = Inr ?doc"
    by (simp add: getEnvironmentValues_def sample_document_def sample_chain_def sample_upstream_def
        quicknode_environment_def redis_environment_def chain_environment_def upstream_environment_def
        Let_def map_set_def map_delete_def)
  moreover have "addQuickNodeUpstreams sample_urls ?doc = Inr ?doc"
    by (simp add: addQuickNodeUpstreams_def add_quicknode_upstream_def sample_document_def sample_chain_def)
  moreover have "valid_config sample_urls (applyDefaults ?doc)"
    unfolding valid_config_def
    by (simp add: applyDefaults_def sample_document_def sample_chain_def sample_upstream_def chain_defaults_def
        default_int_def default_string_def duration_defs valid_clients_def client_match_def is_lower_def
        valid_cache_def valid_server_def valid_redis_def valid_chain_def valid_upstream_def scheme_in_def
        sample_urls_def sample_pkg_def sample_url_def int64_def go_quot_def Let_def)
  ultimately have "Load sample_urls ?env sample_document = Inr (applyDefaults ?doc)"
    by (simp add: Load_def config_problems_Nil Let_def)
  from this load_effect [OF this] show ?thesis by (simp add: sample_document_def)
qed

end
