(* ===== verification/Head.thy ===== *)
theory Head
  imports Go_Json
begin

text \<open>
  Accepted heads and their in-process store, \<^verbatim>\<open>internal/head/types.go\<close>: the head record, its
  identity, snapshots, and the operations of \<^verbatim>\<open>MemoryStore\<close> (leases with fencing tokens,
  publication, the reorg fence, the event stream). An operation runs under the store's lock, so
  it is one function from the store to its result and the next store, given the instant the
  clock shows. A blocked \<^verbatim>\<open>ReadEvents\<close> is resumed by the list of its wake-ups.
\<close>

definition Latest :: string where "Latest = ''latest''"
definition Safe :: string where "Safe = ''safe''"
definition Finalized :: string where "Finalized = ''finalized''"
definition Processed :: string where "Processed = ''processed''"
definition Confirmed :: string where "Confirmed = ''confirmed''"

lemmas commitment_defs = Latest_def Safe_def Finalized_def Processed_def Confirmed_def

datatype store_error = ErrLeadershipLost | ErrStreamGap | ErrReorgFence | ErrContext string

record head =
  Chain :: string
  Family :: string
  Commitment :: string
  Number :: u64
  Hash :: string
  ParentHash :: string
  Generation :: u64
  ReorgEpoch :: u64
  ReorgPending :: bool
  ObservedAt :: time
  ChangedAt :: time
  Origin :: string
  Header :: raw

definition zero_head :: head where
  "zero_head = \<lparr>Chain = [], Family = [], Commitment = [], Number = 0, Hash = [], ParentHash = [],
     Generation = 0, ReorgEpoch = 0, ReorgPending = False, ObservedAt = 0, ChangedAt = 0,
     Origin = [], Header = None\<rparr>"

definition Identity :: "head \<Rightarrow> string" where
  "Identity h = (if Hash h \<noteq> [] then Hash h else Commitment h @ '':'' @ show_u64 (Number h))"

definition IsZero :: "head \<Rightarrow> bool" where
  "IsZero h \<longleftrightarrow> Number h = 0 \<and> Hash h = [] \<and> Family h \<noteq> ''solana''"

record snapshot =
  sChain :: string
  sHeads :: "string \<Rightarrow> head option"

definition Get :: "snapshot \<Rightarrow> string \<Rightarrow> head option" where
  "Get s commitment = sHeads s commitment"

record event =
  eID :: string
  eHead :: head

text \<open>The value of a two-result map read whose second result is dropped.\<close>

definition or_zero :: "head option \<Rightarrow> head" where
  "or_zero h = (case h of None \<Rightarrow> zero_head | Some h \<Rightarrow> h)"

lemma or_zero_simps [simp]: "or_zero None = zero_head" "or_zero (Some h) = h"
  by (simp_all add: or_zero_def)

lemma zero_head_sel [simp]:
  "Hash zero_head = []" "ReorgEpoch zero_head = 0" "ReorgPending zero_head = False"
  "Number zero_head = 0" "ObservedAt zero_head = 0" "Family zero_head = []" "Generation zero_head = 0"
  "Commitment zero_head = []" "Origin zero_head = []" "ChangedAt zero_head = 0"
  by (simp_all add: zero_head_def)

lemma IsZero_zero_head [simp]: "IsZero zero_head"
  by (simp add: IsZero_def)

lemma IsZero_evm: "Family h = ''evm'' \<Longrightarrow> Hash h \<noteq> [] \<Longrightarrow> \<not> IsZero h"
  by (simp add: IsZero_def)

lemma Identity_Hash [simp]: "Hash h \<noteq> [] \<Longrightarrow> Identity h = Hash h"
  by (simp add: Identity_def)

subsection \<open>The memory store\<close>

record memoryLeader =
  token :: string
  expires :: time

record mem_store =
  m_heads :: "string \<Rightarrow> string \<Rightarrow> head option"
  m_leaders :: "string \<Rightarrow> memoryLeader option"
  m_events :: "string \<Rightarrow> event list"
  m_gen :: "string \<Rightarrow> u64"

definition NewMemoryStore :: mem_store where
  "NewMemoryStore = \<lparr>m_heads = (\<lambda>_ _. None), m_leaders = (\<lambda>_. None), m_events = (\<lambda>_. []), m_gen = (\<lambda>_. 0)\<rparr>"

text \<open>Reading an absent key of the leader map gives the zero leader.\<close>

definition leader_of :: "mem_store \<Rightarrow> string \<Rightarrow> memoryLeader" where
  "leader_of m chain = (case m_leaders m chain of None \<Rightarrow> \<lparr>token = [], expires = 0\<rparr> | Some l \<Rightarrow> l)"

definition Acquire :: "time \<Rightarrow> string \<Rightarrow> string \<Rightarrow> duration \<Rightarrow> mem_store \<Rightarrow> (string \<times> bool) \<times> mem_store" where
  "Acquire now chain owner ttl m =
     (let current = leader_of m chain in
      if token current \<noteq> [] \<and> now < expires current then (([], False), m)
      else
        let g = m_gen m chain + 1;
            tok = owner @ '':'' @ show_u64 g
        in ((tok, True),
            m\<lparr>m_gen := (m_gen m)(chain := g),
              m_leaders := (m_leaders m)(chain \<mapsto> \<lparr>token = tok, expires = now + ttl\<rparr>)\<rparr>))"

definition Renew :: "time \<Rightarrow> string \<Rightarrow> string \<Rightarrow> duration \<Rightarrow> mem_store \<Rightarrow> bool \<times> mem_store" where
  "Renew now chain tok ttl m =
     (let current = leader_of m chain in
      if token current \<noteq> tok \<or> now > expires current then (False, m)
      else (True, m\<lparr>m_leaders := (m_leaders m)(chain \<mapsto> current\<lparr>expires := now + ttl\<rparr>)\<rparr>))"

definition Release :: "string \<Rightarrow> string \<Rightarrow> mem_store \<Rightarrow> mem_store" where
  "Release chain tok m =
     (if token (leader_of m chain) = tok then m\<lparr>m_leaders := (m_leaders m)(chain := None)\<rparr> else m)"

definition put_head :: "head \<Rightarrow> mem_store \<Rightarrow> mem_store" where
  "put_head h m =
     m\<lparr>m_heads := (m_heads m)(Chain h := (m_heads m (Chain h))(Commitment h \<mapsto> h))\<rparr>"

definition add_event :: "head \<Rightarrow> mem_store \<Rightarrow> mem_store" where
  "add_event h m =
     (if Family h = ''evm'' \<and> Commitment h = Latest
      then m\<lparr>m_events := (m_events m)(Chain h :=
               m_events m (Chain h) @ [\<lparr>eID = show_u64 (Generation h) @ ''-0'', eHead = h\<rparr>])\<rparr>
      else m)"

definition Publish :: "time \<Rightarrow> string \<Rightarrow> head \<Rightarrow> mem_store \<Rightarrow> (store_error + head) \<times> mem_store" where
  "Publish now tok h m =
     (let leader = leader_of m (Chain h) in
      if token leader \<noteq> tok \<or> now > expires leader then (Inl ErrLeadershipLost, m)
      else
        let entry = m_heads m (Chain h) (Commitment h);
            previous = or_zero entry
        in
        if Family h = ''evm'' \<and> Commitment h = Latest \<and> (ReorgPending h \<or> ReorgEpoch h \<noteq> ReorgEpoch previous)
        then (Inl ErrReorgFence, m)
        else if entry \<noteq> None \<and> Identity previous = Identity h
        then
          let h' = h\<lparr>Generation := Generation previous, ChangedAt := ChangedAt previous\<rparr>
          in (Inr h', put_head h' m)
        else
          let h1 = (if IsZeroTime (ChangedAt h) then h\<lparr>ChangedAt := ObservedAt h\<rparr> else h);
              g = m_gen m (Chain h) + 1;
              h' = h1\<lparr>Generation := g\<rparr>
          in (Inr h', put_head h' (add_event h' (m\<lparr>m_gen := (m_gen m)(Chain h := g)\<rparr>))))"

definition BeginReorg :: "time \<Rightarrow> string \<Rightarrow> string \<Rightarrow> mem_store \<Rightarrow> (store_error + head) \<times> mem_store" where
  "BeginReorg now chain tok m =
     (let leader = leader_of m chain in
      if token leader \<noteq> tok \<or> \<not> now < expires leader then (Inl ErrLeadershipLost, m)
      else
        case m_heads m chain Latest of
          None \<Rightarrow> (Inl ErrReorgFence, m)
        | Some current \<Rightarrow>
            if Family current \<noteq> ''evm'' \<or> IsZero current then (Inl ErrReorgFence, m)
            else if \<not> ReorgPending current
            then
              let current' = current\<lparr>ReorgEpoch := ReorgEpoch current + 1, ReorgPending := True\<rparr>
              in (Inr current',
                  m\<lparr>m_heads := (m_heads m)(chain := (m_heads m chain)(Latest \<mapsto> current'))\<rparr>)
            else (Inr current, m))"

definition SetHead :: "head \<Rightarrow> mem_store \<Rightarrow> head \<times> mem_store" where
  "SetHead h m =
     (let g = m_gen m (Chain h) + 1;
          h1 = h\<lparr>Generation := g\<rparr>;
          h' = (if IsZeroTime (ChangedAt h1) then h1\<lparr>ChangedAt := ObservedAt h1\<rparr> else h1)
      in (h', add_event h' (put_head h' (m\<lparr>m_gen := (m_gen m)(Chain h := g)\<rparr>))))"

definition Snapshot :: "string \<Rightarrow> mem_store \<Rightarrow> snapshot" where
  "Snapshot chain m = \<lparr>sChain = chain, sHeads = m_heads m chain\<rparr>"

definition StreamStart :: "string \<Rightarrow> mem_store \<Rightarrow> event" where
  "StreamStart chain m =
     (let es = m_events m chain in
      if es = [] then \<lparr>eID = ''0-0'', eHead = zero_head\<rparr> else last es)"

definition StreamCursor :: "string \<Rightarrow> mem_store \<Rightarrow> string" where
  "StreamCursor chain m = eID (StreamStart chain m)"

text \<open>One pass of \<^verbatim>\<open>ReadEvents\<close> under the lock: the cursor is missing, events follow it, or the
  reader has to wait.\<close>

datatype read_pass = Missing | Ready "event list" | Waiting

fun find_cursor :: "string \<Rightarrow> event list \<Rightarrow> nat \<Rightarrow> nat option" where
  "find_cursor c [] i = None"
| "find_cursor c (e # es) i = (if eID e = c then Some (i + 1) else find_cursor c es (i + 1))"

definition read_once :: "string \<Rightarrow> string \<Rightarrow> int \<Rightarrow> mem_store \<Rightarrow> read_pass" where
  "read_once chain afterCursor count m =
     (let es = m_events m chain;
          found = find_cursor afterCursor es 0;
          start = (case found of None \<Rightarrow> 0 | Some i \<Rightarrow> i)
      in
      if found = None \<and> afterCursor \<noteq> ''0-0'' then Missing
      else if start < length es
      then Ready (let rest = drop start es in
                  if count > 0 \<and> int (length rest) > count then take (nat count) rest else rest)
      else Waiting)"

datatype wake = Notified mem_store | TimedOut | Cancelled string

text \<open>\<open>None\<close>: the reader is still waiting after the wake-ups given.\<close>

fun ReadEvents :: "string \<Rightarrow> string \<Rightarrow> int \<Rightarrow> mem_store \<Rightarrow> wake list \<Rightarrow> (store_error + event list) option" where
  "ReadEvents chain c count m ws =
     (case read_once chain c count m of
        Missing \<Rightarrow> Some (Inl ErrStreamGap)
      | Ready es \<Rightarrow> Some (Inr es)
      | Waiting \<Rightarrow>
          (case ws of
             [] \<Rightarrow> None
           | Notified m' # ws' \<Rightarrow> ReadEvents chain c count m' ws'
           | TimedOut # _ \<Rightarrow> Some (Inr [])
           | Cancelled e # _ \<Rightarrow> Some (Inl (ErrContext e))))"

declare ReadEvents.simps [simp del]

lemmas store_defs = Acquire_def Renew_def Release_def Publish_def BeginReorg_def SetHead_def
  put_head_def add_event_def Let_def

end
