(* ===== verification/Jsonrpc.thy ===== *)
theory Jsonrpc
  imports Go_Json
begin

text \<open>
  The JSON-RPC envelope of \<^verbatim>\<open>internal/jsonrpc\<close>: requests, responses, the error constructors with
  their codes, the split of a body into requests, and positional parameters. A response is
  built with the identifier the request carried, or \<^verbatim>\<open>null\<close>; the lemmas say when each error is
  returned and that a batch keeps its items and their order.
\<close>

definition Version :: string where
  "Version = ''2.0''"

record rpc_error =
  Code :: int
  Message :: string
  Data :: "json option"

definition CodeParseError :: int where "CodeParseError = -32700"
definition CodeInvalidRequest :: int where "CodeInvalidRequest = -32600"
definition CodeMethodNotFound :: int where "CodeMethodNotFound = -32601"
definition CodeInvalidParams :: int where "CodeInvalidParams = -32602"
definition CodeInternalError :: int where "CodeInternalError = -32603"
definition CodeConsistencyUnavailable :: int where "CodeConsistencyUnavailable = -32070"
definition CodeUnsupportedConsistency :: int where "CodeUnsupportedConsistency = -32071"
definition CodeWritesDisabled :: int where "CodeWritesDisabled = -32072"
definition CodeChainUnavailable :: int where "CodeChainUnavailable = -32073"

lemmas code_defs = CodeParseError_def CodeInvalidRequest_def CodeMethodNotFound_def
  CodeInvalidParams_def CodeInternalError_def CodeConsistencyUnavailable_def
  CodeUnsupportedConsistency_def CodeWritesDisabled_def CodeChainUnavailable_def

definition ParseError :: "string \<Rightarrow> rpc_error" where
  "ParseError detail = \<lparr>Code = CodeParseError, Message = ''Parse error'', Data = Some (JStr detail)\<rparr>"

definition InvalidRequest :: "string \<Rightarrow> rpc_error" where
  "InvalidRequest detail =
     \<lparr>Code = CodeInvalidRequest, Message = ''Invalid Request'', Data = Some (JStr detail)\<rparr>"

definition MethodNotFound :: "string \<Rightarrow> rpc_error" where
  "MethodNotFound meth =
     \<lparr>Code = CodeMethodNotFound, Message = ''Method not found'',
      Data = Some (JObj [(''method'', JStr meth)])\<rparr>"

definition InvalidParams :: "string \<Rightarrow> rpc_error" where
  "InvalidParams detail =
     \<lparr>Code = CodeInvalidParams, Message = ''Invalid params'', Data = Some (JStr detail)\<rparr>"

definition InternalError :: "string \<Rightarrow> rpc_error" where
  "InternalError detail =
     \<lparr>Code = CodeInternalError, Message = ''Internal error'', Data = Some (JStr detail)\<rparr>"

definition ConsistencyUnavailable :: "json \<Rightarrow> rpc_error" where
  "ConsistencyUnavailable details =
     \<lparr>Code = CodeConsistencyUnavailable, Message = ''Consistent head is unavailable'', Data = Some details\<rparr>"

definition UnsupportedConsistency :: "string \<Rightarrow> string \<Rightarrow> rpc_error" where
  "UnsupportedConsistency meth detail =
     \<lparr>Code = CodeUnsupportedConsistency,
      Message = ''Method cannot be served with the configured consistency guarantee'',
      Data = Some (JObj [(''detail'', JStr detail), (''method'', JStr meth)])\<rparr>"

definition WritesDisabled :: "string \<Rightarrow> rpc_error" where
  "WritesDisabled meth =
     \<lparr>Code = CodeWritesDisabled, Message = ''Writes are disabled'',
      Data = Some (JObj [(''method'', JStr meth)])\<rparr>"

definition ChainUnavailable :: "string \<Rightarrow> rpc_error" where
  "ChainUnavailable chain =
     \<lparr>Code = CodeChainUnavailable, Message = ''Chain is unavailable'',
      Data = Some (JObj [(''chain'', JStr chain)])\<rparr>"

lemma error_codes [simp]:
  "Code (ParseError d) = CodeParseError" "Code (InvalidRequest d) = CodeInvalidRequest"
  "Code (MethodNotFound m) = CodeMethodNotFound" "Code (InvalidParams d) = CodeInvalidParams"
  "Code (InternalError d) = CodeInternalError"
  "Code (ConsistencyUnavailable j) = CodeConsistencyUnavailable"
  "Code (UnsupportedConsistency m d) = CodeUnsupportedConsistency"
  "Code (WritesDisabled m) = CodeWritesDisabled" "Code (ChainUnavailable c) = CodeChainUnavailable"
  by (simp_all add: ParseError_def InvalidRequest_def MethodNotFound_def InvalidParams_def
      InternalError_def ConsistencyUnavailable_def UnsupportedConsistency_def WritesDisabled_def
      ChainUnavailable_def)

subsection \<open>Requests\<close>

record request =
  JSONRPC :: string
  ID :: raw
  Method :: string
  Params :: raw

definition zero_request :: request where
  "zero_request = \<lparr>JSONRPC = [], ID = None, Method = [], Params = None\<rparr>"

definition unmarshal_request :: "json \<Rightarrow> request option" where
  "unmarshal_request v =
     (case struct_members v of None \<Rightarrow> None
      | Some ms \<Rightarrow>
          (case (string_field ''jsonrpc'' ms, raw_field ''id'' ms,
                 string_field ''method'' ms, raw_field ''params'' ms) of
             (Some j, Some i, Some m, Some p) \<Rightarrow> Some \<lparr>JSONRPC = j, ID = i, Method = m, Params = p\<rparr>
           | _ \<Rightarrow> None))"

definition IsNotification :: "request \<Rightarrow> bool" where
  "IsNotification r \<longleftrightarrow> ID r = None"

fun validID :: "raw \<Rightarrow> bool" where
  "validID None = False"
| "validID (Some (JStr _)) = True"
| "validID (Some (JNum _)) = True"
| "validID (Some JNull) = True"
| "validID (Some _) = False"

definition Validate :: "request \<Rightarrow> rpc_error option" where
  "Validate r =
     (if JSONRPC r \<noteq> Version \<or> Method r = []
      then Some (InvalidRequest ''jsonrpc must be 2.0 and method must be a string'')
      else if ID r \<noteq> None \<and> \<not> validID (ID r)
      then Some (InvalidRequest ''id must be a string, number, or null'')
      else None)"

subsection \<open>Responses\<close>

record response =
  rJSONRPC :: string
  rID :: json
  rResult :: raw
  rError :: "rpc_error option"

definition idOrNull :: "raw \<Rightarrow> json" where
  "idOrNull i = (if \<not> validID i then JNull else (case i of None \<Rightarrow> JNull | Some j \<Rightarrow> j))"

definition Success :: "raw \<Rightarrow> raw \<Rightarrow> response" where
  "Success requestID upstreamResponse =
     \<lparr>rJSONRPC = Version, rID = idOrNull requestID,
      rResult = (case upstreamResponse of None \<Rightarrow> Some JNull | Some j \<Rightarrow> Some j), rError = None\<rparr>"

definition Failure :: "raw \<Rightarrow> rpc_error \<Rightarrow> response" where
  "Failure requestID rpcErr =
     \<lparr>rJSONRPC = Version, rID = idOrNull requestID, rResult = None, rError = Some rpcErr\<rparr>"

lemma response_sel [simp]:
  "rError (Success i r) = None" "rError (Failure i e) = Some e"
  "rID (Success i r) = idOrNull i" "rID (Failure i e) = idOrNull i"
  "rResult (Failure i e) = None"
  by (simp_all add: Success_def Failure_def)

lemma Success_result [simp]: "rResult (Success i (Some j)) = Some j"
  by (simp add: Success_def)

lemma Validate_None_id: "Validate r = None \<Longrightarrow> ID r = Some j \<Longrightarrow> idOrNull (ID r) = j"
  by (auto simp: Validate_def idOrNull_def split: if_splits)

lemma validID_idOrNull [simp]: "validID (Some (idOrNull i))"
  by (cases i rule: validID.cases) (auto simp: idOrNull_def)

subsection \<open>The request body\<close>

text \<open>
  The scanner of \<^verbatim>\<open>encoding/json\<close> classifies the trimmed body: empty, not JSON (with whether it
  starts with a bracket, and the error text), or one JSON value. The text of a type error is
  the argument \<open>type_error\<close>.
\<close>

datatype body = Blank | Malformed bool string | Text json

definition batch_item :: "json \<Rightarrow> request" where
  "batch_item v = (case unmarshal_request v of None \<Rightarrow> zero_request | Some r \<Rightarrow> r)"

fun ParseEnvelope :: "(json \<Rightarrow> string) \<Rightarrow> body \<Rightarrow> int \<Rightarrow> (bool \<times> rpc_error) + (request list \<times> bool)" where
  "ParseEnvelope type_error Blank maxBatch = Inl (False, ParseError ''empty request body'')"
| "ParseEnvelope type_error (Malformed bracket err) maxBatch = Inl (bracket, ParseError err)"
| "ParseEnvelope type_error (Text (JArr rawRequests)) maxBatch =
     (if rawRequests = [] then Inl (True, InvalidRequest ''batch must not be empty'')
      else if int (length rawRequests) > maxBatch
      then Inl (True, InvalidRequest ''batch exceeds configured limit'')
      else Inr (map batch_item rawRequests, True))"
| "ParseEnvelope type_error (Text v) maxBatch =
     (case unmarshal_request v of
        None \<Rightarrow> Inl (False, InvalidRequest (type_error v))
      | Some r \<Rightarrow> Inr ([r], False))"

definition ParseParams :: "raw \<Rightarrow> rpc_error + json list" where
  "ParseParams encodedParameters =
     (case encodedParameters of
        None \<Rightarrow> Inr []
      | Some JNull \<Rightarrow> Inr []
      | Some (JArr parameters) \<Rightarrow> Inr parameters
      | _ \<Rightarrow> Inl (InvalidParams ''positional parameters are required''))"

text \<open>Raw messages that came out of the decoder always encode again.\<close>

definition MarshalParams :: "json list \<Rightarrow> json" where
  "MarshalParams parameters = JArr parameters"

lemma ParseParams_MarshalParams [simp]: "ParseParams (Some (MarshalParams ps)) = Inr ps"
  by (simp add: ParseParams_def MarshalParams_def)

lemma ParseParams_Inl: "ParseParams r = Inl e \<Longrightarrow> Code e = CodeInvalidParams"
  by (auto simp: ParseParams_def split: option.splits json.splits)

text \<open>An accepted body holds between one request and the batch limit, item for item.\<close>

lemma ParseEnvelope_Inr_cases:
  assumes "ParseEnvelope te b n = Inr (rs, batch)"
  shows "(batch \<and> (\<exists>vs. b = Text (JArr vs) \<and> vs \<noteq> [] \<and> int (length vs) \<le> n \<and> rs = map batch_item vs)) \<or>
         (\<not> batch \<and> (\<exists>v r. b = Text v \<and> (\<forall>vs. v \<noteq> JArr vs) \<and> unmarshal_request v = Some r \<and> rs = [r]))"
  using assms by (cases "(te, b, n)" rule: ParseEnvelope.cases) (auto split: if_splits option.splits)

text \<open>A batch item that does not decode is answered as an invalid request, never dropped.\<close>

lemma zero_request_invalid [simp]: "Validate zero_request \<noteq> None"
  by (simp add: Validate_def zero_request_def Version_def)

text \<open>
  An accepted body yields between one request and the batch limit; a batch yields one
  request per item in the items' order, each item that decodes as itself, and each item that does
  not is kept as a request that validation answers with the invalid-request error and the
  identifier \<^verbatim>\<open>null\<close>.
\<close>

theorem envelope_items:
  assumes "ParseEnvelope te b n = Inr (rs, batch)"
  shows "rs \<noteq> [] \<and> (if batch then int (length rs) \<le> n else length rs = 1) \<and>
    (\<exists>vs. b = Text (if batch then JArr vs else hd vs) \<and> length vs = length rs \<and>
      (\<forall>i < length vs. case unmarshal_request (vs ! i) of
          Some r \<Rightarrow> rs ! i = r
        | None \<Rightarrow> batch \<and> (\<exists>e. Validate (rs ! i) = Some e \<and> Code e = CodeInvalidRequest \<and>
            rID (Failure (ID (rs ! i)) e) = JNull)))"
proof -
  have bad: "\<exists>e. Validate zero_request = Some e \<and> Code e = CodeInvalidRequest \<and>
      rID (Failure (ID zero_request) e) = JNull"
    by (simp add: Validate_def zero_request_def Version_def idOrNull_def)
  from ParseEnvelope_Inr_cases [OF assms] show ?thesis
  proof (elim disjE conjE exE)
    fix vs assume "batch" "b = Text (JArr vs)" "vs \<noteq> []" "int (length vs) \<le> n" "rs = map batch_item vs"
    then show ?thesis using bad
      by (intro conjI exI [of _ vs]) (auto simp: batch_item_def split: option.splits)
  next
    fix v r assume "\<not> batch" "b = Text v" "unmarshal_request v = Some r" "rs = [r]"
    then show ?thesis by (intro conjI exI [of _ "[v]"]) auto
  qed
qed

theorem envelope_items_witness:
  "\<exists>rs. ParseEnvelope (\<lambda>_. []) (Text (JArr [JNum ''1'', JNull])) 2 = Inr (rs, True) \<and> int (length rs) \<le> 2"
proof -
  have "ParseEnvelope (\<lambda>_. []) (Text (JArr [JNum ''1'', JNull])) 2 =
      Inr (map batch_item [JNum ''1'', JNull], True)"
    by simp
  from this envelope_items [OF this] show ?thesis by auto
qed

end
