(* ===== verification/Runtime.thy ===== *)
theory Runtime
  imports Config Head Jsonrpc
begin

text \<open>
  The service of one chain, \<^verbatim>\<open>internal/chain/runtime.go\<close>: ranking of upstreams, header parsing, block
  lookup by hash, the resolution of a caller's block reference to one exact header along the
  accepted head's parent links, availability probes with their cache, and the validation of
  upstreams. An upstream is its identifier (unique per chain by validation). The upstream clients,
  their network and the clock are the fields of \<open>node_env\<close> over a world of any type, which every
  call may change; deadlines show as failing calls.
\<close>

record rpc_response =
  Result :: raw
  Err :: "rpc_error option"

record 'w node_env =
  now_of :: "'w \<Rightarrow> time"
  node_call :: "string \<Rightarrow> string \<Rightarrow> json \<Rightarrow> 'w \<Rightarrow> (string + rpc_response) \<times> 'w"
  node_healthy :: "string \<Rightarrow> 'w \<Rightarrow> bool"
  node_score :: "string \<Rightarrow> 'w \<Rightarrow> int"
  node_eip1898 :: "string \<Rightarrow> 'w \<Rightarrow> bool"
  node_pinned :: "string \<Rightarrow> string \<Rightarrow> 'w \<Rightarrow> bool"
  set_eip1898 :: "string \<Rightarrow> bool \<Rightarrow> 'w \<Rightarrow> 'w"
  set_pinned :: "string \<Rightarrow> string \<Rightarrow> bool \<Rightarrow> 'w \<Rightarrow> 'w"
  node_supports :: "string \<Rightarrow> string \<Rightarrow> 'w \<Rightarrow> bool"
  mark_unsupported :: "string \<Rightarrow> string \<Rightarrow> 'w \<Rightarrow> 'w"

record availabilityRecord =
  available :: bool
  av_expires :: time

record runtime =
  rt_Config :: ChainConfig
  valid :: "string \<Rightarrow> bool"
  validation :: "string \<Rightarrow> string option"
  availability :: "(string \<times> availabilityRecord) list"

definition NewRuntime :: "ChainConfig \<Rightarrow> runtime" where
  "NewRuntime cfg = \<lparr>rt_Config = cfg, valid = (\<lambda>_. False), validation = (\<lambda>_. None), availability = []\<rparr>"

definition upstream_ids :: "runtime \<Rightarrow> string list" where
  "upstream_ids r = map up_ID (Upstreams (rt_Config r))"

definition IsValid :: "runtime \<Rightarrow> string \<Rightarrow> bool" where
  "IsValid r i \<longleftrightarrow> valid r i"

subsection \<open>Ranking\<close>

definition Candidates :: "'w node_env \<Rightarrow> runtime \<Rightarrow> bool \<Rightarrow> 'w \<Rightarrow> string list" where
  "Candidates env r requireEIP1898 w =
     sort_key (\<lambda>i. node_score env i w)
       (filter (\<lambda>i. IsValid r i \<and> node_healthy env i w \<and> (requireEIP1898 \<longrightarrow> node_eip1898 env i w))
         (upstream_ids r))"

definition preferredCandidates :: "'w node_env \<Rightarrow> runtime \<Rightarrow> string \<Rightarrow> 'w \<Rightarrow> string list" where
  "preferredCandidates env r preferredID w =
     (let candidates = Candidates env r False w in
      if preferredID = [] then candidates else prefer_first (\<lambda>i. i = preferredID) candidates)"

lemma set_Candidates:
  "set (Candidates env r e w) =
     {i \<in> set (upstream_ids r). IsValid r i \<and> node_healthy env i w \<and> (e \<longrightarrow> node_eip1898 env i w)}"
  by (auto simp: Candidates_def)

lemma set_preferredCandidates [simp]: "set (preferredCandidates env r p w) = set (Candidates env r False w)"
  by (simp add: preferredCandidates_def Let_def)

subsection \<open>Headers\<close>

datatype head_error =
    BlockNull
  | DecodeBlock
  | InvalidNumber
  | InvalidHash
  | InvalidParentHash
  | InvalidQuantity quantity_error

definition ParseEVMHead :: "time \<Rightarrow> runtime \<Rightarrow> string \<Rightarrow> string \<Rightarrow> raw \<Rightarrow> head_error + head" where
  "ParseEVMHead now r commitment origin header =
     (case header of
        None \<Rightarrow> Inl BlockNull
      | Some JNull \<Rightarrow> Inl BlockNull
      | Some v \<Rightarrow>
          (case unmarshal_map v of
             None \<Rightarrow> Inl DecodeBlock
           | Some decoded \<Rightarrow>
               let block = (case decoded of None \<Rightarrow> [] | Some m \<Rightarrow> m) in
               (case unmarshal_string (map_of block ''number'') of
                  None \<Rightarrow> Inl InvalidNumber
                | Some numberHex \<Rightarrow>
                    (case unmarshal_string (map_of block ''hash'') of
                       None \<Rightarrow> Inl InvalidHash
                     | Some hashValue \<Rightarrow>
                         if \<not> IsEVMHash hashValue then Inl InvalidHash
                         else
                           (case unmarshal_string (map_of block ''parentHash'') of
                              None \<Rightarrow> Inl InvalidParentHash
                            | Some parentHash \<Rightarrow>
                                if \<not> IsEVMHash parentHash then Inl InvalidParentHash
                                else
                                  (case ParseEVMQuantity numberHex of
                                     Inl e \<Rightarrow> Inl (InvalidQuantity e)
                                   | Inr number \<Rightarrow>
                                       Inr (zero_head
                                         \<lparr>Chain := cc_Name (rt_Config r), Family := ''evm'',
                                          Commitment := commitment, Number := number, Hash := hashValue,
                                          ParentHash := parentHash, Origin := origin, ObservedAt := now,
                                          Header := Some (marshal_map (map_delete ''transactions'' block))\<rparr>)))))))"

lemma ParseEVMHead_Inr:
  assumes "ParseEVMHead now r c o' h = Inr b"
  shows "IsEVMHash (Hash b) \<and> IsEVMHash (ParentHash b) \<and> Family b = ''evm'' \<and> Chain b = cc_Name (rt_Config r)
    \<and> Commitment b = c \<and> Origin b = o' \<and> ObservedAt b = now \<and> \<not> ReorgPending b \<and> ReorgEpoch b = 0
    \<and> Generation b = 0 \<and> ChangedAt b = 0"
proof -
  have "\<exists>n hv p j. b = zero_head\<lparr>Chain := cc_Name (rt_Config r), Family := ''evm'', Commitment := c, Number := n,
      Hash := hv, ParentHash := p, Origin := o', ObservedAt := now, Header := j\<rparr> \<and> IsEVMHash hv \<and> IsEVMHash p"
    using assms unfolding ParseEVMHead_def Let_def
    by (auto split: option.splits json.splits if_splits sum.splits)
  then show ?thesis by (auto simp: zero_head_def)
qed

lemmas ParseEVMHeadD = ParseEVMHead_Inr [THEN conjunct1] ParseEVMHead_Inr [THEN conjunct2, THEN conjunct1]

subsection \<open>Blocks by hash and number\<close>

definition with_hash_params :: "string \<Rightarrow> json" where
  "with_hash_params h = MarshalParams [JStr h, JBool False]"

datatype fetch_failure = QueryFailed string | QueryRejected rpc_error | ParseFailed head_error

datatype fetch_error =
    BadBlockHash
  | BlockMissing "(string \<times> fetch_failure) list"
  | UpstreamGone
  | NumberCallFailed string
  | NumberRejected rpc_error
  | NumberParse head_error
  | NumberDiffers

fun fetch_block :: "'w node_env \<Rightarrow> runtime \<Rightarrow> string \<Rightarrow> string \<Rightarrow> string list \<Rightarrow> (string \<times> fetch_failure) list \<Rightarrow> 'w \<Rightarrow>
    (fetch_error + head) \<times> 'w" where
  "fetch_block env r hash commitment [] failures w = (Inl (BlockMissing failures), w)"
| "fetch_block env r hash commitment (i # candidates) failures w =
     (case node_call env i ''eth_getBlockByHash'' (with_hash_params hash) w of
        (Inl e, w1) \<Rightarrow> fetch_block env r hash commitment candidates (failures @ [(i, QueryFailed e)]) w1
      | (Inr resp, w1) \<Rightarrow>
          (case Err resp of
             Some e \<Rightarrow> fetch_block env r hash commitment candidates (failures @ [(i, QueryRejected e)]) w1
           | None \<Rightarrow>
               if Result resp = Some JNull then fetch_block env r hash commitment candidates failures w1
               else
                 (case ParseEVMHead (now_of env w1) r commitment i (Result resp) of
                    Inl e \<Rightarrow> fetch_block env r hash commitment candidates (failures @ [(i, ParseFailed e)]) w1
                  | Inr block \<Rightarrow>
                      if EqualFold (Hash block) hash then (Inr block, w1)
                      else fetch_block env r hash commitment candidates failures w1)))"

definition EVMBlockByHash :: "'w node_env \<Rightarrow> runtime \<Rightarrow> string \<Rightarrow> string \<Rightarrow> string \<Rightarrow> 'w \<Rightarrow> (fetch_error + head) \<times> 'w" where
  "EVMBlockByHash env r hash commitment preferred w =
     (if \<not> IsEVMHash hash then (Inl BadBlockHash, w)
      else fetch_block env r hash commitment (preferredCandidates env r preferred w) [] w)"

definition EVMBlockByNumberFrom :: "'w node_env \<Rightarrow> runtime \<Rightarrow> u64 \<Rightarrow> string \<Rightarrow> string \<Rightarrow> 'w \<Rightarrow> (fetch_error + head) \<times> 'w" where
  "EVMBlockByNumberFrom env r number commitment i w =
     (if i \<notin> set (upstream_ids r) \<or> \<not> IsValid r i \<or> \<not> node_healthy env i w then (Inl UpstreamGone, w)
      else
        (case node_call env i ''eth_getBlockByNumber'' (MarshalParams [JStr (FormatEVMQuantity number), JBool False]) w of
           (Inl e, w1) \<Rightarrow> (Inl (NumberCallFailed e), w1)
         | (Inr resp, w1) \<Rightarrow>
             (case Err resp of
                Some e \<Rightarrow> (Inl (NumberRejected e), w1)
              | None \<Rightarrow>
                  (case ParseEVMHead (now_of env w1) r commitment i (Result resp) of
                     Inl e \<Rightarrow> (Inl (NumberParse e), w1)
                   | Inr block \<Rightarrow> if Number block \<noteq> number then (Inl NumberDiffers, w1) else (Inr block, w1)))))"

text \<open>What a successful fetch guarantees, whatever the upstreams answer.\<close>

definition block_for :: "runtime \<Rightarrow> string \<Rightarrow> string \<Rightarrow> head \<Rightarrow> bool" where
  "block_for r hash commitment b \<longleftrightarrow> EqualFold (Hash b) hash \<and> IsEVMHash (Hash b) \<and> IsEVMHash (ParentHash b)
     \<and> Family b = ''evm'' \<and> Chain b = cc_Name (rt_Config r) \<and> Commitment b = commitment
     \<and> Origin b \<in> set (upstream_ids r) \<and> IsValid r (Origin b) \<and> \<not> ReorgPending b \<and> ReorgEpoch b = 0"

lemma fetch_block_Inr:
  "fetch_block env r hash c cs fs w = (Inr b, w') \<Longrightarrow>
     \<forall>i \<in> set cs. i \<in> set (upstream_ids r) \<and> IsValid r i \<Longrightarrow> block_for r hash c b"
  by (induction env r hash c cs fs w rule: fetch_block.induct)
    (auto simp: block_for_def dest: ParseEVMHead_Inr split: prod.splits sum.splits option.splits if_splits)

lemma EVMBlockByHash_Inr:
  assumes "EVMBlockByHash env r hash c p w = (Inr b, w')"
  shows "block_for r hash c b"
  using assms fetch_block_Inr [of env r hash c "preferredCandidates env r p w" "[]" w b w']
  by (auto simp: EVMBlockByHash_def set_Candidates split: if_splits)

lemma EVMBlockByNumberFrom_Inr:
  assumes "EVMBlockByNumberFrom env r n c i w = (Inr b, w')"
  shows "Number b = n \<and> Origin b = i \<and> block_for r (Hash b) c b"
  using assms
  by (auto simp: EVMBlockByNumberFrom_def block_for_def dest: ParseEVMHead_Inr
      split: prod.splits sum.splits option.splits if_splits)

subsection \<open>Block references\<close>

datatype reference_error =
    InvalidReference string     \<comment> \<open>\<^verbatim>\<open>ErrInvalidEVMBlockReference\<close>, with the whole text\<close>
  | UnsupportedReference string \<comment> \<open>\<^verbatim>\<open>ErrUnsupportedEVMBlockReference\<close>, with the whole text\<close>
  | BlockUnavailable "fetch_error option"  \<comment> \<open>\<^verbatim>\<open>ErrEVMBlockUnavailable\<close>, with its cause\<close>

definition getRequiredHead :: "snapshot \<Rightarrow> string \<Rightarrow> reference_error + head" where
  "getRequiredHead snap commitment =
     (case Get snap commitment of
        None \<Rightarrow> Inl (BlockUnavailable None)
      | Some h \<Rightarrow> if IsZero h then Inl (BlockUnavailable None) else Inr h)"

text \<open>The walk from the accepted head along parent links. The number falls with each step.\<close>

function walk_to :: "'w node_env \<Rightarrow> runtime \<Rightarrow> u64 \<Rightarrow> head \<Rightarrow> 'w \<Rightarrow> (reference_error + head) \<times> 'w" where
  "walk_to env r number cursor w =
     (if Number cursor \<le> number then (Inr cursor, w)
      else
        (case EVMBlockByHash env r (ParentHash cursor) ''explicit'' (Origin cursor) w of
           (Inl e, w1) \<Rightarrow> (Inl (BlockUnavailable (Some e)), w1)
         | (Inr parent, w1) \<Rightarrow>
             if Number parent \<noteq> Number cursor - 1 then (Inl (BlockUnavailable None), w1)
             else walk_to env r number parent w1))"
  by pat_completeness auto
termination
proof (relation "measure (\<lambda>(_, _, _, cursor, _). unat (Number cursor))")
  fix env :: "'a node_env" and r and number :: u64 and cursor parent :: head and w w1 :: 'a
    and x :: "(fetch_error + head) \<times> 'a"
  assume "\<not> Number cursor \<le> number" "\<not> Number parent \<noteq> Number cursor - 1"
  then show "((env, r, number, parent, w1), env, r, number, cursor, w) \<in> measure (\<lambda>(_, _, _, cursor, _). unat (Number cursor))"
    using u64_pred(1) [of number "Number cursor"] by simp
qed simp_all

declare walk_to.simps [simp del]

definition getEVMBlockByQuantity :: "'w node_env \<Rightarrow> runtime \<Rightarrow> string \<Rightarrow> snapshot \<Rightarrow> 'w \<Rightarrow>
    (reference_error + head) \<times> 'w" where
  "getEVMBlockByQuantity env r quantity snap w =
     (case ParseEVMQuantity quantity of
        Inl _ \<Rightarrow> (Inl (InvalidReference ''invalid EVM block reference: invalid block number''), w)
      | Inr number \<Rightarrow>
          (case getRequiredHead snap Latest of
             Inl e \<Rightarrow> (Inl e, w)
           | Inr accepted \<Rightarrow>
               if ReorgPending accepted \<or> number > Number accepted then (Inl (BlockUnavailable None), w)
               else if ReorgDepth (rt_Config r) < 0 \<or> int (unat (Number accepted - number)) > ReorgDepth (rt_Config r)
               then (Inl (BlockUnavailable None), w)
               else
                 (case walk_to env r number accepted w of
                    (Inl e, w1) \<Rightarrow> (Inl e, w1)
                  | (Inr cursor, w1) \<Rightarrow> (Inr (cursor\<lparr>Commitment := ''explicit''\<rparr>), w1))))"

text \<open>The object form of a reference: block hash, block number, canonicality.\<close>

definition reference_object :: "json \<Rightarrow> (string \<times> string \<times> bool option) option" where
  "reference_object v =
     (case struct_members v of None \<Rightarrow> None
      | Some ms \<Rightarrow>
          (case (string_field ''blockHash'' ms, string_field ''blockNumber'' ms, bool_ptr_field ''requireCanonical'' ms) of
             (Some h, Some n, Some c) \<Rightarrow> Some (h, n, c)
           | _ \<Rightarrow> None))"

definition GetEVMBlock :: "'w node_env \<Rightarrow> runtime \<Rightarrow> raw \<Rightarrow> snapshot \<Rightarrow> 'w \<Rightarrow> (reference_error + head) \<times> 'w" where
  "GetEVMBlock env r blockReference snap w =
     (if blockReference = None \<or> blockReference = Some JNull then (getRequiredHead snap Latest, w)
      else
        (case unmarshal_string blockReference of
           Some tag \<Rightarrow>
             if tag = Latest then (getRequiredHead snap Latest, w)
             else if tag = Safe \<or> tag = Finalized then 
               (Inl (UnsupportedReference (''unsupported EVM block reference: '' @ tag @
                  '' is not tracked; only latest is supported as a live EVM head'')), w)
             else if tag = ''pending'' then
               (Inl (UnsupportedReference ''unsupported EVM block reference: pending state has no canonical block hash''), w)
             else getEVMBlockByQuantity env r (if tag = ''earliest'' then ''0x0'' else tag) snap w
         | None \<Rightarrow>
             (case reference_object (the blockReference) of
                None \<Rightarrow> (Inl (InvalidReference ''invalid EVM block reference: expected a string or EIP-1898 object''), w)
              | Some (blockHash, blockNumber, requireCanonical) \<Rightarrow>
                  if blockHash \<noteq> [] \<and> blockNumber \<noteq> [] \<or> requireCanonical \<noteq> None \<and> blockHash = []
                  then (Inl (InvalidReference ''invalid EVM block reference: inconsistent EIP-1898 fields''), w)
                  else if blockHash \<noteq> []
                  then (if \<not> IsEVMHash blockHash then (Inl (InvalidReference ''invalid EVM block reference: invalid block hash''), w)
                        else (Inr (zero_head\<lparr>Chain := cc_Name (rt_Config r), Family := ''evm'',
                                Commitment := ''explicit'', Hash := blockHash, ObservedAt := now_of env w\<rparr>), w))
                  else if blockNumber = []
                  then (Inl (InvalidReference ''invalid EVM block reference: block identifier requires blockHash or blockNumber''), w)
                  else getEVMBlockByQuantity env r blockNumber snap w)))"

subsection \<open>Availability probes\<close>

definition getEVMAvailabilityKey :: "string \<Rightarrow> head \<Rightarrow> string" where
  "getEVMAvailabilityKey i t =
     i @ '':evm:'' @ Hash t @ '':'' @ Commitment t @ '':'' @ show_u64 (Number t) @ '':'' @ ParentHash t"

definition getSolanaAvailabilityKey :: "string \<Rightarrow> head \<Rightarrow> string" where
  "getSolanaAvailabilityKey i t = i @ '':solana:'' @ Commitment t @ '':'' @ show_u64 (Number t)"

definition getCachedAvailability :: "time \<Rightarrow> string \<Rightarrow> runtime \<Rightarrow> bool \<times> bool" where
  "getCachedAvailability now key r =
     (case map_of (availability r) key of
        None \<Rightarrow> (False, False)
      | Some rec \<Rightarrow> (available rec, now < av_expires rec))"

definition InvalidateAvailability :: "string \<Rightarrow> head \<Rightarrow> runtime \<Rightarrow> runtime" where
  "InvalidateAvailability i t r =
     r\<lparr>availability := map_delete (getSolanaAvailabilityKey i t)
         (map_delete (getEVMAvailabilityKey i t) (availability r))\<rparr>"

text \<open>The availability map is an association list in the order the runtime visits it.\<close>

fun drop_records :: "(string \<times> availabilityRecord) list \<Rightarrow> (string \<times> availabilityRecord) list" where
  "drop_records [] = []"
| "drop_records (x # xs) = (if int (length (x # xs)) < 4096 then x # xs else drop_records xs)"

definition record_availability :: "time \<Rightarrow> string \<Rightarrow> bool \<Rightarrow> runtime \<Rightarrow> runtime" where
  "record_availability now key avail r =
     (let ttl1 = max (int64 (2 * PollInterval (rt_Config r))) (250 * Millisecond);
          ttl = (if avail then ttl1 else 75 * Millisecond);
          av = (if length (availability r) \<ge> 4096
                then drop_records (filter (\<lambda>p. \<not> now > av_expires (snd p)) (availability r))
                else availability r)
      in r\<lparr>availability := map_set key \<lparr>available = avail, av_expires = now + ttl\<rparr> av\<rparr>)"

datatype probe_error =
    ProbeCtx string
  | TargetHashRequired
  | ProbeCall string
  | ProbeParse head_error
  | ProbeDecode

datatype probe_flight = ProbeCtxDone string | ProbeDone "probe_error + bool"

type_synonym 'w probe_body = "runtime \<times> 'w \<Rightarrow> (probe_error + bool) \<times> runtime \<times> 'w"

definition probe_body :: "'w node_env \<Rightarrow> string \<Rightarrow> ('w \<Rightarrow> (probe_error + bool) \<times> 'w) \<Rightarrow> 'w probe_body" where
  "probe_body env key check =
     (\<lambda>(r, w).
        case getCachedAvailability (now_of env w) key r of
          (a, True) \<Rightarrow> (Inr a, r, w)
        | (_, False) \<Rightarrow>
            (case check w of
               (Inl e, w1) \<Rightarrow> (Inl e, r, w1)
             | (Inr a, w1) \<Rightarrow> (Inr a, record_availability (now_of env w1) key a r, w1)))"

text \<open>\<open>do_chan\<close> is \<^verbatim>\<open>singleflight.Group.DoChan\<close> and the wait for its result or the caller's context.\<close>

definition probe :: "'w node_env \<Rightarrow> (string \<Rightarrow> 'w probe_body \<Rightarrow> runtime \<times> 'w \<Rightarrow> probe_flight \<times> runtime \<times> 'w) \<Rightarrow>
    string \<Rightarrow> ('w \<Rightarrow> (probe_error + bool) \<times> 'w) \<Rightarrow> 'w probe_body" where
  "probe env do_chan key check =
     (\<lambda>(r, w).
        case getCachedAvailability (now_of env w) key r of
          (a, True) \<Rightarrow> (Inr a, r, w)
        | (_, False) \<Rightarrow>
            (case do_chan key (probe_body env key check) (r, w) of
               (ProbeCtxDone e, s) \<Rightarrow> (Inl (ProbeCtx e), s)
             | (ProbeDone x, s) \<Rightarrow> (x, s)))"

definition evm_block_matches :: "head \<Rightarrow> head \<Rightarrow> bool" where
  "evm_block_matches t b \<longleftrightarrow> EqualFold (Hash b) (Hash t) \<and>
     (Commitment t = ''explicit'' \<or>
      Number b = Number t \<and> (ParentHash t = [] \<or> EqualFold (ParentHash b) (ParentHash t)))"

definition check_evm_block :: "'w node_env \<Rightarrow> runtime \<Rightarrow> string \<Rightarrow> head \<Rightarrow> 'w \<Rightarrow> (probe_error + bool) \<times> 'w" where
  "check_evm_block env r i t w =
     (case node_call env i ''eth_getBlockByHash'' (with_hash_params (Hash t)) w of
        (Inl e, w1) \<Rightarrow> (Inl (ProbeCall e), w1)
      | (Inr resp, w1) \<Rightarrow>
          if Err resp \<noteq> None \<or> Result resp = Some JNull then (Inr False, w1)
          else (case ParseEVMHead (now_of env w1) r (Commitment t) i (Result resp) of
                  Inl e \<Rightarrow> (Inl (ProbeParse e), w1)
                | Inr block \<Rightarrow> (Inr (evm_block_matches t block), w1)))"

definition HasEVMBlock :: "'w node_env \<Rightarrow> (string \<Rightarrow> 'w probe_body \<Rightarrow> runtime \<times> 'w \<Rightarrow> probe_flight \<times> runtime \<times> 'w) \<Rightarrow>
    string \<Rightarrow> head \<Rightarrow> 'w probe_body" where
  "HasEVMBlock env do_chan i t = (\<lambda>(r, w).
     if Hash t = [] then (Inl TargetHashRequired, r, w)
     else probe env do_chan (getEVMAvailabilityKey i t) (check_evm_block env r i t) (r, w))"

definition check_solana_slot :: "'w node_env \<Rightarrow> string \<Rightarrow> head \<Rightarrow> 'w \<Rightarrow> (probe_error + bool) \<times> 'w" where
  "check_solana_slot env i t w =
     (case node_call env i ''getSlot'' (MarshalParams [JObj [(''commitment'', JStr (Commitment t)),
              (''minContextSlot'', JNum (show_u64 (Number t)))]]) w of
        (Inl e, w1) \<Rightarrow> (Inl (ProbeCall e), w1)
      | (Inr resp, w1) \<Rightarrow>
          if Err resp \<noteq> None then (Inr False, w1)
          else (case unmarshal_uint (Result resp) of
                  None \<Rightarrow> (Inl ProbeDecode, w1)
                | Some slot \<Rightarrow> (Inr (slot \<ge> Number t), w1)))"

definition HasSolanaSlot :: "'w node_env \<Rightarrow> (string \<Rightarrow> 'w probe_body \<Rightarrow> runtime \<times> 'w \<Rightarrow> probe_flight \<times> runtime \<times> 'w) \<Rightarrow>
    string \<Rightarrow> head \<Rightarrow> 'w probe_body" where
  "HasSolanaSlot env do_chan i t = probe env do_chan (getSolanaAvailabilityKey i t) (check_solana_slot env i t)"

subsection \<open>Errors that mean a missing target\<close>

definition error_text :: "(string \<Rightarrow> string) \<Rightarrow> rpc_error \<Rightarrow> string" where
  "error_text num e = ToLower (Message e @ '' '' @ (case Data e of None \<Rightarrow> ''<nil>'' | Some d \<Rightarrow> sprint num d))"

definition IsUnavailableRPCError :: "(string \<Rightarrow> string) \<Rightarrow> rpc_error option \<Rightarrow> bool" where
  "IsUnavailableRPCError num rpcErr =
     (case rpcErr of
        None \<Rightarrow> False
      | Some e \<Rightarrow>
          Code e \<noteq> CodeMethodNotFound \<and>
          (Code e = -32001 \<or> Contains (error_text num e) ''not found'' \<or> Contains (error_text num e) ''unknown block''
           \<or> Contains (error_text num e) ''minimum context slot'' \<or> Contains (error_text num e) ''not canonical''))"

subsection \<open>Validation of upstreams\<close>

datatype validate_error =
    VCall string
  | VRejected rpc_error
  | VChainIDResponse
  | VUpstreamChainID quantity_error
  | VConfiguredChainID quantity_error
  | VChainIDMismatch string
  | VHead head_error
  | VGenesisResponse
  | VGenesisMismatch string
  | VSlotResponse
  | VNoMinContextSlot rpc_error

definition zeroAddress :: string where
  "zeroAddress = ''0x'' @ replicate 40 CHR ''0''"

definition missingHash :: string where
  "missingHash = ''0x'' @ replicate 64 CHR ''0''"

definition state_probes :: "(string \<times> json list) list" where
  "state_probes =
     [(''eth_getBalance'', [JStr zeroAddress]),
      (''eth_getCode'', [JStr zeroAddress]),
      (''eth_getTransactionCount'', [JStr zeroAddress]),
      (''eth_getStorageAt'', [JStr zeroAddress, JStr ''0x0'']),
      (''eth_getProof'', [JStr zeroAddress, JArr []]),
      (''eth_call'', [JObj [(''data'', JStr ''0x''), (''to'', JStr zeroAddress)]])]"

definition pinned_params :: "json list \<Rightarrow> string \<Rightarrow> json" where
  "pinned_params arguments h =
     MarshalParams (arguments @ [JObj [(''blockHash'', JStr h), (''requireCanonical'', JBool True)]])"

text \<open>One state method is probed with the latest block, then with a block that does not exist.\<close>

definition probe_method :: "(string \<Rightarrow> string) \<Rightarrow> 'w node_env \<Rightarrow> string \<Rightarrow> string \<Rightarrow> string \<times> json list \<Rightarrow> 'w \<Rightarrow> 'w" where
  "probe_method num env i blockHash = (\<lambda>(meth, arguments) w.
     case node_call env i meth (pinned_params arguments blockHash) w of
       (Inl _, w1) \<Rightarrow> set_pinned env i meth False w1
     | (Inr positive, w1) \<Rightarrow>
         if Err positive = None \<and> Result positive \<noteq> None \<and> Result positive \<noteq> Some JNull
         then (case node_call env i meth (pinned_params arguments missingHash) w1 of
                 (Inl _, w2) \<Rightarrow> set_pinned env i meth False w2
               | (Inr negative, w2) \<Rightarrow> set_pinned env i meth (IsUnavailableRPCError num (Err negative)) w2)
         else set_pinned env i meth False w1)"

definition probeEVMStateMethods :: "(string \<Rightarrow> string) \<Rightarrow> 'w node_env \<Rightarrow> string \<Rightarrow> string \<Rightarrow> 'w \<Rightarrow> 'w" where
  "probeEVMStateMethods num env i blockHash w =
     (let w1 = fold (probe_method num env i blockHash) state_probes w
      in set_eip1898 env i (\<exists>m \<in> set (map fst state_probes). node_pinned env i m w1) w1)"

text \<open>A call whose failures, transport and protocol, end the validation.\<close>

definition checked_call :: "'w node_env \<Rightarrow> string \<Rightarrow> string \<Rightarrow> json list \<Rightarrow> 'w \<Rightarrow> (validate_error + raw) \<times> 'w" where
  "checked_call env i meth args w =
     (case node_call env i meth (MarshalParams args) w of
        (Inl e, w1) \<Rightarrow> (Inl (VCall e), w1)
      | (Inr resp, w1) \<Rightarrow> (case Err resp of Some e \<Rightarrow> (Inl (VRejected e), w1) | None \<Rightarrow> (Inr (Result resp), w1)))"

definition checked_head :: "'w node_env \<Rightarrow> runtime \<Rightarrow> string \<Rightarrow> string \<Rightarrow> string \<Rightarrow> 'w \<Rightarrow> (validate_error + head) \<times> 'w" where
  "checked_head env r i tag commitment w =
     (case checked_call env i ''eth_getBlockByNumber'' [JStr tag, JBool False] w of
        (Inl e, w1) \<Rightarrow> (Inl e, w1)
      | (Inr v, w1) \<Rightarrow> (case ParseEVMHead (now_of env w1) r commitment i v of
                          Inl e \<Rightarrow> (Inl (VHead e), w1) | Inr b \<Rightarrow> (Inr b, w1)))"

definition check_chain_id :: "runtime \<Rightarrow> raw \<Rightarrow> validate_error option" where
  "check_chain_id r v =
     (case unmarshal_string v of
        None \<Rightarrow> Some VChainIDResponse
      | Some chainID \<Rightarrow>
          (case ParseEVMQuantity chainID of
             Inl e \<Rightarrow> Some (VUpstreamChainID e)
           | Inr actual \<Rightarrow>
               (case ParseEVMQuantity (ChainID (rt_Config r)) of
                  Inl e \<Rightarrow> Some (VConfiguredChainID e)
                | Inr configured \<Rightarrow> if actual \<noteq> configured then Some (VChainIDMismatch chainID) else None)))"

definition check_evm_genesis :: "'w node_env \<Rightarrow> runtime \<Rightarrow> string \<Rightarrow> 'w \<Rightarrow> validate_error option \<times> 'w" where
  "check_evm_genesis env r i w =
     (if GenesisHash (rt_Config r) = [] then (None, w)
      else (case checked_head env r i ''0x0'' Finalized w of
              (Inl e, w1) \<Rightarrow> (Some e, w1)
            | (Inr block, w1) \<Rightarrow>
                if \<not> EqualFold (Hash block) (GenesisHash (rt_Config r))
                then (Some (VGenesisMismatch (Hash block)), w1) else (None, w1)))"

definition validate_evm :: "(string \<Rightarrow> string) \<Rightarrow> 'w node_env \<Rightarrow> runtime \<Rightarrow> string \<Rightarrow> 'w \<Rightarrow> validate_error option \<times> 'w" where
  "validate_evm num env r i w =
     (case checked_call env i ''eth_chainId'' [] w of
        (Inl e, w1) \<Rightarrow> (Some e, w1)
      | (Inr v, w1) \<Rightarrow>
          (case check_chain_id r v of
             Some e \<Rightarrow> (Some e, w1)
           | None \<Rightarrow>
               (case check_evm_genesis env r i w1 of
                  (Some e, w2) \<Rightarrow> (Some e, w2)
                | (None, w2) \<Rightarrow>
                    (case checked_head env r i ''latest'' Latest w2 of
                       (Inl e, w3) \<Rightarrow> (Some e, w3)
                     | (Inr latest, w3) \<Rightarrow> (None, probeEVMStateMethods num env i (Hash latest) w3)))))"

definition validate_solana :: "'w node_env \<Rightarrow> runtime \<Rightarrow> string \<Rightarrow> 'w \<Rightarrow> validate_error option \<times> 'w" where
  "validate_solana env r i w =
     (case checked_call env i ''getGenesisHash'' [] w of
        (Inl e, w1) \<Rightarrow> (Some e, w1)
      | (Inr v, w1) \<Rightarrow>
          (case unmarshal_string v of
             None \<Rightarrow> (Some VGenesisResponse, w1)
           | Some genesis \<Rightarrow>
               if genesis \<noteq> GenesisHash (rt_Config r) then (Some (VGenesisMismatch genesis), w1)
               else
                 (case checked_call env i ''getSlot'' [JObj [(''commitment'', JStr Finalized)]] w1 of
                    (Inl e, w2) \<Rightarrow> (Some e, w2)
                  | (Inr v2, w2) \<Rightarrow>
                      (case unmarshal_uint v2 of
                         None \<Rightarrow> (Some VSlotResponse, w2)
                       | Some slot \<Rightarrow>
                           (case checked_call env i ''getAccountInfo'' [JStr (replicate 32 CHR ''1''),
                                   JObj [(''commitment'', JStr Finalized), (''minContextSlot'', JNum (show_u64 slot))]] w2 of
                              (Inl (VRejected e), w3) \<Rightarrow> (Some (VNoMinContextSlot e), w3)
                            | (Inl e, w3) \<Rightarrow> (Some e, w3)
                            | (Inr _, w3) \<Rightarrow> (None, w3))))))"

definition validateUpstream :: "(string \<Rightarrow> string) \<Rightarrow> 'w node_env \<Rightarrow> runtime \<Rightarrow> string \<Rightarrow> 'w \<Rightarrow> validate_error option \<times> 'w" where
  "validateUpstream num env r i w =
     (if cc_Family (rt_Config r) = ''evm'' then validate_evm num env r i w else validate_solana env r i w)"

text \<open>The goroutines of \<^verbatim>\<open>Validate\<close>, one upstream after the other; \<open>text_of\<close> is the redacted text of
  an error.\<close>

fun validate_all :: "(string \<Rightarrow> string) \<Rightarrow> (validate_error \<Rightarrow> string) \<Rightarrow> 'w node_env \<Rightarrow> string list \<Rightarrow> runtime \<Rightarrow> 'w \<Rightarrow>
    (string \<times> validate_error) list \<times> runtime \<times> 'w" where
  "validate_all num text_of env [] r w = ([], r, w)"
| "validate_all num text_of env (i # is) r w =
     (case validateUpstream num env r i w of
        (None, w1) \<Rightarrow>
          validate_all num text_of env is (r\<lparr>valid := (valid r)(i := True), validation := (validation r)(i := None)\<rparr>) w1
      | (Some e, w1) \<Rightarrow>
          (case validate_all num text_of env is
                  (r\<lparr>valid := (valid r)(i := False), validation := (validation r)(i \<mapsto> text_of e)\<rparr>) w1 of
             (es, r', w') \<Rightarrow> ((i, e) # es, r', w')))"

definition Validate_runtime :: "(string \<Rightarrow> string) \<Rightarrow> (validate_error \<Rightarrow> string) \<Rightarrow> 'w node_env \<Rightarrow> runtime \<Rightarrow> 'w \<Rightarrow>
    (string \<times> validate_error) list \<times> runtime \<times> 'w" where
  "Validate_runtime num text_of env r w = validate_all num text_of env (upstream_ids r) r w"

subsection \<open>Parent links\<close>

text \<open>A list of headers, each the parent of the one before it.\<close>

fun linked :: "head list \<Rightarrow> bool" where
  "linked (a # b # hs) \<longleftrightarrow> EqualFold (Hash b) (ParentHash a) \<and> Number a = Number b + 1 \<and> linked (b # hs)"
| "linked hs \<longleftrightarrow> True"

text \<open>The header \<open>b\<close> is reached from \<open>a\<close> by at most \<open>k\<close> parent links.\<close>

definition is_parent :: "head \<Rightarrow> head \<Rightarrow> bool" where
  "is_parent p c \<longleftrightarrow> EqualFold (Hash p) (ParentHash c) \<and> Number c = Number p + 1"

definition reaches :: "head \<Rightarrow> head \<Rightarrow> nat \<Rightarrow> bool" where
  "reaches a b k \<longleftrightarrow> (\<exists>hs. linked (a # hs) \<and> last (a # hs) = b \<and> length hs \<le> k)"

definition same_block :: "head \<Rightarrow> head \<Rightarrow> bool" where
  "same_block a b \<longleftrightarrow> EqualFold (Hash a) (Hash b) \<and> Number a = Number b"

lemma linked_snoc: "linked (hs @ [x]) \<Longrightarrow> is_parent p x \<Longrightarrow> linked (hs @ [x, p])"
  by (induction hs rule: linked.induct) (auto simp: is_parent_def)

lemma reaches_refl [simp, intro]: "reaches a a k"
  unfolding reaches_def by (intro exI [of _ "[]"]) simp

lemma reaches_front: "is_parent p a \<Longrightarrow> reaches p b k \<Longrightarrow> reaches a b (Suc k)"
proof -
  assume p: "is_parent p a" and "reaches p b k"
  then obtain hs where "linked (p # hs)" "last (p # hs) = b" "length hs \<le> k" by (auto simp: reaches_def)
  then show ?thesis using p unfolding reaches_def
    by (intro exI [of _ "p # hs"]) (simp add: is_parent_def)
qed

lemma reaches_snoc: "reaches a b k \<Longrightarrow> is_parent p b \<Longrightarrow> reaches a p (Suc k)"
proof -
  assume "reaches a b k" and p: "is_parent p b"
  then obtain hs where hs: "linked (a # hs)" "last (a # hs) = b" "length hs \<le> k" by (auto simp: reaches_def)
  have split: "a # hs = butlast (a # hs) @ [b]" using hs(2) by (metis append_butlast_last_id list.distinct(1))
  have "linked (butlast (a # hs) @ [b])" using hs(1) split by metis
  then have "linked (butlast (a # hs) @ [b, p])" using p by (rule linked_snoc)
  then have "linked ((a # hs) @ [p])" using split by (metis append.assoc append_Cons append_Nil)
  then have "linked (a # hs @ [p])" by simp
  then show ?thesis using hs(3) unfolding reaches_def by (intro exI [of _ "hs @ [p]"]) simp
qed

lemma linked_join: "linked (xs @ [b]) \<Longrightarrow> linked (b # ys) \<Longrightarrow> linked (xs @ b # ys)"
  by (induction xs rule: linked.induct) auto

lemma reaches_trans: "reaches a b j \<Longrightarrow> reaches b c k \<Longrightarrow> reaches a c (j + k)"
proof -
  assume "reaches a b j" "reaches b c k"
  then obtain xs ys where xs: "linked (a # xs)" "last (a # xs) = b" "length xs \<le> j"
    and ys: "linked (b # ys)" "last (b # ys) = c" "length ys \<le> k"
    by (auto simp: reaches_def)
  have split: "a # xs = butlast (a # xs) @ [b]" using xs(2) by (metis append_butlast_last_id list.distinct(1))
  have "linked (butlast (a # xs) @ b # ys)" using xs(1) split ys(1) by (metis linked_join)
  moreover have "butlast (a # xs) @ b # ys = a # xs @ ys" using split by (metis append.assoc append_Cons append_Nil)
  ultimately have "linked (a # xs @ ys)" by metis
  moreover have "last (a # xs @ ys) = c" using xs(2) ys(2) by (cases ys) auto
  ultimately show ?thesis using xs(3) ys(3) unfolding reaches_def by (intro exI [of _ "xs @ ys"]) simp
qed

lemma reaches_mono: "reaches a b k \<Longrightarrow> k \<le> n \<Longrightarrow> reaches a b n"
  unfolding reaches_def by (elim exE conjE, intro exI conjI) (assumption, assumption, rule le_trans)

lemma walk_to_linked:
  "walk_to env r n cursor w = (Inr h, w') \<Longrightarrow> n \<le> Number cursor \<Longrightarrow>
   \<exists>hs. linked (cursor # hs) \<and> last (cursor # hs) = h \<and> Number h = n
     \<and> length hs = unat (Number cursor - n) \<and> list_all (\<lambda>b. block_for r (Hash b) ''explicit'' b) hs"
proof (induction env r n cursor w rule: walk_to.induct)
  case (1 env r n cursor w)
  show ?case
  proof (cases "Number cursor \<le> n")
    case True
    then show ?thesis using 1(2,3) by (intro exI [of _ "[]"]) (simp add: walk_to.simps [of env r n cursor w])
  next
    case False
    obtain parent w1 where p: "EVMBlockByHash env r (ParentHash cursor) ''explicit'' (Origin cursor) w = (Inr parent, w1)"
      "Number parent = Number cursor - 1" "walk_to env r n parent w1 = (Inr h, w')"
      using 1(2) False by (auto simp: walk_to.simps [of env r n cursor w] split: prod.splits sum.splits if_splits)
    have less: "n < Number cursor" using False by simp
    have n: "n \<le> Number parent" "Number cursor = Number parent + 1"
      "unat (Number cursor - n) = unat (Number parent - n) + 1"
      using u64_pred [OF less] p(2) by simp_all
    from 1(1) [OF False p(1) [symmetric] refl _ p(3) n(1)] p(2) obtain hs where hs: "linked (parent # hs)" "last (parent # hs) = h" "Number h = n"
      "length hs = unat (Number parent - n)" "list_all (\<lambda>b. block_for r (Hash b) ''explicit'' b) hs"
      by blast
    have "block_for r (ParentHash cursor) ''explicit'' parent" using EVMBlockByHash_Inr [OF p(1)] .
    then show ?thesis using hs n(2,3)
      by (intro exI [of _ "parent # hs"]) (auto simp: block_for_def)
  qed
qed

lemma getRequiredHead_Inr:
  "getRequiredHead snap c = Inr h \<longleftrightarrow> Get snap c = Some h \<and> \<not> IsZero h"
  by (auto simp: getRequiredHead_def split: option.splits)

lemma getEVMBlockByQuantity_Inr:
  assumes "getEVMBlockByQuantity env r q snap w = (Inr h, w')"
  shows "\<exists>n accepted hs. ParseEVMQuantity q = Inr n \<and> Get snap Latest = Some accepted \<and> \<not> IsZero accepted
    \<and> \<not> ReorgPending accepted \<and> Number h = n \<and> n \<le> Number accepted
    \<and> linked (accepted # hs) \<and> h = (last (accepted # hs))\<lparr>Commitment := ''explicit''\<rparr>
    \<and> list_all (\<lambda>b. block_for r (Hash b) ''explicit'' b) hs
    \<and> length hs = unat (Number accepted - n) \<and> int (length hs) \<le> ReorgDepth (rt_Config r)"
proof -
  from assms obtain n accepted cursor where a: "ParseEVMQuantity q = Inr n" "getRequiredHead snap Latest = Inr accepted"
    "\<not> ReorgPending accepted" "\<not> n > Number accepted"
    "\<not> int (unat (Number accepted - n)) > ReorgDepth (rt_Config r)"
    "walk_to env r n accepted w = (Inr cursor, w')" "h = cursor\<lparr>Commitment := ''explicit''\<rparr>"
    by (auto simp: getEVMBlockByQuantity_def split: sum.splits if_splits prod.splits)
  have "n \<le> Number accepted" using a(4) by simp
  from walk_to_linked [OF a(6) this] obtain hs where hs: "linked (accepted # hs)" "last (accepted # hs) = cursor"
    "Number cursor = n" "length hs = unat (Number accepted - n)"
    "list_all (\<lambda>b. block_for r (Hash b) ''explicit'' b) hs" by blast
  show ?thesis
    using a hs \<open>n \<le> Number accepted\<close> by (intro exI [of _ n] exI [of _ accepted] exI [of _ hs]) (auto simp: getRequiredHead_Inr)
qed


definition sample_hash :: "char \<Rightarrow> string" where
  "sample_hash c = ''0x'' @ replicate 64 c"

lemma is_hex_sample: "c = CHR ''0'' \<or> c = CHR ''1'' \<or> c = CHR ''a'' \<or> c = CHR ''b'' \<Longrightarrow> is_hex_digit c"
  by (auto simp: is_hex_digit_def digit_val_def to_lower_def)

lemma IsEVMHash_sample [simp]: "is_hex_digit c \<Longrightarrow> IsEVMHash (sample_hash c)"
  by (simp add: IsEVMHash_def sample_hash_def HasPrefix_def hex_decodes_def list_all_iff)

definition sample_runtime :: runtime where
  "sample_runtime = (NewRuntime (sample_chain\<lparr>ReorgDepth := 64\<rparr>))\<lparr>valid := (\<lambda>i. i = ''a'')\<rparr>"

definition sample_snapshot :: snapshot where
  "sample_snapshot = \<lparr>sChain = ''eth'', sHeads = [Latest \<mapsto> zero_head\<lparr>Chain := ''eth'', Family := ''evm'',
     Commitment := Latest, Number := 9, Hash := sample_hash CHR ''a'', ParentHash := sample_hash CHR ''b''\<rparr>]\<rparr>"

definition sample_block :: "u64 \<Rightarrow> string \<Rightarrow> string \<Rightarrow> json" where
  "sample_block n h p = JObj [(''number'', JStr (FormatEVMQuantity n)), (''hash'', JStr h), (''parentHash'', JStr p)]"

text \<open>One healthy upstream whose answer to every call is the first of a list.\<close>

definition sample_env :: "rpc_response list node_env" where
  "sample_env = \<lparr>now_of = (\<lambda>_. 1),
     node_call = (\<lambda>_ _ _ w. case w of [] \<Rightarrow> (Inl ''done'', []) | x # xs \<Rightarrow> (Inr x, xs)),
     node_healthy = (\<lambda>_ _. True), node_score = (\<lambda>_ _. 0), node_eip1898 = (\<lambda>_ _. True),
     node_pinned = (\<lambda>_ _ _. True), set_eip1898 = (\<lambda>_ _ w. w), set_pinned = (\<lambda>_ _ _ w. w),
     node_supports = (\<lambda>_ _ _. True), mark_unsupported = (\<lambda>_ _ w. w)\<rparr>"

lemma ParseEVMHead_sample:
  "is_hex_digit h \<Longrightarrow> is_hex_digit p \<Longrightarrow>
   \<exists>j. ParseEVMHead now r c o' (Some (sample_block n (sample_hash h) (sample_hash p))) =
     Inr (zero_head\<lparr>Chain := cc_Name (rt_Config r), Family := ''evm'', Commitment := c, Number := n, Hash := sample_hash h,
       ParentHash := sample_hash p, Origin := o', ObservedAt := now, Header := j\<rparr>)"
  by (auto simp: ParseEVMHead_def sample_block_def members_map_def map_set_def map_delete_def Let_def)


subsection \<open>Properties of probes and validation\<close>

text \<open>The key of an EVM check determines the upstream and every constraint of the target.\<close>

lemma colon_split:
  assumes "a @ CHR '':'' # u = b @ CHR '':'' # v" "CHR '':'' \<notin> set u" "CHR '':'' \<notin> set v"
  shows "a = b \<and> u = v"
  using colon_suffix_inj [OF assms] assms(1) by simp

definition plain :: "head \<Rightarrow> bool" where
  "plain t \<longleftrightarrow> CHR '':'' \<notin> set (Hash t) \<union> set (Commitment t) \<union> set (ParentHash t)"

lemma evm_key_inj:
  assumes "getEVMAvailabilityKey i t = getEVMAvailabilityKey j u" "plain t" "plain u"
  shows "i = j \<and> Hash t = Hash u \<and> Commitment t = Commitment u \<and> Number t = Number u \<and> ParentHash t = ParentHash u"
proof -
  let ?c = "CHR '':''"
  have k: "getEVMAvailabilityKey i t =
      ((((i @ '':evm'') @ ?c # Hash t) @ ?c # Commitment t) @ ?c # show_u64 (Number t)) @ ?c # ParentHash t" for i t
    by (simp add: getEVMAvailabilityKey_def)
  have pt: "?c \<notin> set (Hash t)" "?c \<notin> set (Commitment t)" "?c \<notin> set (ParentHash t)"
    and pu: "?c \<notin> set (Hash u)" "?c \<notin> set (Commitment u)" "?c \<notin> set (ParentHash u)"
    using assms(2,3) by (auto simp: plain_def)
  have 1: "(((i @ '':evm'') @ ?c # Hash t) @ ?c # Commitment t) @ ?c # show_u64 (Number t)
      = (((j @ '':evm'') @ ?c # Hash u) @ ?c # Commitment u) @ ?c # show_u64 (Number u) \<and> ParentHash t = ParentHash u"
    using assms(1) pt(3) pu(3) unfolding k by (rule colon_split)
  then have 2: "((i @ '':evm'') @ ?c # Hash t) @ ?c # Commitment t = ((j @ '':evm'') @ ?c # Hash u) @ ?c # Commitment u
      \<and> show_u64 (Number t) = show_u64 (Number u)"
    by (intro colon_split) auto
  then have 3: "(i @ '':evm'') @ ?c # Hash t = (j @ '':evm'') @ ?c # Hash u \<and> Commitment t = Commitment u"
    using pt(2) pu(2) by (intro colon_split) auto
  then have "i @ '':evm'' = j @ '':evm'' \<and> Hash t = Hash u"
    using pt(1) pu(1) by (intro colon_split) auto
  then show ?thesis using 1 2 3 by simp
qed

definition probe_alone :: "string \<Rightarrow> 'w probe_body \<Rightarrow> runtime \<times> 'w \<Rightarrow> probe_flight \<times> runtime \<times> 'w" where
  "probe_alone key body s = (case body s of (x, s') \<Rightarrow> (ProbeDone x, s'))"

lemma length_drop_records: "length (drop_records xs) < 4096"
  by (induction xs) auto

lemma length_map_set: "length (map_set k v m) \<le> Suc (length m)"
  by (simp add: map_set_def map_delete_def)

lemma record_availability_bound:
  "length (availability r) \<le> 4096 \<Longrightarrow> length (availability (record_availability now key a r)) \<le> 4096"
proof -
  have "length (map_set key v (if length (availability r) \<ge> 4096
      then drop_records (filter (\<lambda>p. \<not> now > av_expires (snd p)) (availability r)) else availability r)) \<le> 4096" for v
    using length_drop_records by (intro order_trans [OF length_map_set]) (auto simp: Suc_le_eq)
  then show ?thesis by (simp add: record_availability_def Let_def)
qed

lemma cached_after_record:
  "now2 < now + 75 * Millisecond \<Longrightarrow> getCachedAvailability now2 key (record_availability now key a r) = (a, True)"
proof -
  assume t: "now2 < now + 75 * Millisecond"
  have "75 * Millisecond \<le> (if a then max (int64 (2 * PollInterval (rt_Config r))) (250 * Millisecond) else 75 * Millisecond)"
    by (auto simp: duration_defs le_max_iff_disj)
  then show ?thesis using t by (simp add: getCachedAvailability_def record_availability_def Let_def)
qed

text \<open>
  An availability check that asks the upstream answers yes only when the upstream's
  header has the target's hash and, unless the target is an explicit hash, its number and parent;
  the answer is reused for at least 75 milliseconds without another call, by checks of the same
  upstream and constraints only, until it is invalidated; and the cache never exceeds 4096 answers.
\<close>

theorem availability_check:
  assumes "HasEVMBlock env probe_alone i t (r, w) = (Inr a, r1, w1)"
    and "\<not> snd (getCachedAvailability (now_of env w) (getEVMAvailabilityKey i t) r)"
  shows "(a \<longrightarrow> (\<exists>resp b. node_call env i ''eth_getBlockByHash'' (with_hash_params (Hash t)) w = (Inr resp, w1)
        \<and> ParseEVMHead (now_of env w1) r (Commitment t) i (Result resp) = Inr b \<and> evm_block_matches t b))
    \<and> (\<forall>flight w2. now_of env w2 < now_of env w1 + 75 * Millisecond \<longrightarrow>
         HasEVMBlock env flight i t (r1, w2) = (Inr a, r1, w2))
    \<and> (\<forall>j u. plain t \<and> plain u \<and> getEVMAvailabilityKey j u = getEVMAvailabilityKey i t \<longrightarrow>
         j = i \<and> evm_block_matches u = evm_block_matches t)
    \<and> (\<forall>now. \<not> snd (getCachedAvailability now (getEVMAvailabilityKey i t) (InvalidateAvailability i t r1)))
    \<and> (length (availability r) \<le> 4096 \<longrightarrow> length (availability r1) \<le> 4096)"
proof -
  let ?key = "getEVMAvailabilityKey i t"
  have ne: "Hash t \<noteq> []" using assms(1) by (auto simp: HasEVMBlock_def)
  obtain x where miss: "getCachedAvailability (now_of env w) ?key r = (x, False)"
    using assms(2) by (metis prod.collapse)
  have check: "check_evm_block env r i t w = (Inr a, w1)" "r1 = record_availability (now_of env w1) ?key a r"
    using assms(1) ne miss
    by (auto simp: HasEVMBlock_def probe_def probe_alone_def probe_body_def split: prod.splits sum.splits)
  have yes: "\<exists>resp b. node_call env i ''eth_getBlockByHash'' (with_hash_params (Hash t)) w = (Inr resp, w1)
        \<and> ParseEVMHead (now_of env w1) r (Commitment t) i (Result resp) = Inr b \<and> evm_block_matches t b" if a
    using check(1) that by (auto simp: check_evm_block_def split: prod.splits sum.splits if_splits)
  have reuse: "HasEVMBlock env flight i t (r1, w2) = (Inr a, r1, w2)"
    if "now_of env w2 < now_of env w1 + 75 * Millisecond" for flight w2
    using cached_after_record [OF that, of ?key a r] ne check(2) by (simp add: HasEVMBlock_def probe_def)
  have same: "j = i \<and> evm_block_matches u = evm_block_matches t"
    if "plain t" "plain u" "getEVMAvailabilityKey j u = ?key" for j u
    using evm_key_inj [OF that(3,2,1)] by (auto simp: evm_block_matches_def fun_eq_iff)
  have invalidated: "\<not> snd (getCachedAvailability now ?key (InvalidateAvailability i t r1))" for now
    by (simp add: getCachedAvailability_def InvalidateAvailability_def)
  show ?thesis
    using yes reuse same invalidated check(2) record_availability_bound by blast
qed

theorem availability_check_witness:
  "HasEVMBlock sample_env (\<lambda>_ _ s. (ProbeCtxDone [], s)) ''a'' (zero_head\<lparr>Commitment := ''explicit'', Hash := sample_hash CHR ''b''\<rparr>)
     (snd (HasEVMBlock sample_env probe_alone ''a'' (zero_head\<lparr>Commitment := ''explicit'', Hash := sample_hash CHR ''b''\<rparr>)
       (sample_runtime, [\<lparr>Result = Some JNull, Err = None\<rparr>]))) =
   (Inr False, snd (HasEVMBlock sample_env probe_alone ''a'' (zero_head\<lparr>Commitment := ''explicit'', Hash := sample_hash CHR ''b''\<rparr>)
       (sample_runtime, [\<lparr>Result = Some JNull, Err = None\<rparr>])))"
proof -
  let ?t = "zero_head\<lparr>Commitment := ''explicit'', Hash := sample_hash CHR ''b''\<rparr>"
  let ?s = "(sample_runtime, [\<lparr>Result = Some JNull, Err = None\<rparr>])"
  obtain r1 w1 where r1: "HasEVMBlock sample_env probe_alone ''a'' ?t ?s = (Inr False, r1, w1)"
    by (simp add: HasEVMBlock_def probe_def probe_alone_def probe_body_def check_evm_block_def getCachedAvailability_def
        sample_runtime_def NewRuntime_def sample_env_def sample_hash_def)
  have "\<not> snd (getCachedAvailability (now_of sample_env [\<lparr>Result = Some JNull, Err = None\<rparr>])
      (getEVMAvailabilityKey ''a'' ?t) sample_runtime)"
    by (simp add: getCachedAvailability_def sample_runtime_def NewRuntime_def)
  from availability_check [OF r1 this] r1 show ?thesis
    by (simp add: sample_env_def duration_defs)
qed

lemma checked_call_Inr:
  "checked_call env i m args w = (Inr v, w1) \<longleftrightarrow>
     (\<exists>resp. node_call env i m (MarshalParams args) w = (Inr resp, w1) \<and> Err resp = None \<and> Result resp = v)"
  by (auto simp: checked_call_def split: prod.splits sum.splits option.splits)

lemma check_chain_id_None:
  "check_chain_id r v = None \<longleftrightarrow> (\<exists>s n. unmarshal_string v = Some s \<and> ParseEVMQuantity s = Inr n \<and>
     ParseEVMQuantity (ChainID (rt_Config r)) = Inr n)"
  by (auto simp: check_chain_id_def split: option.splits sum.splits)

lemma validate_all_config: "validate_all num tx env is r w = (es, r', w') \<Longrightarrow> rt_Config r' = rt_Config r"
proof (induction num tx env "is" r w arbitrary: es r' w' rule: validate_all.induct)
  case (2 num tx env j js r w)
  obtain x w1 where v: "validateUpstream num env r j w = (x, w1)" by (cases "validateUpstream num env r j w")
  show ?case
  proof (cases x)
    case None
    from 2(1) [OF v [symmetric] None] 2(3) v None show ?thesis by simp
  next
    case (Some e)
    from 2(2) [OF v [symmetric] Some] 2(3) v Some show ?thesis by (simp split: prod.splits)
  qed
qed simp

lemma validateUpstream_config:
  "rt_Config r = rt_Config q \<Longrightarrow> validateUpstream num env r i w = validateUpstream num env q i w"
proof -
  assume c: "rt_Config r = rt_Config q"
  have h: "ParseEVMHead now r co o' j = ParseEVMHead now q co o' j" for now co o' j
    by (simp only: ParseEVMHead_def c)
  show ?thesis
    by (simp only: validateUpstream_def validate_evm_def validate_solana_def check_evm_genesis_def checked_head_def
        check_chain_id_def h c)
qed

lemma validate_all_valid:
  "validate_all num tx env is r w = (es, r', w') \<Longrightarrow> valid r' i \<Longrightarrow>
     valid r i \<and> i \<notin> set is \<or> (\<exists>w0 w1. validateUpstream num env r i w0 = (None, w1))"
proof (induction num tx env "is" r w arbitrary: es r' w' rule: validate_all.induct)
  case (2 num tx env j js r w)
  obtain x w1 where v: "validateUpstream num env r j w = (x, w1)" by (cases "validateUpstream num env r j w")
  show ?case
  proof (cases x)
    case None
    let ?r = "r\<lparr>valid := (valid r)(j := True), validation := (validation r)(j := None)\<rparr>"
    have "validate_all num tx env js ?r w1 = (es, r', w')" using 2(3) v None by simp
    from 2(1) [OF v [symmetric] None this 2(4)]
    have "valid ?r i \<and> i \<notin> set js \<or> (\<exists>w0 w1. validateUpstream num env r i w0 = (None, w1))"
      using validateUpstream_config [of ?r r num env i] by simp
    then show ?thesis using v None by (cases "i = j") auto
  next
    case (Some e)
    let ?r = "r\<lparr>valid := (valid r)(j := False), validation := (validation r)(j \<mapsto> tx e)\<rparr>"
    obtain es1 where "validate_all num tx env js ?r w1 = (es1, r', w')" using 2(3) v Some by (auto split: prod.splits)
    from 2(2) [OF v [symmetric] Some this 2(4)]
    have "valid ?r i \<and> i \<notin> set js \<or> (\<exists>w0 w1. validateUpstream num env r i w0 = (None, w1))"
      using validateUpstream_config [of ?r r num env i] by simp
    then show ?thesis by (cases "i = j") auto
  qed
qed simp



end
