(* ===== verification/Subscriptions.thy ===== *)
theory Subscriptions
  imports Runtime "HOL-Library.Sublist"
begin

text \<open>
  The websocket sessions of callers, \<^verbatim>\<open>internal/gateway/websocket.go\<close>. A session is three loops over one
  state: the reader of frames, the event loop that follows the head stream, and the writer of queued
  messages. One frame, one part of an event-loop iteration between two of its queue operations, and one
  write are each one step of \<open>ws_step\<close>, and the steps interleave freely, also with any change of the
  world by other parts of the program. The connection, the random bytes and the store are fields of
  \<open>ws_env\<close>. Encoding a message cannot fail on values that were decoded.
\<close>

subsection \<open>State\<close>

text \<open>A notification stands for the message with the head's raw header as its result.\<close>

datatype message = Reply response | Notification string head

text \<open>The event loop; \<open>passed\<close> is a history variable: every head the loop has taken as its last.\<close>

record pump =
  p_cursor :: string
  p_last :: head
  p_seen :: "string list"
  p_history :: "(string \<times> head) list"
  p_order :: "string list"
  p_todo :: "event list"
  p_path :: "head list"
  p_out :: "(string \<times> head) list"
  p_checkpoint :: head
  passed :: "head list"

record session =
  s_subs :: "string list"
  s_pump :: "pump option"
  s_queue :: "message list"
  s_sent :: "message list"
  s_cancelled :: bool
  s_closed :: "string option"

record 'w ws_env =
  we_node :: "'w node_env"
  we_start :: "string \<Rightarrow> 'w \<Rightarrow> (store_error + event) \<times> 'w"
  we_snapshot :: "string \<Rightarrow> 'w \<Rightarrow> (store_error + snapshot) \<times> 'w"
  we_read :: "string \<Rightarrow> string \<Rightarrow> 'w \<Rightarrow> (store_error + event list) \<times> 'w"
  we_random :: "'w \<Rightarrow> string option \<times> 'w"
  we_type_error :: "json \<Rightarrow> string"
  we_queueSize :: nat

definition new_session :: session where
  "new_session = \<lparr>s_subs = [], s_pump = None, s_queue = [], s_sent = [], s_cancelled = False, s_closed = None\<rparr>"

definition ws_accepts :: "(string \<Rightarrow> runtime option) \<Rightarrow> string \<Rightarrow> bool" where
  "ws_accepts runtimes chainName \<longleftrightarrow>
     (case runtimes chainName of None \<Rightarrow> False | Some r \<Rightarrow> cc_Family (rt_Config r) = ''evm'')"

subsection \<open>Messages\<close>

definition enqueue :: "nat \<Rightarrow> message \<Rightarrow> session \<Rightarrow> bool \<times> session" where
  "enqueue cap m s = (if length (s_queue s) < cap then (True, s\<lparr>s_queue := s_queue s @ [m]\<rparr>) else (False, s))"

definition enqueueResponse :: "nat \<Rightarrow> response \<Rightarrow> session \<Rightarrow> session" where
  "enqueueResponse cap resp s =
     (case enqueue cap (Reply resp) s of (True, s1) \<Rightarrow> s1 | (False, s1) \<Rightarrow> s1\<lparr>s_cancelled := True\<rparr>)"

definition closeWithError :: "string \<Rightarrow> session \<Rightarrow> session" where
  "closeWithError reason s = s\<lparr>s_closed := Some reason, s_cancelled := True\<rparr>"

subsection \<open>Frames\<close>

definition subscription_limit :: nat where "subscription_limit = 128"

definition new_pump :: "event \<Rightarrow> pump" where
  "new_pump checkpoint =
     (let h = eHead checkpoint; known = (if IsZero h then [] else [(Hash h, h)]) in
      \<lparr>p_cursor = eID checkpoint, p_last = h, p_seen = [], p_history = known, p_order = map fst known, p_todo = [],
       p_path = [], p_out = [], p_checkpoint = h, passed = []\<rparr>)"

text \<open>The checkpoint of a first subscription, read before the accepted head is checked.\<close>

definition read_checkpoint :: "'w ws_env \<Rightarrow> runtime \<Rightarrow> 'w \<Rightarrow> (rpc_error + event) \<times> 'w" where
  "read_checkpoint env r w =
     (let cfg = rt_Config r in
      case we_start env (cc_Name cfg) w of
        (Inl _, w1) \<Rightarrow> (Inl (ConsistencyUnavailable (JStr ''head stream unavailable'')), w1)
      | (Inr checkpoint, w1) \<Rightarrow>
          (case we_snapshot env (cc_Name cfg) w1 of
             (Inl _, w2) \<Rightarrow> (Inl (ConsistencyUnavailable (JStr ''head stream unavailable'')), w2)
           | (Inr snap, w2) \<Rightarrow>
               let accepted = or_zero (Get snap Latest) in
               if ReorgPending accepted \<or> MaxHeadAge cfg > 0
                 \<and> (IsZero accepted \<or> time_sub (now_of (we_node env) w2) (ObservedAt accepted) > MaxHeadAge cfg)
               then (Inl (ConsistencyUnavailable (JStr ''accepted head is stale or reorg pending'')), w2)
               else (Inr checkpoint, w2)))"

definition subscription_id :: "string \<Rightarrow> string" where
  "subscription_id hex = ''0x'' @ hex"

definition add_subscription :: "nat \<Rightarrow> request \<Rightarrow> string \<Rightarrow> event option \<Rightarrow> session \<Rightarrow> session" where
  "add_subscription cap req i checkpoint s =
     (if length (s_subs s) \<ge> subscription_limit
      then enqueueResponse cap (Failure (ID req) (InvalidRequest ''subscription limit reached'')) s
      else
        (let s1 = enqueueResponse cap (Success (ID req) (Some (JStr i))) (s\<lparr>s_subs := List.insert i (s_subs s)\<rparr>) in
         case checkpoint of None \<Rightarrow> s1 | Some c \<Rightarrow> s1\<lparr>s_pump := Some (new_pump c)\<rparr>))"

definition subscription_kind :: "request \<Rightarrow> rpc_error option" where
  "subscription_kind req =
     (case ParseParams (Params req) of
        Inl e \<Rightarrow> Some e
      | Inr parameters \<Rightarrow>
          if length parameters \<noteq> 1 then Some (InvalidParams ''eth_subscribe requires exactly [\"newHeads\"]'')
          else
            (case unmarshal_string (Some (hd parameters)) of
               None \<Rightarrow> Some (InvalidParams ''eth_subscribe requires a string subscription kind'')
             | Some kind \<Rightarrow>
                 if kind \<noteq> ''newHeads'' then Some (UnsupportedConsistency ''eth_subscribe'' ''only newHeads is supported'')
                 else None))"

definition subscribe :: "'w ws_env \<Rightarrow> runtime \<Rightarrow> request \<Rightarrow> session \<times> 'w \<Rightarrow> session \<times> 'w" where
  "subscribe env r req = (\<lambda>(s, w).
     let cap = we_queueSize env in
     case subscription_kind req of
       Some e \<Rightarrow> (enqueueResponse cap (Failure (ID req) e) s, w)
     | None \<Rightarrow>
         (case (if s_pump s = None
                then (case read_checkpoint env r w of (Inl e, w1) \<Rightarrow> (Inl e, w1) | (Inr c, w1) \<Rightarrow> (Inr (Some c), w1))
                else (Inr None, w)) of
            (Inl e, w1) \<Rightarrow> (enqueueResponse cap (Failure (ID req) e) s, w1)
          | (Inr checkpoint, w1) \<Rightarrow>
              (case we_random env w1 of
                 (None, w2) \<Rightarrow> (enqueueResponse cap (Failure (ID req) (InternalError ''create subscription id'')) s, w2)
               | (Some hex, w2) \<Rightarrow> (add_subscription cap req (subscription_id hex) checkpoint s, w2))))"

definition unsubscribe :: "nat \<Rightarrow> request \<Rightarrow> session \<Rightarrow> session" where
  "unsubscribe cap req s =
     (case ParseParams (Params req) of
        Inl e \<Rightarrow> enqueueResponse cap (Failure (ID req) e) s
      | Inr parameters \<Rightarrow>
          if length parameters \<noteq> 1
          then enqueueResponse cap (Failure (ID req) (InvalidParams ''eth_unsubscribe requires one subscription id'')) s
          else
            (case unmarshal_string (Some (hd parameters)) of
               None \<Rightarrow> enqueueResponse cap (Failure (ID req) (InvalidParams ''invalid subscription id'')) s
             | Some i \<Rightarrow>
                 enqueueResponse cap (Success (ID req) (Some (JBool (i \<in> set (s_subs s)))))
                   (s\<lparr>s_subs := remove1 i (s_subs s)\<rparr>)))"

text \<open>A notification from the client changes the subscriptions without an answer.\<close>

definition silent_unsubscribe :: "request \<Rightarrow> session \<Rightarrow> session" where
  "silent_unsubscribe req s =
     (case ParseParams (Params req) of
        Inl _ \<Rightarrow> s
      | Inr parameters \<Rightarrow>
          if length parameters \<noteq> 1 then s
          else (case unmarshal_string (Some (hd parameters)) of
                  None \<Rightarrow> s
                | Some i \<Rightarrow> s\<lparr>s_subs := remove1 i (s_subs s)\<rparr>))"

text \<open>A frame is the text of the scanner's error or one JSON value.\<close>

definition read_frame :: "'w ws_env \<Rightarrow> runtime \<Rightarrow> string + json \<Rightarrow> session \<times> 'w \<Rightarrow> session \<times> 'w" where
  "read_frame env r payload = (\<lambda>(s, w).
     let cap = we_queueSize env in
     case (case payload of
             Inl e \<Rightarrow> Inl e
           | Inr v \<Rightarrow> (case unmarshal_request v of None \<Rightarrow> Inl (we_type_error env v) | Some req \<Rightarrow> Inr req)) of
       Inl e \<Rightarrow> (enqueueResponse cap (Failure None (ParseError e)) s, w)
     | Inr req \<Rightarrow>
         (case Validate req of
            Some e \<Rightarrow> (enqueueResponse cap (Failure (ID req) e) s, w)
          | None \<Rightarrow>
              if IsNotification req
              then (if Method req = ''eth_unsubscribe'' then silent_unsubscribe req s else s, w)
              else if Method req = ''eth_subscribe'' then subscribe env r req (s, w)
              else if Method req = ''eth_unsubscribe'' then (unsubscribe cap req s, w)
              else (enqueueResponse cap (Failure (ID req) (UnsupportedConsistency (Method req)
                      ''only newHeads subscriptions are supported over WebSocket'')) s, w)))"

subsection \<open>The path to the next head\<close>

datatype path_error = BadLinkage | BadAncestor | BadParent | ParentUnavailable string fetch_error | NoAncestor

definition fetchBlock :: "'w ws_env \<Rightarrow> runtime \<Rightarrow> string \<Rightarrow> string \<Rightarrow> 'w \<Rightarrow> (path_error + head) \<times> 'w" where
  "fetchBlock env r hash preferred w =
     (case EVMBlockByHash (we_node env) r hash Latest preferred w of
        (Inl e, w1) \<Rightarrow> (Inl (ParentUnavailable hash e), w1)
      | (Inr h, w1) \<Rightarrow> (Inr h, w1))"

definition next_height :: "head \<Rightarrow> head \<Rightarrow> bool" where
  "next_height child parent \<longleftrightarrow> Number child > Number parent \<and> Number child - Number parent = 1"

text \<open>The path is kept in the order of its heights; its first element is the cursor.\<close>

fun expand_walk :: "'w ws_env \<Rightarrow> runtime \<Rightarrow> head \<Rightarrow> (string \<times> head) list \<Rightarrow> nat \<Rightarrow> head \<Rightarrow> head list \<Rightarrow> 'w \<Rightarrow>
    (path_error + head list) \<times> 'w" where
  "expand_walk env r lst hist 0 cursor rest w = (Inl NoAncestor, w)"
| "expand_walk env r lst hist (Suc depth) cursor rest w =
     (if EqualFold (ParentHash cursor) (Hash lst)
      then (if next_height cursor lst then Inr (cursor # rest) else Inl BadLinkage, w)
      else
        (case map_of hist (ParentHash cursor) of
           Some ancestor \<Rightarrow> (if next_height cursor ancestor then Inr (cursor # rest) else Inl BadAncestor, w)
         | None \<Rightarrow>
             (case fetchBlock env r (ParentHash cursor) (Origin cursor) w of
                (Inl e, w1) \<Rightarrow> (Inl e, w1)
              | (Inr parent, w1) \<Rightarrow>
                  if next_height cursor parent then expand_walk env r lst hist depth parent (cursor # rest) w1
                  else (Inl BadParent, w1))))"

definition expandPath :: "'w ws_env \<Rightarrow> runtime \<Rightarrow> head \<Rightarrow> head \<Rightarrow> (string \<times> head) list \<Rightarrow> 'w \<Rightarrow> (path_error + head list) \<times> 'w" where
  "expandPath env r lst nxt hist w =
     (if IsZero lst then (Inr [nxt], w)
      else if Hash nxt = Hash lst then (Inr [], w)
      else if Number nxt = Number lst \<and> EqualFold (ParentHash nxt) (ParentHash lst) then (Inr [nxt], w)
      else if next_height nxt lst \<and> EqualFold (ParentHash nxt) (Hash lst) then (Inr [nxt], w)
      else expand_walk env r lst hist (nat (ReorgDepth (rt_Config r))) nxt [] w)"

subsection \<open>The event loop\<close>

definition dedup_limit :: nat where "dedup_limit = 65536"

definition history_limit :: "runtime \<Rightarrow> int" where
  "history_limit r = max 16 (ReorgDepth (rt_Config r) * 2)"

text \<open>The loop returns: nothing of the iteration is left.\<close>

definition stop_pump :: "string \<Rightarrow> pump \<Rightarrow> session \<Rightarrow> session" where
  "stop_pump reason p s = closeWithError reason (s\<lparr>s_pump := Some (p\<lparr>p_todo := [], p_path := [], p_out := []\<rparr>)\<rparr>)"

definition pump_read :: "'w ws_env \<Rightarrow> runtime \<Rightarrow> pump \<Rightarrow> session \<Rightarrow> 'w \<Rightarrow> session \<times> 'w" where
  "pump_read env r p s w =
     (let cfg = rt_Config r in
      if s_cancelled s then (s, w)
      else
        (case we_read env (cc_Name cfg) (p_cursor p) w of
           (Inl _, w1) \<Rightarrow> (stop_pump ''head stream read failed'' p s, w1)
         | (Inr events, w1) \<Rightarrow>
             (case we_snapshot env (cc_Name cfg) w1 of
                (Inl _, w2) \<Rightarrow> (stop_pump ''accepted head is stale, unavailable, or reorg pending'' p s, w2)
              | (Inr snap, w2) \<Rightarrow>
                  let accepted = or_zero (Get snap Latest) in
                  if ReorgPending accepted \<or> MaxHeadAge cfg > 0
                    \<and> (Get snap Latest = None \<or> time_sub (now_of (we_node env) w2) (ObservedAt accepted) > MaxHeadAge cfg)
                  then (stop_pump ''accepted head is stale, unavailable, or reorg pending'' p s, w2)
                  else (s\<lparr>s_pump := Some (p\<lparr>p_todo := events\<rparr>)\<rparr>, w2))))"

definition pump_event :: "'w ws_env \<Rightarrow> runtime \<Rightarrow> pump \<Rightarrow> event \<Rightarrow> event list \<Rightarrow> session \<Rightarrow> 'w \<Rightarrow> session \<times> 'w" where
  "pump_event env r p e es s w =
     (case expandPath env r (p_last p) (eHead e) (p_history p) w of
        (Inl _, w1) \<Rightarrow> (stop_pump ''head history gap exceeds recovery window'' p s, w1)
      | (Inr path, w1) \<Rightarrow> (s\<lparr>s_pump := Some (p\<lparr>p_cursor := eID e, p_todo := es, p_path := path\<rparr>)\<rparr>, w1))"

text \<open>A head enters the history; the oldest leaves it beyond the limit.\<close>

definition remember :: "runtime \<Rightarrow> head \<Rightarrow> pump \<Rightarrow> pump" where
  "remember r h p =
     (let order = (if map_of (p_history p) (Hash h) = None then p_order p @ [Hash h] else p_order p);
          hist = map_set (Hash h) h (p_history p)
      in if int (length order) > history_limit r
         then p\<lparr>p_history := map_delete (hd order) hist, p_order := tl order\<rparr>
         else p\<lparr>p_history := hist, p_order := order\<rparr>)"

definition pump_head :: "runtime \<Rightarrow> pump \<Rightarrow> head \<Rightarrow> head list \<Rightarrow> session \<Rightarrow> session" where
  "pump_head r p h hs s =
     (let p1 = p\<lparr>p_last := h, p_path := hs, passed := passed p @ [h]\<rparr> in
      if Hash h \<in> set (p_seen p) then s\<lparr>s_pump := Some p1\<rparr>
      else if length (p_seen p) \<ge> dedup_limit
      then stop_pump ''subscription deduplication window exhausted; reconnect'' p1 s
      else s\<lparr>s_pump := Some ((remember r h (p1\<lparr>p_seen := Hash h # p_seen p\<rparr>))
             \<lparr>p_out := map (\<lambda>i. (i, h)) (sort (s_subs s))\<rparr>)\<rparr>)"

text \<open>A full queue cancels the session and ends the notification of this head.\<close>

definition pump_send :: "nat \<Rightarrow> pump \<Rightarrow> string \<times> head \<Rightarrow> (string \<times> head) list \<Rightarrow> session \<Rightarrow> session" where
  "pump_send cap p m ms s =
     (case enqueue cap (Notification (fst m) (snd m)) s of
        (True, s1) \<Rightarrow> s1\<lparr>s_pump := Some (p\<lparr>p_out := ms\<rparr>)\<rparr>
      | (False, s1) \<Rightarrow> s1\<lparr>s_pump := Some (p\<lparr>p_out := []\<rparr>), s_cancelled := True\<rparr>)"

definition pump_turn :: "'w ws_env \<Rightarrow> runtime \<Rightarrow> pump \<Rightarrow> session \<Rightarrow> 'w \<Rightarrow> session \<times> 'w" where
  "pump_turn env r p s w =
     (case p_out p of
        m # ms \<Rightarrow> (pump_send (we_queueSize env) p m ms s, w)
      | [] \<Rightarrow>
          (case p_path p of
             h # hs \<Rightarrow> (pump_head r p h hs s, w)
           | [] \<Rightarrow>
               (case p_todo p of
                  e # es \<Rightarrow> pump_event env r p e es s w
                | [] \<Rightarrow> pump_read env r p s w)))"

subsection \<open>The session as a state machine\<close>

inductive ws_step :: "'w ws_env \<Rightarrow> runtime \<Rightarrow> session \<times> 'w \<Rightarrow> session \<times> 'w \<Rightarrow> bool" for env r where
  frame: "\<not> s_cancelled s \<Longrightarrow> ws_step env r (s, w) (read_frame env r payload (s, w))"
| hangup: "ws_step env r (s, w) (s\<lparr>s_cancelled := True\<rparr>, w)"
| turn: "s_pump s = Some p \<Longrightarrow> ws_step env r (s, w) (pump_turn env r p s w)"
| written: "s_queue s = m # ms \<Longrightarrow> \<not> s_cancelled s \<Longrightarrow> ws_step env r (s, w) (s\<lparr>s_queue := ms, s_sent := s_sent s @ [m]\<rparr>, w)"
| unwritten: "s_queue s = m # ms \<Longrightarrow> ws_step env r (s, w) (s\<lparr>s_queue := ms, s_cancelled := True\<rparr>, w)"
| others: "ws_step env r (s, w) (s, w')"

inductive ws_reachable :: "'w ws_env \<Rightarrow> runtime \<Rightarrow> session \<times> 'w \<Rightarrow> bool" for env r where
  start: "ws_reachable env r (new_session, w)"
| step: "ws_reachable env r sw \<Longrightarrow> ws_step env r sw sw' \<Longrightarrow> ws_reachable env r sw'"

subsection \<open>Paths attach to what is known\<close>

text \<open>
  A head attaches to the heads known before it when it is the child of one of them, or a sibling of one
  at the same height; after an unknown last head anything attaches.
\<close>

definition attached :: "head \<Rightarrow> head list \<Rightarrow> bool" where
  "attached h known \<longleftrightarrow> IsZero (last known)
     \<or> (\<exists>x \<in> set known. next_height h x \<and> EqualFold (ParentHash h) (Hash x)
          \<or> Number h = Number x \<and> EqualFold (ParentHash h) (ParentHash x))"

fun path_ok :: "head list \<Rightarrow> head list \<Rightarrow> bool" where
  "path_ok known [] \<longleftrightarrow> True"
| "path_ok known (h # hs) \<longleftrightarrow> attached h known \<and> path_ok (known @ [h]) hs"

fun links :: "head \<Rightarrow> head list \<Rightarrow> bool" where
  "links x [] \<longleftrightarrow> True"
| "links x (h # hs) \<longleftrightarrow> next_height h x \<and> EqualFold (ParentHash h) (Hash x) \<and> links h hs"

lemma links_path_ok: "links c hs \<Longrightarrow> c \<in> set known \<Longrightarrow> path_ok known hs"
proof (induction hs arbitrary: c known)
  case (Cons h hs)
  have "path_ok (known @ [h]) hs" by (rule Cons.IH [of h]) (use Cons.prems in auto)
  then show ?case using Cons.prems by (auto simp: attached_def)
qed simp

lemma fetchBlock_Inr: "fetchBlock env r hash i w = (Inr h, w') \<Longrightarrow> EqualFold (Hash h) hash"
  by (auto simp: fetchBlock_def block_for_def split: prod.splits sum.splits dest!: EVMBlockByHash_Inr)

lemma expand_walk_ok:
  assumes "expand_walk env r lst hist depth cursor rest w = (Inr path, w')" "links cursor rest"
    and "\<forall>(k, h) \<in> set hist. Hash h = k \<and> h \<in> set known" "lst \<in> set known"
  shows "path_ok known path"
  using assms
proof (induction env r lst hist depth cursor rest w rule: expand_walk.induct)
  case (2 env r lst hist depth cursor rest w)
  have attach: "path_ok known (cursor # rest)" if "x \<in> set known" "next_height cursor x" "EqualFold (ParentHash cursor) (Hash x)" for x
    using that links_path_ok [OF 2(3), of "known @ [cursor]"] by (auto simp: attached_def)
  show ?case
  proof (cases "EqualFold (ParentHash cursor) (Hash lst)")
    case True
    then show ?thesis using 2(2) attach [OF 2(5)] by (auto split: if_splits)
  next
    case away: False
    show ?thesis
    proof (cases "map_of hist (ParentHash cursor)")
      case (Some x)
      then have "Hash x = ParentHash cursor" "x \<in> set known" using 2(4) by (auto dest!: map_of_SomeD)
      then show ?thesis using 2(2) away Some attach [of x] by (auto split: if_splits)
    next
      case None
      obtain parent w1 where f: "fetchBlock env r (ParentHash cursor) (Origin cursor) w = (Inr parent, w1)" "next_height cursor parent"
        "expand_walk env r lst hist depth parent (cursor # rest) w1 = (Inr path, w')"
        using 2(2) away None by (auto split: prod.splits sum.splits if_splits)
      have "links parent (cursor # rest)" using 2(3) f(2) fetchBlock_Inr [OF f(1)] by (simp add: EqualFold_sym)
      then show ?thesis using 2(1) [OF away None f(1) [symmetric] refl f(2) f(3)] 2(4,5) by blast
    qed
  qed
qed simp

lemma expandPath_ok:
  assumes "expandPath env r (last known) nxt hist w = (Inr path, w')" "known \<noteq> []"
    and "\<forall>(k, h) \<in> set hist. Hash h = k \<and> h \<in> set known"
  shows "path_ok known path"
proof -
  let ?l = "last known"
  have l: "?l \<in> set known" using assms(2) by simp
  consider "IsZero ?l" "path = [nxt]" | "path = []" | "path = [nxt]" "Number nxt = Number ?l" "EqualFold (ParentHash nxt) (ParentHash ?l)"
    | "path = [nxt]" "next_height nxt ?l" "EqualFold (ParentHash nxt) (Hash ?l)"
    | "expand_walk env r ?l hist (nat (ReorgDepth (rt_Config r))) nxt [] w = (Inr path, w')"
    using assms(1) by (auto simp: expandPath_def split: if_splits)
  then show ?thesis
  proof cases
    case 5
    then show ?thesis by (rule expand_walk_ok [OF _ _ assms(3) l]) simp
  qed (use l in \<open>auto simp: attached_def\<close>)
qed

subsection \<open>The invariant of a session\<close>

definition known :: "pump \<Rightarrow> head list" where
  "known p = p_checkpoint p # passed p"

definition pump_ok :: "pump \<Rightarrow> bool" where
  "pump_ok p \<longleftrightarrow> p_last p = last (known p)
     \<and> (\<forall>(k, h) \<in> set (p_history p). Hash h = k \<and> h \<in> set (known p))
     \<and> path_ok (known p) (p_path p)
     \<and> (\<forall>k < length (passed p). attached (passed p ! k) (p_checkpoint p # take k (passed p)))
     \<and> length (p_seen p) \<le> dedup_limit"

text \<open>What one subscription was sent and is to be sent, in order.\<close>

fun noted :: "message \<Rightarrow> (string \<times> head) list" where
  "noted (Reply resp) = []"
| "noted (Notification i h) = [(i, h)]"

definition notified :: "session \<Rightarrow> (string \<times> head) list" where
  "notified s = concat (map noted (s_sent s @ s_queue s)) @ (case s_pump s of None \<Rightarrow> [] | Some p \<Rightarrow> p_out p)"

definition stream_of :: "string \<Rightarrow> session \<Rightarrow> head list" where
  "stream_of i s = map snd (filter (\<lambda>m. fst m = i) (notified s))"

definition stream_ok :: "pump \<Rightarrow> head list \<Rightarrow> bool" where
  "stream_ok p hs \<longleftrightarrow> subseq hs (passed p) \<and> distinct (map Hash hs) \<and> Hash ` set hs \<subseteq> set (p_seen p)"

definition session_ok :: "nat \<Rightarrow> session \<Rightarrow> bool" where
  "session_ok cap s \<longleftrightarrow> length (s_queue s) \<le> cap \<and> distinct (s_subs s) \<and> length (s_subs s) \<le> subscription_limit
     \<and> (case s_pump s of None \<Rightarrow> notified s = [] | Some p \<Rightarrow> pump_ok p \<and> (\<forall>i. stream_ok p (stream_of i s)))"

lemma notified_update [simp]:
  "notified (s\<lparr>s_cancelled := b\<rparr>) = notified s" "notified (s\<lparr>s_closed := c\<rparr>) = notified s" "notified (s\<lparr>s_subs := is\<rparr>) = notified s"
  "notified (s\<lparr>s_queue := s_queue s @ [Reply resp]\<rparr>) = notified s"
  by (simp_all add: notified_def)

lemma stream_of_update [simp]:
  "stream_of i (s\<lparr>s_cancelled := b\<rparr>) = stream_of i s" "stream_of i (s\<lparr>s_closed := c\<rparr>) = stream_of i s"
  "stream_of i (s\<lparr>s_subs := is\<rparr>) = stream_of i s" "stream_of i (s\<lparr>s_queue := s_queue s @ [Reply resp]\<rparr>) = stream_of i s"
  by (simp_all add: stream_of_def)

lemma session_ok_flags [simp]:
  "session_ok cap (s\<lparr>s_cancelled := b\<rparr>) \<longleftrightarrow> session_ok cap s"
  "session_ok cap (s\<lparr>s_closed := c\<rparr>) \<longleftrightarrow> session_ok cap s"
  by (cases "s_pump s"; simp add: session_ok_def)+

lemma session_ok_subs:
  "session_ok cap s \<Longrightarrow> distinct is \<Longrightarrow> length is \<le> subscription_limit \<Longrightarrow> session_ok cap (s\<lparr>s_subs := is\<rparr>)"
  by (cases "s_pump s") (simp_all add: session_ok_def)

lemma enqueue_Reply:
  "enqueue cap (Reply resp) s = (b, s') \<Longrightarrow> session_ok cap s \<Longrightarrow> session_ok cap s'"
  by (cases "s_pump s") (auto simp: enqueue_def session_ok_def split: if_splits)

lemma session_ok_enqueueResponse [simp]: "session_ok cap s \<Longrightarrow> session_ok cap (enqueueResponse cap resp s)"
  by (auto simp: enqueueResponse_def split: prod.splits bool.splits dest: enqueue_Reply)

lemma pump_ok_new [simp]: "pump_ok (new_pump c)"
  by (auto simp: pump_ok_def new_pump_def known_def Let_def)

lemma s_pump_enqueueResponse [simp]: "s_pump (enqueueResponse cap resp s) = s_pump s"
  by (simp add: enqueueResponse_def enqueue_def)

lemma session_ok_start_pump:
  "session_ok cap s \<Longrightarrow> s_pump s = None \<Longrightarrow> session_ok cap (s\<lparr>s_pump := Some (new_pump c)\<rparr>)"
proof -
  assume ok: "session_ok cap s" "s_pump s = None"
  have "p_out (new_pump c) = []" by (simp add: new_pump_def Let_def)
  then have "notified (s\<lparr>s_pump := Some (new_pump c)\<rparr>) = []" using ok by (simp add: session_ok_def notified_def)
  then show ?thesis using ok by (simp add: session_ok_def stream_of_def stream_ok_def)
qed

lemma session_ok_subscribed:
  assumes "session_ok cap s" "checkpoint \<noteq> None \<Longrightarrow> s_pump s = None"
  shows "session_ok cap (add_subscription cap req i checkpoint s)"
proof (cases "length (s_subs s) \<ge> subscription_limit")
  case False
  have "distinct (List.insert i (s_subs s))" "length (List.insert i (s_subs s)) \<le> subscription_limit"
    using False assms(1) by (auto simp: session_ok_def List.insert_def)
  then have "session_ok cap (s\<lparr>s_subs := List.insert i (s_subs s)\<rparr>)" using session_ok_subs assms(1) by blast
  then show ?thesis using False assms(2)
    by (auto simp: add_subscription_def Let_def session_ok_start_pump split: option.splits)
qed (use assms(1) in \<open>simp add: add_subscription_def\<close>)

lemma session_ok_removed: "session_ok cap s \<Longrightarrow> session_ok cap (s\<lparr>s_subs := remove1 i (s_subs s)\<rparr>)"
  by (rule session_ok_subs) (auto simp: session_ok_def length_remove1)

lemma session_ok_subscribe:
  "session_ok (we_queueSize env) s \<Longrightarrow> session_ok (we_queueSize env) (fst (subscribe env r req (s, w)))"
  unfolding subscribe_def
  by (auto simp: Let_def intro: session_ok_subscribed split: option.splits prod.splits sum.splits if_splits)

lemma session_ok_frame:
  "session_ok (we_queueSize env) s \<Longrightarrow> session_ok (we_queueSize env) (fst (read_frame env r payload (s, w)))"
  unfolding read_frame_def
  by (auto simp: Let_def unsubscribe_def silent_unsubscribe_def
      session_ok_removed intro: session_ok_subscribe split: option.splits sum.splits)

lemma subseq_distinct: "subseq xs ys \<Longrightarrow> distinct ys \<Longrightarrow> distinct xs"
  unfolding subseq_conv_nths by (auto intro: distinct_nthsI)

lemma subseq_set: "subseq xs ys \<Longrightarrow> set xs \<subseteq> set ys"
  unfolding subseq_conv_nths by (auto dest: in_set_nthsD)

text \<open>What was noted may lose messages, and the pump may advance.\<close>

lemma stream_ok_shrinks:
  assumes "stream_ok p (stream_of i s)" "subseq (notified s') (notified s)" "subseq (passed p) (passed p')"
    "set (p_seen p) \<subseteq> set (p_seen p')"
  shows "stream_ok p' (stream_of i s')"
proof -
  have sub: "subseq (stream_of i s') (stream_of i s)"
    unfolding stream_of_def by (intro subseq_map subseq_filter assms(2))
  have "subseq (map Hash (stream_of i s')) (map Hash (stream_of i s))" by (rule subseq_map [OF sub])
  then show ?thesis
    using assms(1,3,4) sub subseq_set [OF sub] unfolding stream_ok_def
    by (auto intro: subseq_distinct subseq_order.order_trans)
qed

lemma session_ok_shrinks:
  assumes "session_ok cap s" "s_pump s = Some p" "s_pump s' = Some p'" "pump_ok p'" "length (s_queue s') \<le> cap"
    "s_subs s' = s_subs s" "subseq (notified s') (notified s)" "subseq (passed p) (passed p')" "set (p_seen p) \<subseteq> set (p_seen p')"
  shows "session_ok cap s'"
  using assms(1-6) stream_ok_shrinks [OF _ assms(7-9)] by (auto simp: session_ok_def)

lemma pump_ok_parts [simp]:
  "pump_ok (p\<lparr>p_out := ms\<rparr>) \<longleftrightarrow> pump_ok p" "pump_ok (p\<lparr>p_todo := es\<rparr>) \<longleftrightarrow> pump_ok p"
  "pump_ok (p\<lparr>p_cursor := c\<rparr>) \<longleftrightarrow> pump_ok p"
  by (simp_all add: pump_ok_def known_def)

lemma pump_ok_no_path: "pump_ok p \<Longrightarrow> pump_ok (p\<lparr>p_path := []\<rparr>)"
  by (simp add: pump_ok_def known_def)

lemma session_ok_stopped:
  assumes "session_ok cap s" "s_pump s = Some p" "pump_ok p'" "subseq (passed p) (passed p')" "p_seen p' = p_seen p"
  shows "session_ok cap (stop_pump reason p' s)"
proof -
  have "notified (stop_pump reason p' s) = concat (map noted (s_sent s @ s_queue s))"
    by (simp add: stop_pump_def closeWithError_def notified_def)
  then have "subseq (notified (stop_pump reason p' s)) (notified s)"
    unfolding notified_def [of s] by (simp only:) (rule subseq_rev_drop_many, simp)
  moreover have "pump_ok (p'\<lparr>p_todo := [], p_path := [], p_out := []\<rparr>)"
    using pump_ok_no_path [of "p'\<lparr>p_todo := []\<rparr>"] assms(3) by simp
  moreover have "length (s_queue s) \<le> cap" using assms(1) by (simp add: session_ok_def)
  ultimately show ?thesis
    using session_ok_shrinks [OF assms(1,2), of "stop_pump reason p' s"] assms(4,5)
    by (simp add: stop_pump_def closeWithError_def)
qed

lemma session_ok_pump_update:
  assumes "session_ok cap s" "s_pump s = Some p" "pump_ok p'" "p_out p' = p_out p" "passed p' = passed p" "p_seen p' = p_seen p"
  shows "session_ok cap (s\<lparr>s_pump := Some p'\<rparr>)"
proof -
  have "notified (s\<lparr>s_pump := Some p'\<rparr>) = notified s" using assms(2,4) by (simp add: notified_def)
  then show ?thesis using session_ok_shrinks [OF assms(1,2), of "s\<lparr>s_pump := Some p'\<rparr>" p'] assms
    by (simp add: session_ok_def)
qed

lemma session_ok_pump: "session_ok cap s \<Longrightarrow> s_pump s = Some p \<Longrightarrow> pump_ok p"
  by (simp add: session_ok_def)

lemma pump_read_ok:
  assumes "session_ok cap s" "s_pump s = Some p"
  shows "session_ok cap (fst (pump_read env r p s w))"
  using assms session_ok_stopped [OF assms session_ok_pump [OF assms]] session_ok_pump [OF assms]
    session_ok_pump_update [OF assms]
  by (auto simp: pump_read_def Let_def split: prod.splits sum.splits)

lemma pump_event_ok:
  assumes ok: "session_ok cap s" "s_pump s = Some p"
  shows "session_ok cap (fst (pump_event env r p e es s w))"
proof -
  note p = session_ok_pump [OF ok]
  obtain x w1 where x: "expandPath env r (p_last p) (eHead e) (p_history p) w = (x, w1)"
    by (cases "expandPath env r (p_last p) (eHead e) (p_history p) w")
  show ?thesis
  proof (cases x)
    case (Inl err)
    then show ?thesis using x session_ok_stopped [OF ok p] by (simp add: pump_event_def)
  next
    case (Inr path)
    have "p_last p = last (known p)" "known p \<noteq> []" "\<forall>(k, h) \<in> set (p_history p). Hash h = k \<and> h \<in> set (known p)"
      using p by (simp_all add: pump_ok_def known_def)
    with expandPath_ok [of env r "known p" "eHead e" "p_history p" w path w1] x Inr have "path_ok (known p) path" by simp
    then have "pump_ok (p\<lparr>p_cursor := eID e, p_todo := es, p_path := path\<rparr>)" using p by (simp add: pump_ok_def known_def)
    then show ?thesis using x Inr session_ok_pump_update [OF ok] by (simp add: pump_event_def)
  qed
qed

lemma pump_send_ok:
  assumes ok: "session_ok cap s" "s_pump s = Some p" and out: "p_out p = m # ms"
  shows "session_ok cap (pump_send cap p m ms s)"
proof -
  note p = session_ok_pump [OF ok]
  let ?s = "pump_send cap p m ms s"
  have "subseq (notified ?s) (notified s)"
    using ok(2) out by (cases m) (auto simp: pump_send_def enqueue_def notified_def)
  moreover have "s_subs ?s = s_subs s" "length (s_queue ?s) \<le> cap" "\<exists>p'. s_pump ?s = Some p' \<and> (\<exists>l. p' = p\<lparr>p_out := l\<rparr>)"
    using ok(1) by (auto simp: pump_send_def enqueue_def session_ok_def)
  ultimately show ?thesis using session_ok_shrinks [OF ok, of ?s] p by auto
qed

lemma filter_pairs: "distinct is \<Longrightarrow> map snd (filter (\<lambda>m. fst m = i) (map (\<lambda>j. (j, h)) is)) = (if i \<in> set is then [h] else [])"
  by (induction "is") auto

lemma remember_sel [simp]:
  "p_last (remember r h p) = p_last p" "p_path (remember r h p) = p_path p" "passed (remember r h p) = passed p"
  "p_checkpoint (remember r h p) = p_checkpoint p" "p_seen (remember r h p) = p_seen p" "known (remember r h p) = known p"
  by (simp_all add: remember_def Let_def known_def)

lemma remember_history: "(k, x) \<in> set (p_history (remember r h p)) \<Longrightarrow> k = Hash h \<and> x = h \<or> (k, x) \<in> set (p_history p)"
  by (auto simp: remember_def Let_def map_set_def map_delete_def split: if_splits)

lemma pump_ok_advance:
  assumes "pump_ok p" "p_path p = h # hs"
  shows "pump_ok (p\<lparr>p_last := h, p_path := hs, passed := passed p @ [h]\<rparr>)"
proof -
  have path: "attached h (known p)" "path_ok (known p @ [h]) hs" using assms by (simp_all add: pump_ok_def)
  have "attached ((passed p @ [h]) ! k) (p_checkpoint p # take k (passed p @ [h]))" if "k < length (passed p @ [h])" for k
    using that assms(1) path(1) by (cases "k < length (passed p)") (auto simp: pump_ok_def known_def nth_append)
  then show ?thesis using assms(1) path(2) by (fastforce simp: pump_ok_def known_def)
qed

lemma pump_ok_remember:
  assumes "pump_ok p" "h \<in> set (known p)" "length sn \<le> dedup_limit"
  shows "pump_ok (remember r h (p\<lparr>p_seen := sn\<rparr>))"
proof -
  let ?q = "remember r h (p\<lparr>p_seen := sn\<rparr>)"
  have "known ?q = known p" by (simp add: known_def)
  moreover have "\<forall>(k, x) \<in> set (p_history ?q). Hash x = k \<and> x \<in> set (known p)"
    using remember_history [of _ _ r h "p\<lparr>p_seen := sn\<rparr>"] assms(1,2) by (fastforce simp: pump_ok_def)
  ultimately show ?thesis using assms(1,3) by (simp add: pump_ok_def)
qed

lemma stream_ok_grows:
  assumes "stream_ok p hs" "Hash h \<notin> set (p_seen p)" "passed q = passed p @ [h]" "p_seen q = Hash h # p_seen p"
  shows "stream_ok q hs" "stream_ok q (hs @ [h])"
  using assms by (auto simp: stream_ok_def intro: list_emb_append_mono subseq_rev_drop_many)

lemma pump_head_ok:
  assumes ok: "session_ok cap s" "s_pump s = Some p" and p: "p_path p = h # hs" "p_out p = []"
  shows "session_ok cap (pump_head r p h hs s)"
proof -
  let ?p1 = "p\<lparr>p_last := h, p_path := hs, passed := passed p @ [h]\<rparr>"
  have p1: "pump_ok ?p1" using pump_ok_advance [OF session_ok_pump [OF ok] p(1)] .
  have snoc: "subseq (passed p) (passed p @ [h])" by (rule subseq_rev_drop_many) simp
  consider (seen) "Hash h \<in> set (p_seen p)" | (full) "Hash h \<notin> set (p_seen p)" "length (p_seen p) \<ge> dedup_limit"
    | (fresh) "Hash h \<notin> set (p_seen p)" "\<not> length (p_seen p) \<ge> dedup_limit" by blast
  then show ?thesis
  proof cases
    case seen
    have "notified (s\<lparr>s_pump := Some ?p1\<rparr>) = notified s" using ok(2) p(2) by (simp add: notified_def)
    then have "session_ok cap (s\<lparr>s_pump := Some ?p1\<rparr>)"
      using session_ok_shrinks [OF ok, of "s\<lparr>s_pump := Some ?p1\<rparr>" ?p1] p1 ok(1) snoc by (simp add: session_ok_def)
    then show ?thesis using seen by (simp add: pump_head_def Let_def)
  next
    case full
    then show ?thesis using session_ok_stopped [OF ok p1] snoc by (simp add: pump_head_def Let_def)
  next
    case fresh
    let ?p2 = "remember r h (?p1\<lparr>p_seen := Hash h # p_seen p\<rparr>)"
    let ?p3 = "?p2\<lparr>p_out := map (\<lambda>i. (i, h)) (sort (s_subs s))\<rparr>"
    let ?s = "s\<lparr>s_pump := Some ?p3\<rparr>"
    have "h \<in> set (known ?p1)" by (simp add: known_def)
    then have p3: "pump_ok ?p3" using pump_ok_remember [OF p1] fresh(2) by simp
    have "notified ?s = notified s @ map (\<lambda>i. (i, h)) (sort (s_subs s))" using ok(2) p(2) by (simp add: notified_def)
    then have stream: "stream_of i ?s = stream_of i s @ (if i \<in> set (s_subs s) then [h] else [])" for i
      using filter_pairs [of "sort (s_subs s)" i h] ok(1) by (simp add: stream_of_def session_ok_def)
    have "stream_ok p (stream_of i s)" for i using ok by (simp add: session_ok_def)
    then have "stream_ok ?p3 (stream_of i ?s)" for i
      unfolding stream using stream_ok_grows [OF _ fresh(1), of _ ?p3] by simp
    then have "session_ok cap ?s" using ok(1) p3 by (simp add: session_ok_def)
    then show ?thesis using fresh by (simp add: pump_head_def Let_def)
  qed
qed

lemma pump_turn_ok:
  assumes "session_ok (we_queueSize env) s" "s_pump s = Some p"
  shows "session_ok (we_queueSize env) (fst (pump_turn env r p s w))"
  using assms
  by (auto simp: pump_turn_def pump_send_ok pump_head_ok pump_event_ok pump_read_ok split: list.splits)

lemma session_ok_popped:
  assumes "session_ok cap s" "s_queue s = m # ms" "s_sent s' = s_sent s @ [m] \<or> s_sent s' = s_sent s"
    and "s_queue s' = ms" "s_pump s' = s_pump s" "s_subs s' = s_subs s"
  shows "session_ok cap s'"
proof -
  let ?rest = "concat (map noted ms) @ (case s_pump s of None \<Rightarrow> [] | Some p \<Rightarrow> p_out p)"
  have "notified s = concat (map noted (s_sent s)) @ noted m @ ?rest" using assms(2) by (simp add: notified_def)
  moreover have "notified s' = concat (map noted (s_sent s)) @ noted m @ ?rest \<or> notified s' = concat (map noted (s_sent s)) @ ?rest"
    using assms(3-5) by (auto simp: notified_def)
  moreover have "subseq ?rest (noted m @ ?rest)" by (rule subseq_drop_many) simp
  ultimately have sub: "subseq (notified s') (notified s)" by (metis subseq_append' subseq_order.order_refl)
  show ?thesis
  proof (cases "s_pump s")
    case None
    then have "notified s' = []" using sub assms(1) by (simp add: session_ok_def)
    then show ?thesis using None assms by (simp add: session_ok_def)
  next
    case (Some p)
    then show ?thesis
      using session_ok_shrinks [OF assms(1) Some, of s' p] session_ok_pump [OF assms(1) Some] sub assms
      by (simp add: session_ok_def)
  qed
qed

lemma ws_step_ok:
  assumes "ws_step env r sw sw'" "session_ok (we_queueSize env) (fst sw)"
  shows "session_ok (we_queueSize env) (fst sw')"
  using assms
proof (induction rule: ws_step.induct)
  case (written s m ms w)
  show ?case by (rule session_ok_popped [of _ s m ms]) (use written in simp_all)
next
  case (unwritten s m ms w)
  show ?case by (rule session_ok_popped [of _ s m ms]) (use unwritten in simp_all)
qed (auto simp: session_ok_frame pump_turn_ok)

lemma ws_reachable_ok: "ws_reachable env r sw \<Longrightarrow> session_ok (we_queueSize env) (fst sw)"
proof (induction rule: ws_reachable.induct)
  case (start w)
  show ?case by (simp add: session_ok_def new_session_def notified_def)
qed (rule ws_step_ok)

text \<open>
  Property C40. A websocket session, in every state that the interleaving of its loops and of the rest of
  the program can reach. At most 128 subscriptions exist and the queue keeps its bound. What one
  subscription was sent, or is queued to be sent, are heads the event loop passed, in that order, no two
  with the same hash; and the loop passed no head over a gap: each one is the child, or a sibling at the
  same height, of a head it knew before, unless the last one it knew was no block at all.
\<close>

theorem session_streams_without_gaps:
  assumes "ws_reachable env r (s, w)"
  shows "length (s_subs s) \<le> 128 \<and> distinct (s_subs s) \<and> length (s_queue s) \<le> we_queueSize env \<and>
    (case s_pump s of
       None \<Rightarrow> notified s = []
     | Some p \<Rightarrow>
         (\<forall>i. subseq (stream_of i s) (passed p) \<and> distinct (map Hash (stream_of i s)))
         \<and> (\<forall>k < length (passed p). attached (passed p ! k) (p_checkpoint p # take k (passed p))))"
  using ws_reachable_ok [OF assms]
  by (auto simp: session_ok_def pump_ok_def stream_ok_def subscription_limit_def split: option.splits)

definition sample_tip :: head where
  "sample_tip = zero_head\<lparr>Chain := ''eth'', Family := ''evm'', Commitment := Latest, Number := 9, Hash := ''0xa'', ObservedAt := 1\<rparr>"

definition sample_ws :: "rpc_response list ws_env" where
  "sample_ws = \<lparr>we_node = sample_env, we_start = (\<lambda>_ w. (Inr \<lparr>eID = ''0-0'', eHead = zero_head\<rparr>, w)),
     we_snapshot = (\<lambda>c w. (Inr \<lparr>sChain = c, sHeads = [Latest \<mapsto> sample_tip]\<rparr>, w)),
     we_read = (\<lambda>_ _ w. (Inr [\<lparr>eID = ''1-1'', eHead = sample_tip\<rparr>], w)), we_random = (\<lambda>w. (Some ''ab'', w)),
     we_type_error = (\<lambda>_. []), we_queueSize = 4\<rparr>"

definition sample_subscribe :: json where
  "sample_subscribe = JObj [(''jsonrpc'', JStr Version), (''id'', JNum ''1''), (''method'', JStr ''eth_subscribe''),
     (''params'', JArr [JStr ''newHeads''])]"

lemma sample_ws_sel [simp]:
  "we_node sample_ws = sample_env" "we_start sample_ws c w = (Inr \<lparr>eID = ''0-0'', eHead = zero_head\<rparr>, w)"
  "we_snapshot sample_ws c w = (Inr \<lparr>sChain = c, sHeads = [Latest \<mapsto> sample_tip]\<rparr>, w)"
  "we_read sample_ws c i w = (Inr [\<lparr>eID = ''1-1'', eHead = sample_tip\<rparr>], w)" "we_random sample_ws w = (Some ''ab'', w)"
  "we_queueSize sample_ws = 4"
  by (simp_all add: sample_ws_def)

lemma sample_tip_sel [simp]: "\<not> ReorgPending sample_tip" "\<not> IsZero sample_tip" "ObservedAt sample_tip = 1"
  by (simp_all add: sample_tip_def IsZero_def)

lemma sample_age: "MaxHeadAge (rt_Config sample_runtime) \<ge> 0" "now_of sample_env w = 1"
  by (simp_all add: sample_runtime_def NewRuntime_def sample_chain_def sample_env_def)

lemma sample_frame:
  "read_frame sample_ws sample_runtime (Inr sample_subscribe) (new_session, w) =
     (new_session\<lparr>s_subs := [''0xab''], s_queue := [Reply (Success (Some (JNum ''1'')) (Some (JStr ''0xab'')))],
        s_pump := Some (new_pump \<lparr>eID = ''0-0'', eHead = zero_head\<rparr>)\<rparr>, w)"
proof -
  have req: "unmarshal_request sample_subscribe = Some \<lparr>JSONRPC = Version, ID = Some (JNum ''1''), Method = ''eth_subscribe'',
      Params = Some (JArr [JStr ''newHeads''])\<rparr>"
    by (simp add: unmarshal_request_def sample_subscribe_def string_field_def raw_field_def struct_values_def EqualFold_def
        ToLower_def to_lower_def decode_raw_def)
  have checkpoint: "read_checkpoint sample_ws sample_runtime w = (Inr \<lparr>eID = ''0-0'', eHead = zero_head\<rparr>, w)"
    using sample_age(1) by (simp add: read_checkpoint_def Let_def Get_def sample_age(2) time_sub_def max_duration_def)
  show ?thesis
    using checkpoint
    by (simp add: read_frame_def req Validate_def Version_def IsNotification_def subscribe_def subscription_kind_def ParseParams_def
        new_session_def add_subscription_def subscription_limit_def subscription_id_def enqueueResponse_def enqueue_def)
qed

theorem session_streams_without_gaps_witness:
  "\<exists>s w. ws_reachable sample_ws sample_runtime (s, w) \<and> stream_of ''0xab'' s = [sample_tip] \<and>
     (\<exists>p. s_pump s = Some p \<and> distinct (map Hash (stream_of ''0xab'' s)))"
proof -
  let ?w = "[] :: rpc_response list"
  let ?p0 = "new_pump \<lparr>eID = ''0-0'', eHead = zero_head\<rparr>"
  let ?s0 = "new_session\<lparr>s_subs := [''0xab''], s_queue := [Reply (Success (Some (JNum ''1'')) (Some (JStr ''0xab'')))],
        s_pump := Some ?p0\<rparr>"
  let ?p1 = "?p0\<lparr>p_todo := [\<lparr>eID = ''1-1'', eHead = sample_tip\<rparr>]\<rparr>"
  let ?p2 = "?p1\<lparr>p_cursor := ''1-1'', p_todo := [], p_path := [sample_tip]\<rparr>"
  let ?s3 = "fst (pump_turn sample_ws sample_runtime ?p2 (?s0\<lparr>s_pump := Some ?p2\<rparr>) ?w)"
  have "ws_reachable sample_ws sample_runtime (read_frame sample_ws sample_runtime (Inr sample_subscribe) (new_session, ?w))"
    by (rule ws_reachable.step [OF ws_reachable.start ws_step.frame]) (simp add: new_session_def)
  then have r0: "ws_reachable sample_ws sample_runtime (?s0, ?w)" unfolding sample_frame .
  have t1: "pump_turn sample_ws sample_runtime ?p0 ?s0 ?w = (?s0\<lparr>s_pump := Some ?p1\<rparr>, ?w)"
    using sample_age(1) by (simp add: pump_turn_def pump_read_def new_pump_def new_session_def Let_def Get_def sample_age(2)
        time_sub_def max_duration_def)
  have r1: "ws_reachable sample_ws sample_runtime (?s0\<lparr>s_pump := Some ?p1\<rparr>, ?w)"
    using ws_reachable.step [OF r0 ws_step.turn [of ?s0 ?p0]] unfolding t1 by simp
  have t2: "pump_turn sample_ws sample_runtime ?p1 (?s0\<lparr>s_pump := Some ?p1\<rparr>) ?w = (?s0\<lparr>s_pump := Some ?p2\<rparr>, ?w)"
    by (simp add: pump_turn_def pump_event_def new_pump_def new_session_def expandPath_def Let_def)
  have r2: "ws_reachable sample_ws sample_runtime (?s0\<lparr>s_pump := Some ?p2\<rparr>, ?w)"
    using ws_reachable.step [OF r1 ws_step.turn [of _ ?p1]] unfolding t2 by simp
  have s3: "snd (pump_turn sample_ws sample_runtime ?p2 (?s0\<lparr>s_pump := Some ?p2\<rparr>) ?w) = ?w"
    "stream_of ''0xab'' ?s3 = [sample_tip]" "s_pump ?s3 \<noteq> None"
    by (simp_all add: pump_turn_def pump_head_def new_pump_def new_session_def dedup_limit_def stream_of_def notified_def Let_def)
  have "ws_reachable sample_ws sample_runtime (pump_turn sample_ws sample_runtime ?p2 (?s0\<lparr>s_pump := Some ?p2\<rparr>) ?w)"
    by (rule ws_reachable.step [OF r2 ws_step.turn]) simp
  then have r3: "ws_reachable sample_ws sample_runtime (?s3, ?w)" using s3(1) by (metis prod.collapse)
  from session_streams_without_gaps [OF r3] s3(2,3) r3 show ?thesis by auto
qed

end
