(* ===== verification/Head_Json.thy ===== *)
theory Head_Json
  imports Head Go_Json
begin

text \<open>
  The JSON of a head, as \<^verbatim>\<open>encoding/json\<close> writes and reads the struct of \<^verbatim>\<open>internal/head/types.go\<close>: the
  form in which the Redis store and the receipt cache keep heads. Decoding starts from the value of the
  variable decoded into. The texts of times are the arguments \<open>show_time\<close> and \<open>read_time\<close>. A text is
  canonical for a head when it has the members that encoding the head gives, in any order.
\<close>

definition head_members :: "(time \<Rightarrow> string) \<Rightarrow> head \<Rightarrow> (string \<times> json) list" where
  "head_members show_time h =
     [(''chain'', JStr (Chain h)), (''family'', JStr (Family h)), (''commitment'', JStr (Commitment h)),
      (''number'', JNum (show_u64 (Number h)))]
     @ (if Hash h = [] then [] else [(''hash'', JStr (Hash h))])
     @ (if ParentHash h = [] then [] else [(''parent_hash'', JStr (ParentHash h))])
     @ [(''generation'', JNum (show_u64 (Generation h))), (''reorg_epoch'', JNum (show_u64 (ReorgEpoch h))),
        (''reorg_pending'', JBool (ReorgPending h)), (''observed_at'', JStr (show_time (ObservedAt h))),
        (''changed_at'', JStr (show_time (ChangedAt h))), (''origin'', JStr (Origin h))]
     @ (case Header h of None \<Rightarrow> [] | Some v \<Rightarrow> [(''header'', v)])"

definition marshal_head :: "(time \<Rightarrow> string) \<Rightarrow> head \<Rightarrow> json" where
  "marshal_head show_time h = JObj (head_members show_time h)"

fun decode_time :: "(string \<Rightarrow> time option) \<Rightarrow> time \<Rightarrow> json \<Rightarrow> time option" where
  "decode_time read_time t JNull = Some t"
| "decode_time read_time t (JStr s) = read_time s"
| "decode_time read_time t _ = None"

definition unmarshal_head_into :: "(string \<Rightarrow> time option) \<Rightarrow> head \<Rightarrow> json \<Rightarrow> head option" where
  "unmarshal_head_into read_time b v =
     Option.bind (struct_members v) (\<lambda>ms.
     Option.bind (fold_field decode_string (Chain b) (struct_values ''chain'' ms)) (\<lambda>chain.
     Option.bind (fold_field decode_string (Family b) (struct_values ''family'' ms)) (\<lambda>family.
     Option.bind (fold_field decode_string (Commitment b) (struct_values ''commitment'' ms)) (\<lambda>commitment.
     Option.bind (fold_field decode_uint (Number b) (struct_values ''number'' ms)) (\<lambda>number.
     Option.bind (fold_field decode_string (Hash b) (struct_values ''hash'' ms)) (\<lambda>hash.
     Option.bind (fold_field decode_string (ParentHash b) (struct_values ''parent_hash'' ms)) (\<lambda>parentHash.
     Option.bind (fold_field decode_uint (Generation b) (struct_values ''generation'' ms)) (\<lambda>generation.
     Option.bind (fold_field decode_uint (ReorgEpoch b) (struct_values ''reorg_epoch'' ms)) (\<lambda>epoch.
     Option.bind (fold_field decode_bool (ReorgPending b) (struct_values ''reorg_pending'' ms)) (\<lambda>pending.
     Option.bind (fold_field (decode_time read_time) (ObservedAt b) (struct_values ''observed_at'' ms)) (\<lambda>observed.
     Option.bind (fold_field (decode_time read_time) (ChangedAt b) (struct_values ''changed_at'' ms)) (\<lambda>changed.
     Option.bind (fold_field decode_string (Origin b) (struct_values ''origin'' ms)) (\<lambda>origin.
     Option.bind (fold_field decode_raw (Header b) (struct_values ''header'' ms)) (\<lambda>header.
       Some \<lparr>Chain = chain, Family = family, Commitment = commitment, Number = number, Hash = hash,
         ParentHash = parentHash, Generation = generation, ReorgEpoch = epoch, ReorgPending = pending,
         ObservedAt = observed, ChangedAt = changed, Origin = origin, Header = header\<rparr>))))))))))))))"

definition unmarshal_head :: "(string \<Rightarrow> time option) \<Rightarrow> json \<Rightarrow> head option" where
  "unmarshal_head read_time v = unmarshal_head_into read_time zero_head v"

lemma ParseUint_show_u64 [simp]: "ParseUint 10 (show_u64 n) = Inr n"
  unfolding show_u64_def by (rule ParseUint_format_uint) simp_all

lemma struct_values_simps:
  "struct_values n [] = []"
  "struct_values n ((k, v) # ms) = (if EqualFold k n then v # struct_values n ms else struct_values n ms)"
  "struct_values n (ms @ ms') = struct_values n ms @ struct_values n ms'"
  by (simp_all add: struct_values_def)

subsection \<open>Texts with the members of a head\<close>

definition canonical :: "(time \<Rightarrow> string) \<Rightarrow> json \<Rightarrow> head \<Rightarrow> bool" where
  "canonical show_time v h \<longleftrightarrow>
     (case v of JObj ms \<Rightarrow> distinct (map fst ms) \<and> set ms = set (head_members show_time h) | _ \<Rightarrow> False)"

lemma canonical_JObj [simp]:
  "canonical show_time (JObj ms) h \<longleftrightarrow> distinct (map fst ms) \<and> set ms = set (head_members show_time h)"
  by (simp add: canonical_def)

lemma canonical_cases: "canonical show_time v h \<Longrightarrow> (\<And>ms. v = JObj ms \<Longrightarrow> distinct (map fst ms) \<Longrightarrow>
    set ms = set (head_members show_time h) \<Longrightarrow> P) \<Longrightarrow> P"
  by (auto simp: canonical_def split: json.splits)

lemma distinct_head_members [simp]: "distinct (map fst (head_members show_time h))"
  by (simp add: head_members_def split: option.splits)

lemma canonical_marshal [simp]: "canonical show_time (marshal_head show_time h) h"
  by (simp add: marshal_head_def)

lemma head_members_lower: "(k, v) \<in> set (head_members show_time h) \<Longrightarrow> ToLower k = k"
  by (auto simp: head_members_def ToLower_def to_lower_def split: if_splits option.splits)

lemma struct_values_lower:
  assumes "distinct (map fst ms)" "\<And>k v. (k, v) \<in> set ms \<Longrightarrow> ToLower k = k" "ToLower name = name"
  shows "struct_values name ms = (case map_of ms name of None \<Rightarrow> [] | Some v \<Rightarrow> [v])"
  using assms
proof (induction ms)
  case (Cons p ms)
  obtain k v where p: "p = (k, v)" by (cases p)
  have fold: "EqualFold k name \<longleftrightarrow> k = name"
    using Cons.prems(2) [of k v] Cons.prems(3) p by (simp add: EqualFold_def)
  have IH: "struct_values name ms = (case map_of ms name of None \<Rightarrow> [] | Some v \<Rightarrow> [v])"
    by (rule Cons.IH) (use Cons.prems in auto)
  have "map_of ms name = None" if "k = name" using Cons.prems(1) p that by (simp add: map_of_eq_None_iff)
  then show ?case using IH p fold by (auto simp: struct_values_simps)
qed (simp add: struct_values_def)

lemma unmarshal_canonical:
  assumes rt: "\<And>t. read_time (show_time t) = Some t" and c: "canonical show_time v h"
  shows "unmarshal_head_into read_time b v = Some (h\<lparr>Hash := (if Hash h = [] then Hash b else Hash h),
     ParentHash := (if ParentHash h = [] then ParentHash b else ParentHash h),
     Header := (case Header h of None \<Rightarrow> Header b | Some x \<Rightarrow> Some x)\<rparr>)"
  using c
proof (rule canonical_cases)
  fix ms assume v: "v = JObj ms" and ms: "distinct (map fst ms)" "set ms = set (head_members show_time h)"
  have "map_of ms = map_of (head_members show_time h)" using ms by (simp add: map_of_inject_set)
  then have field: "struct_values name ms = (case map_of (head_members show_time h) name of None \<Rightarrow> [] | Some v \<Rightarrow> [v])"
    if "ToLower name = name" for name
    using struct_values_lower [OF ms(1) _ that] head_members_lower ms(2) by metis
  show ?thesis
    unfolding v unmarshal_head_into_def
    by (cases h) (auto simp: field ToLower_def to_lower_def head_members_def rt decode_raw_def split: option.splits)
qed

lemma unmarshal_head_canonical:
  "(\<And>t. read_time (show_time t) = Some t) \<Longrightarrow> canonical show_time v h \<Longrightarrow> unmarshal_head read_time v = Some h"
  unfolding unmarshal_head_def
  by (subst unmarshal_canonical [where show_time = show_time and h = h])
    (cases h, auto simp: zero_head_def split: option.splits)+

lemma unmarshal_marshal_head:
  "(\<And>t. read_time (show_time t) = Some t) \<Longrightarrow> unmarshal_head read_time (marshal_head show_time h) = Some h"
  by (rule unmarshal_head_canonical [where show_time = show_time]) simp_all

text \<open>
  The JSON of a head decodes to the head: every field, the omitted empty ones included,
  survives the store of a header in the cache, for texts of times that read back.
\<close>

theorem head_json_roundtrip:
  assumes "\<And>t. read_time (show_time t) = Some t"
  shows "unmarshal_head read_time (marshal_head show_time h) = Some h"
  using assms by (rule unmarshal_marshal_head)

definition sample_show_time :: "time \<Rightarrow> string" where
  "sample_show_time t = (if t < 0 then replicate (nat (- t)) CHR ''n'' else replicate (nat t) CHR ''p'')"

definition sample_read_time :: "string \<Rightarrow> time option" where
  "sample_read_time s = Some (if HasPrefix s ''n'' then - int (length s) else int (length s))"

lemma sample_times: "sample_read_time (sample_show_time t) = Some t"
proof -
  have "t < 0 \<Longrightarrow> HasPrefix (replicate (nat (- t)) CHR ''n'') ''n''"
    by (cases "nat (- t)") (auto simp: HasPrefix_def)
  moreover have "\<not> HasPrefix (replicate n CHR ''p'') ''n''" for n
    by (cases n) (auto simp: HasPrefix_def)
  ultimately show ?thesis
    by (simp add: sample_read_time_def sample_show_time_def)
qed

theorem head_json_roundtrip_witness:
  "unmarshal_head sample_read_time (marshal_head sample_show_time
     (zero_head\<lparr>Hash := ''0xa'', Number := 7, ObservedAt := 3, ChangedAt := - 2\<rparr>)) =
   Some (zero_head\<lparr>Hash := ''0xa'', Number := 7, ObservedAt := 3, ChangedAt := - 2\<rparr>)"
  by (rule head_json_roundtrip) (rule sample_times)

end
