(* ===== verification/Head_Store.thy ===== *)
theory Head_Store
  imports Head
begin

text \<open>
  What the store promises its clients. The locale \<open>fenced_store\<close> is the part of the \<^verbatim>\<open>Store\<close>
  interface the reorg fence rests on: how one operation may change a chain's accepted head. From
  it follow, once for every store, that epochs only move forward and that two equal epochs
  enclose no reorg.
\<close>

datatype store_op =
    OpAcquire string string duration
  | OpRenew string string duration
  | OpRelease string string
  | OpPublish string head
  | OpBeginReorg string string

text \<open>A run of timed operations.\<close>

fun store_run :: "(time \<Rightarrow> store_op \<Rightarrow> 's \<Rightarrow> 's) \<Rightarrow> (time \<times> store_op) list \<Rightarrow> 's \<Rightarrow> 's" where
  "store_run step [] s = s"
| "store_run step ((t, op) # ops) s = store_run step ops (step t op s)"

lemma store_run_append: "store_run step (xs @ ys) s = store_run step ys (store_run step xs s)"
  by (induction step xs s rule: store_run.induct) auto

text \<open>The chain's latest head is published by its EVM coordinator only.\<close>

fun evm_op :: "string \<Rightarrow> store_op \<Rightarrow> bool" where
  "evm_op c (OpPublish tok h) = (Chain h = c \<and> Commitment h = Latest \<longrightarrow> Family h = ''evm'')"
| "evm_op c _ = True"

text \<open>How one operation may change an accepted head: not at all, to a head that acknowledges the
  epoch, or to the same head with the fence raised and the epoch advanced.\<close>

definition fence_step :: "head \<Rightarrow> head \<Rightarrow> bool" where
  "fence_step h h' \<longleftrightarrow>
     h' = h \<or>
     (\<not> ReorgPending h' \<and> ReorgEpoch h' = ReorgEpoch h) \<or>
     (\<not> ReorgPending h \<and> ReorgPending h' \<and> ReorgEpoch h' = ReorgEpoch h + 1)"

text \<open>A store fixes which operations its clients call (\<open>allowed\<close>) and which epochs it can represent
  (\<open>fits\<close>).\<close>

locale fenced_store =
  fixes step :: "time \<Rightarrow> store_op \<Rightarrow> 's \<Rightarrow> 's"
    and accepted :: "'s \<Rightarrow> string \<Rightarrow> head option"
    and allowed :: "string \<Rightarrow> store_op \<Rightarrow> bool"
    and fits :: "nat \<Rightarrow> bool"
  assumes fits_le: "fits n \<Longrightarrow> m \<le> n \<Longrightarrow> fits m"
    and step_fenced:
    "accepted s c = Some h \<Longrightarrow> allowed c op \<Longrightarrow> fits (unat (ReorgEpoch h) + 1) \<Longrightarrow>
       \<exists>h'. accepted (step t op s) c = Some h' \<and> fence_step h h'"
begin

lemma epoch_offset:
  assumes "accepted s c = Some h" "list_all (\<lambda>p. allowed c (snd p)) ops"
    and "fits (unat (ReorgEpoch h) + length ops)"
  shows "\<exists>k h'. k \<le> length ops \<and> accepted (store_run step ops s) c = Some h' \<and>
    ReorgEpoch h' = ReorgEpoch h + of_nat k \<and> (k = 0 \<and> \<not> ReorgPending h \<longrightarrow> \<not> ReorgPending h')"
  using assms
proof (induction ops arbitrary: s h)
  case Nil
  then show ?case by auto
next
  case (Cons p ops)
  obtain t op where p: "p = (t, op)" by (cases p)
  have "fits (unat (ReorgEpoch h) + 1)" by (rule fits_le [OF Cons.prems(3)]) simp
  then obtain h1 where h1: "accepted (step t op s) c = Some h1" "fence_step h h1"
    using step_fenced Cons.prems p by fastforce
  from h1(2) have e: "unat (ReorgEpoch h1) \<le> Suc (unat (ReorgEpoch h))"
    by (auto simp: fence_step_def unat_plus_one_le)
  have "fits (unat (ReorgEpoch h1) + length ops)"
    by (rule fits_le [OF Cons.prems(3)]) (use e in simp)
  then obtain k h' where k: "k \<le> length ops" "accepted (store_run step ops (step t op s)) c = Some h'"
    "ReorgEpoch h' = ReorgEpoch h1 + of_nat k" "k = 0 \<and> \<not> ReorgPending h1 \<longrightarrow> \<not> ReorgPending h'"
    using Cons.IH [OF h1(1)] Cons.prems by auto
  from h1(2) consider "h1 = h" | "\<not> ReorgPending h1" "ReorgEpoch h1 = ReorgEpoch h"
    | "ReorgEpoch h1 = ReorgEpoch h + 1"
    by (auto simp: fence_step_def)
  then show ?case
  proof cases
    case 3
    then show ?thesis using k p by (intro exI [of _ "Suc k"] exI [of _ h']) (auto simp: add.assoc)
  qed (use k p in \<open>intro exI [of _ k] exI [of _ h'], auto\<close>)+
qed

text \<open>Equal epochs, both without a pending reorg, enclose only heads of that epoch that are not
  pending either, whatever the operations in between.\<close>

lemma equal_epochs_no_reorg:
  assumes h: "accepted s c = Some h" "\<not> ReorgPending h"
    and ops: "list_all (\<lambda>p. allowed c (snd p)) (xs @ ys)" "length (xs @ ys) < 2 ^ 64"
    and room: "fits (unat (ReorgEpoch h) + length (xs @ ys))"
    and h': "accepted (store_run step (xs @ ys) s) c = Some h'" "ReorgEpoch h' = ReorgEpoch h"
  shows "\<exists>m. accepted (store_run step xs s) c = Some m \<and> ReorgEpoch m = ReorgEpoch h \<and> \<not> ReorgPending m"
proof -
  have "fits (unat (ReorgEpoch h) + length xs)" by (rule fits_le [OF room]) simp
  then obtain j m where m: "j \<le> length xs" "accepted (store_run step xs s) c = Some m"
    "ReorgEpoch m = ReorgEpoch h + of_nat j" "j = 0 \<and> \<not> ReorgPending h \<longrightarrow> \<not> ReorgPending m"
    using epoch_offset [OF h(1)] ops by fastforce
  have "unat (ReorgEpoch m) \<le> unat (ReorgEpoch h) + length xs"
    using m(1,3) unat_plus_of_nat_le [of "ReorgEpoch h" j] by simp
  then have "fits (unat (ReorgEpoch m) + length ys)" by (intro fits_le [OF room]) simp
  then obtain k where k: "k \<le> length ys" "ReorgEpoch h' = ReorgEpoch m + of_nat k"
    using epoch_offset [OF m(2), of ys] ops h'(1) by (auto simp: store_run_append)
  have "of_nat (j + k) = (0 :: u64)" using k m h'(2) by (simp add: add.assoc)
  moreover have "j + k < 2 ^ 64" using m(1) k(1) ops(2) by simp
  ultimately have "j + k = 0"
    using of_nat_u64_eq_0 by blast
  then show ?thesis using m h(2) by auto
qed

end

end
