(* ===== verification/Redis_Store.thy ===== *)
theory Redis_Store
  imports Head_Json Head_Store
begin

text \<open>
  The store that replicas share, \<^verbatim>\<open>internal/head/redis.go\<close>: its five Lua scripts and the methods of
  \<^verbatim>\<open>RedisStore\<close>. The Redis server is the record \<open>redis\<close> of the commands used, over a world that holds the
  server and everything else; \<open>cjson\<close> and the numbers of Lua are the record \<open>lua_lib\<close>. A script runs
  without interruption on the server, so it is one function of the world. A command may fail, which ends
  the script that calls it; what the script did before stays. The client may send a command again when its
  answer is lost (\<open>run_script\<close>). The text of a value is the JSON value it denotes, \<open>None\<close> for a text that
  is none.
\<close>

subsection \<open>Commands and scripts\<close>

datatype redis_error = RedisNil | RedisError string

type_synonym ('w, 'a) cmd = "'w \<Rightarrow> (redis_error + 'a) \<times> 'w"

definition return_cmd :: "'a \<Rightarrow> ('w, 'a) cmd" where
  "return_cmd x w = (Inr x, w)"

definition then_cmd :: "('w, 'a) cmd \<Rightarrow> ('a \<Rightarrow> ('w, 'b) cmd) \<Rightarrow> ('w, 'b) cmd" where
  "then_cmd c f w = (case c w of (Inl e, w') \<Rightarrow> (Inl e, w') | (Inr x, w') \<Rightarrow> f x w')"

text \<open>A computation of the script language, which raises an error when it is undefined.\<close>

definition lua_cmd :: "'a option \<Rightarrow> ('w, 'a) cmd" where
  "lua_cmd r w = (case r of None \<Rightarrow> (Inl (RedisError ''script error''), w) | Some x \<Rightarrow> (Inr x, w))"

text \<open>Messages of a stream: the \<^verbatim>\<open>head\<close> field is absent or a text.\<close>

record xmessage =
  ID :: string
  head_value :: "raw option"

datatype attempt = NotSent | Unanswered | Answered

record 'w redis =
  EXISTS :: "string \<Rightarrow> ('w, bool) cmd"
  GET :: "string \<Rightarrow> ('w, string option) cmd"
  INCR :: "string \<Rightarrow> ('w, int) cmd"
  PSETEX :: "string \<Rightarrow> int \<Rightarrow> string \<Rightarrow> ('w, unit) cmd"
  PEXPIRE :: "string \<Rightarrow> int \<Rightarrow> ('w, unit) cmd"
  DEL :: "string \<Rightarrow> ('w, int) cmd"
  HGET :: "string \<Rightarrow> string \<Rightarrow> ('w, raw option) cmd"
  HSET :: "string \<Rightarrow> string \<Rightarrow> json \<Rightarrow> ('w, unit) cmd"
  HGETALL :: "string \<Rightarrow> ('w, (string \<times> raw) list) cmd"
  XADD :: "string \<Rightarrow> int \<Rightarrow> json \<Rightarrow> ('w, unit) cmd"
  XREVRANGE :: "string \<Rightarrow> ('w, xmessage list) cmd"
  XREAD :: "string \<Rightarrow> string \<Rightarrow> int \<Rightarrow> duration \<Rightarrow> ('w, (string \<times> xmessage list) list) cmd"
  XRANGE :: "string \<Rightarrow> string \<Rightarrow> ('w, xmessage list) cmd"
  PING :: "('w, unit) cmd"
  link :: "'w \<Rightarrow> attempt list \<times> 'w"
  meanwhile :: "'w \<Rightarrow> 'w"

text \<open>The client sends a command until it is answered; between two attempts the world moves on.\<close>

fun run_attempts :: "('w \<Rightarrow> 'w) \<Rightarrow> ('w, 'a) cmd \<Rightarrow> attempt list \<Rightarrow> ('w, 'a) cmd" where
  "run_attempts idle c [] w = (Inl (RedisError ''connection''), w)"
| "run_attempts idle c (NotSent # as) w = run_attempts idle c as (idle w)"
| "run_attempts idle c (Unanswered # as) w = run_attempts idle c as (idle (snd (c w)))"
| "run_attempts idle c (Answered # as) w = c w"

definition run_script :: "'w redis \<Rightarrow> ('w, 'a) cmd \<Rightarrow> ('w, 'a) cmd" where
  "run_script R c w = (case link R w of (as, w1) \<Rightarrow> run_attempts (meanwhile R) c as w1)"

subsection \<open>Values of the scripts\<close>

text \<open>Lua's nil is \<open>LNil\<close>, the null of \<open>cjson\<close> is \<open>LNull\<close>; a decoded object is a table of its members.\<close>

datatype 'n lua =
    LNil
  | LNull
  | LBool bool
  | LNum 'n
  | LStr string
  | LTable "(string \<times> 'n lua) list"
  | LArray "'n lua list"

record 'n lua_lib =
  lua_int :: "int \<Rightarrow> 'n"
  lua_plus :: "'n \<Rightarrow> 'n \<Rightarrow> 'n"
  lua_tonumber :: "string \<Rightarrow> 'n option"
  lua_tostring :: "'n \<Rightarrow> string"
  lua_trunc :: "'n \<Rightarrow> int"
  cj_decode :: "json \<Rightarrow> 'n lua option"
  cj_encode :: "'n lua \<Rightarrow> json option"

fun lua_true :: "'n lua \<Rightarrow> bool" where
  "lua_true LNil = False"
| "lua_true (LBool b) = b"
| "lua_true _ = True"

definition lua_or :: "'n lua \<Rightarrow> 'n lua \<Rightarrow> 'n lua" where
  "lua_or a b = (if lua_true a then a else b)"

text \<open>Tables are equal only to themselves; the scripts compare values of different tables.\<close>

fun lua_eq :: "'n lua \<Rightarrow> 'n lua \<Rightarrow> bool" where
  "lua_eq (LTable _) _ = False"
| "lua_eq (LArray _) _ = False"
| "lua_eq a b = (a = b)"

text \<open>Indexing with a name; numbers, booleans, nil and null cannot be indexed.\<close>

fun lua_index :: "'n lua \<Rightarrow> string \<Rightarrow> 'n lua option" where
  "lua_index (LTable t) k = Some (case map_of t k of None \<Rightarrow> LNil | Some v \<Rightarrow> v)"
| "lua_index (LArray _) k = Some LNil"
| "lua_index (LStr _) k = Some LNil"
| "lua_index _ k = None"

text \<open>Only tables of decoded objects are assigned to; assigning nil removes the member.\<close>

fun lua_assign :: "'n lua \<Rightarrow> string \<Rightarrow> 'n lua \<Rightarrow> 'n lua option" where
  "lua_assign (LTable t) k v = Some (LTable (if v = LNil then map_delete k t else map_set k v t))"
| "lua_assign _ k v = None"

fun lua_number :: "'n lua_lib \<Rightarrow> 'n lua \<Rightarrow> 'n option" where
  "lua_number L (LNum n) = Some n"
| "lua_number L (LStr s) = lua_tonumber L s"
| "lua_number L _ = None"

text \<open>The arguments of a command are strings or numbers.\<close>

fun lua_argument :: "'n lua_lib \<Rightarrow> 'n lua \<Rightarrow> string option" where
  "lua_argument L (LStr s) = Some s"
| "lua_argument L (LNum n) = Some (lua_tostring L n)"
| "lua_argument L _ = None"

abbreviation lua_zero :: "'n lua_lib \<Rightarrow> 'n lua" where
  "lua_zero L \<equiv> LNum (lua_int L 0)"

definition decode_text :: "'n lua_lib \<Rightarrow> raw \<Rightarrow> 'n lua option" where
  "decode_text L str = Option.bind str (cj_decode L)"

text \<open>Replies: the elements of a returned table up to the first nil.\<close>

datatype redis_reply = RInt int | RBulk string | RText raw | RNil | RTable

fun lua_reply :: "'n lua_lib \<Rightarrow> 'n lua \<Rightarrow> redis_reply" where
  "lua_reply L (LNum n) = RInt (lua_trunc L n)"
| "lua_reply L (LStr s) = RBulk s"
| "lua_reply L (LBool b) = (if b then RInt 1 else RNil)"
| "lua_reply L (LTable _) = RTable"
| "lua_reply L (LArray _) = RTable"
| "lua_reply L _ = RNil"

definition reply_pair :: "'n lua_lib \<Rightarrow> 'n lua \<Rightarrow> raw \<Rightarrow> redis_reply list" where
  "reply_pair L v str = (if v = LNil then [] else [lua_reply L v, RText str])"

subsection \<open>The scripts\<close>

definition acquire_script :: "'n lua_lib \<Rightarrow> 'w redis \<Rightarrow> string \<Rightarrow> string \<Rightarrow> string \<Rightarrow> int \<Rightarrow> ('w, redis_reply list) cmd" where
  "acquire_script L R leader fence owner ttl =
     then_cmd (EXISTS R leader) (\<lambda>held.
     if held then return_cmd [RInt 0, RBulk []]
     else then_cmd (INCR R fence) (\<lambda>n.
          let tok = owner @ '':'' @ lua_tostring L (lua_int L n) in
          then_cmd (PSETEX R leader ttl tok) (\<lambda>_. return_cmd [RInt 1, RBulk tok])))"

definition renew_script :: "'w redis \<Rightarrow> string \<Rightarrow> string \<Rightarrow> int \<Rightarrow> ('w, int) cmd" where
  "renew_script R leader tok ttl =
     then_cmd (GET R leader) (\<lambda>held.
     if held \<noteq> Some tok then return_cmd 0
     else then_cmd (PEXPIRE R leader ttl) (\<lambda>_. return_cmd 1))"

definition release_script :: "'w redis \<Rightarrow> string \<Rightarrow> string \<Rightarrow> ('w, int) cmd" where
  "release_script R leader tok =
     then_cmd (GET R leader) (\<lambda>held. if held = Some tok then DEL R leader else return_cmd 0)"

definition script_fenced :: "'n lua_lib \<Rightarrow> 'n lua \<Rightarrow> raw option \<Rightarrow> bool option" where
  "script_fenced L incoming currentRaw =
     Option.bind (lua_index incoming ''family'') (\<lambda>family.
     Option.bind (lua_index incoming ''commitment'') (\<lambda>commitment.
     if lua_eq family (LStr ''evm'') \<and> lua_eq commitment (LStr ''latest'')
     then
       Option.bind (case currentRaw of
           None \<Rightarrow> Some (lua_zero L)
         | Some str \<Rightarrow> Option.bind (decode_text L str) (\<lambda>current.
             map_option (\<lambda>e. lua_or e (lua_zero L)) (lua_index current ''reorg_epoch''))) (\<lambda>epoch.
       Option.bind (lua_index incoming ''reorg_pending'') (\<lambda>pending.
       Option.bind (lua_index incoming ''reorg_epoch'') (\<lambda>e.
         Some (lua_true pending \<or> \<not> lua_eq (lua_or e (lua_zero L)) epoch))))
     else Some False))"

definition script_same :: "'n lua \<Rightarrow> 'n lua \<Rightarrow> bool option" where
  "script_same incoming current =
     Option.bind (lua_index incoming ''hash'') (\<lambda>hash.
     if lua_true hash \<and> \<not> lua_eq hash (LStr [])
     then map_option (\<lambda>h. lua_eq h hash) (lua_index current ''hash'')
     else Option.bind (lua_index incoming ''number'') (\<lambda>n.
          map_option (\<lambda>m. lua_eq m n) (lua_index current ''number'')))"

text \<open>The current head when the incoming one is the same block.\<close>

definition script_current :: "'n lua_lib \<Rightarrow> 'n lua \<Rightarrow> raw option \<Rightarrow> 'n lua option option" where
  "script_current L incoming currentRaw =
     (case currentRaw of
        None \<Rightarrow> Some None
      | Some str \<Rightarrow> Option.bind (decode_text L str) (\<lambda>current.
          map_option (\<lambda>same. if same then Some current else None) (script_same incoming current)))"

definition script_refresh :: "'n lua_lib \<Rightarrow> 'n lua \<Rightarrow> 'n lua \<Rightarrow> ('n lua \<times> json) option" where
  "script_refresh L incoming current =
     Option.bind (lua_index current ''generation'') (\<lambda>generation.
     Option.bind (lua_assign incoming ''generation'' generation) (\<lambda>incoming1.
     Option.bind (lua_index current ''changed_at'') (\<lambda>changed.
     Option.bind (if lua_true changed then lua_assign incoming1 ''changed_at'' changed else Some incoming1) (\<lambda>incoming2.
     map_option (\<lambda>str. (generation, str)) (cj_encode L incoming2)))))"

definition publish_fresh :: "'n lua_lib \<Rightarrow> 'w redis \<Rightarrow> string \<Rightarrow> string \<Rightarrow> string \<Rightarrow> int \<Rightarrow> 'n lua \<Rightarrow> string
    \<Rightarrow> ('w, redis_reply list) cmd" where
  "publish_fresh L R heads generations events streamMax incoming commitment =
     then_cmd (INCR R generations) (\<lambda>generation.
     then_cmd (lua_cmd (Option.bind (lua_assign incoming ''generation'' (LNum (lua_int L generation))) (cj_encode L))) (\<lambda>encoded.
     then_cmd (HSET R heads commitment encoded) (\<lambda>_.
     then_cmd (lua_cmd (Option.bind (lua_index incoming ''family'') (\<lambda>family.
         map_option (\<lambda>c. lua_eq family (LStr ''evm'') \<and> lua_eq c (LStr ''latest'')) (lua_index incoming ''commitment'')))) (\<lambda>evm.
     then_cmd (if evm then XADD R events streamMax encoded else return_cmd ()) (\<lambda>_.
       return_cmd [RInt generation, RText (Some encoded)])))))"

definition publish_refresh :: "'n lua_lib \<Rightarrow> 'w redis \<Rightarrow> string \<Rightarrow> 'n lua \<Rightarrow> string \<Rightarrow> 'n lua \<Rightarrow> ('w, redis_reply list) cmd" where
  "publish_refresh L R heads incoming commitment current =
     then_cmd (lua_cmd (script_refresh L incoming current)) (\<lambda>(generation, refreshed).
     then_cmd (HSET R heads commitment refreshed) (\<lambda>_.
       return_cmd (reply_pair L generation (Some refreshed))))"

definition publish_incoming :: "'n lua_lib \<Rightarrow> 'w redis \<Rightarrow> string \<Rightarrow> string \<Rightarrow> string \<Rightarrow> int \<Rightarrow> 'n lua \<Rightarrow> string
    \<Rightarrow> ('w, redis_reply list) cmd" where
  "publish_incoming L R heads generations events streamMax incoming commitment =
     then_cmd (HGET R heads commitment) (\<lambda>currentRaw.
     then_cmd (lua_cmd (script_fenced L incoming currentRaw)) (\<lambda>fenced.
     if fenced then return_cmd [RInt (- 2), RBulk []]
     else
       then_cmd (lua_cmd (script_current L incoming currentRaw)) (\<lambda>same.
       case same of
         Some current \<Rightarrow> publish_refresh L R heads incoming commitment current
       | None \<Rightarrow> publish_fresh L R heads generations events streamMax incoming commitment)))"

definition publish_script :: "'n lua_lib \<Rightarrow> 'w redis \<Rightarrow> string \<Rightarrow> string \<Rightarrow> string \<Rightarrow> string \<Rightarrow> string \<Rightarrow> json \<Rightarrow> int
    \<Rightarrow> ('w, redis_reply list) cmd" where
  "publish_script L R leader heads generations events tok arg streamMax =
     then_cmd (GET R leader) (\<lambda>held.
     if held \<noteq> Some tok then return_cmd [RInt (- 1), RBulk []]
     else
       then_cmd (lua_cmd (cj_decode L arg)) (\<lambda>incoming.
       then_cmd (lua_cmd (Option.bind (lua_index incoming ''commitment'') (lua_argument L))) (\<lambda>commitment.
         publish_incoming L R heads generations events streamMax incoming commitment)))"

definition script_raise :: "'n lua_lib \<Rightarrow> 'n lua \<Rightarrow> json option" where
  "script_raise L current =
     Option.bind (lua_index current ''reorg_epoch'') (\<lambda>e.
     Option.bind (lua_number L (lua_or e (lua_zero L))) (\<lambda>n.
     Option.bind (lua_assign current ''reorg_epoch'' (LNum (lua_plus L n (lua_int L 1)))) (\<lambda>current1.
     Option.bind (lua_assign current1 ''reorg_pending'' (LBool True)) (cj_encode L))))"

definition reorg_decoded :: "'n lua_lib \<Rightarrow> 'w redis \<Rightarrow> string \<Rightarrow> raw \<Rightarrow> 'n lua \<Rightarrow> ('w, redis_reply list) cmd" where
  "reorg_decoded L R heads str current =
     then_cmd (lua_cmd (lua_index current ''family'')) (\<lambda>family.
     if \<not> lua_eq family (LStr ''evm'') then return_cmd [RInt (- 2), RBulk []]
     else
       then_cmd (lua_cmd (lua_index current ''reorg_pending'')) (\<lambda>pending.
       if \<not> lua_true pending
       then then_cmd (lua_cmd (script_raise L current)) (\<lambda>raised.
            then_cmd (HSET R heads ''latest'' raised) (\<lambda>_.
              return_cmd [RInt 1, RText (Some raised)]))
       else return_cmd [RInt 1, RText str]))"

definition reorg_script :: "'n lua_lib \<Rightarrow> 'w redis \<Rightarrow> string \<Rightarrow> string \<Rightarrow> string \<Rightarrow> ('w, redis_reply list) cmd" where
  "reorg_script L R leader heads tok =
     then_cmd (GET R leader) (\<lambda>held.
     if held \<noteq> Some tok then return_cmd [RInt (- 1), RBulk []]
     else
       then_cmd (HGET R heads ''latest'') (\<lambda>found.
       case found of
         None \<Rightarrow> return_cmd [RInt (- 2), RBulk []]
       | Some str \<Rightarrow> then_cmd (lua_cmd (decode_text L str)) (reorg_decoded L R heads str)))"

subsection \<open>The methods\<close>

record redis_store =
  prefix :: string
  streamMax :: int

datatype redis_store_error =
    Sentinel store_error
  | Wrapped string redis_error
  | InvalidReply string
  | UndecodableHead string

record redis_options =
  redis_URL :: string
  redis_KeyPrefix :: string
  redis_StreamMaxLength :: int

definition NewRedisStore :: "(string \<Rightarrow> bool) \<Rightarrow> redis_options \<Rightarrow> redis_store_error + redis_store" where
  "NewRedisStore parses options =
     (if \<not> parses (redis_URL options) then Inl (InvalidReply ''parse redis url'')
      else Inr \<lparr>prefix = redis_KeyPrefix options, streamMax = redis_StreamMaxLength options\<rparr>)"

definition redis_key :: "redis_store \<Rightarrow> string \<Rightarrow> string \<Rightarrow> string" where
  "redis_key r chain suffix = prefix r @ '':{'' @ chain @ ''}:'' @ suffix"

definition RedisStore_Ping :: "'w redis \<Rightarrow> 'w \<Rightarrow> (redis_store_error + unit) \<times> 'w" where
  "RedisStore_Ping R w =
     (case run_script R (PING R) w of
        (Inl e, w') \<Rightarrow> (Inl (Wrapped ''ping redis'' e), w')
      | (Inr u, w') \<Rightarrow> (Inr u, w'))"

definition acquire_answer :: "string \<Rightarrow> redis_reply list \<Rightarrow> redis_store_error + string \<times> bool" where
  "acquire_answer chain response =
     (let what = ''acquire redis leadership for '' @ chain in
      case response of
        [flag, tok] \<Rightarrow>
          (case flag of
             RInt acquired \<Rightarrow>
               (case tok of
                  RBulk s \<Rightarrow> Inr (s, acquired = 1)
                | _ \<Rightarrow> Inl (InvalidReply (what @ '': invalid fencing token'')))
           | _ \<Rightarrow> Inl (InvalidReply (what @ '': invalid acquisition flag'')))
      | _ \<Rightarrow> Inl (InvalidReply (what @ '': invalid script response'')))"

definition RedisStore_Acquire :: "'n lua_lib \<Rightarrow> 'w redis \<Rightarrow> redis_store \<Rightarrow> string \<Rightarrow> string \<Rightarrow> duration \<Rightarrow> 'w
    \<Rightarrow> (redis_store_error + string \<times> bool) \<times> 'w" where
  "RedisStore_Acquire L R r chain owner ttl w =
     (case run_script R (acquire_script L R (redis_key r chain ''leader'') (redis_key r chain ''fence'') owner
         (go_quot ttl Millisecond)) w of
        (Inl e, w') \<Rightarrow> (Inl (Wrapped (''acquire redis leadership for '' @ chain) e), w')
      | (Inr response, w') \<Rightarrow> (acquire_answer chain response, w'))"

definition RedisStore_Renew :: "'w redis \<Rightarrow> redis_store \<Rightarrow> string \<Rightarrow> string \<Rightarrow> duration \<Rightarrow> 'w
    \<Rightarrow> (redis_store_error + bool) \<times> 'w" where
  "RedisStore_Renew R r chain tok ttl w =
     (case run_script R (renew_script R (redis_key r chain ''leader'') tok (go_quot ttl Millisecond)) w of
        (Inl e, w') \<Rightarrow> (Inl (Wrapped (''renew redis leadership for '' @ chain) e), w')
      | (Inr renewed, w') \<Rightarrow> (Inr (renewed = 1), w'))"

definition RedisStore_Release :: "'w redis \<Rightarrow> redis_store \<Rightarrow> string \<Rightarrow> string \<Rightarrow> 'w
    \<Rightarrow> (redis_store_error + unit) \<times> 'w" where
  "RedisStore_Release R r chain tok w =
     (case run_script R (release_script R (redis_key r chain ''leader'') tok) w of
        (Inl e, w') \<Rightarrow> (Inl (Wrapped (''release redis leadership for '' @ chain) e), w')
      | (Inr _, w') \<Rightarrow> (Inr (), w'))"

text \<open>An element of a reply as the text of a head; a bulk string that is no JSON text does not decode.\<close>

fun reply_text :: "redis_reply \<Rightarrow> raw option" where
  "reply_text (RText v) = Some v"
| "reply_text (RBulk s) = Some None"
| "reply_text _ = None"

definition publish_answer :: "(string \<Rightarrow> time option) \<Rightarrow> head \<Rightarrow> redis_reply list \<Rightarrow> redis_store_error + head" where
  "publish_answer read_time h response =
     (let what = ''publish accepted head for '' @ Chain h in
      case response of
        [status, refreshed] \<Rightarrow>
          (case status of
             RInt generation \<Rightarrow>
               if generation = - 1 then Inl (Sentinel ErrLeadershipLost)
               else if generation = - 2 then Inl (Sentinel ErrReorgFence)
               else
                 (case reply_text refreshed of
                    None \<Rightarrow> Inl (InvalidReply (what @ '': invalid encoded head''))
                  | Some str \<Rightarrow>
                      (case Option.bind str (unmarshal_head_into read_time h) of
                         None \<Rightarrow> Inl (UndecodableHead (''decode published head for '' @ Chain h))
                       | Some h' \<Rightarrow> Inr h'))
           | _ \<Rightarrow> Inl (InvalidReply (what @ '': invalid generation'')))
      | _ \<Rightarrow> Inl (InvalidReply (what @ '': invalid script response'')))"

definition changed_default :: "head \<Rightarrow> head" where
  "changed_default h = (if IsZeroTime (ChangedAt h) then h\<lparr>ChangedAt := ObservedAt h\<rparr> else h)"

definition publish_of :: "'n lua_lib \<Rightarrow> 'w redis \<Rightarrow> redis_store \<Rightarrow> (time \<Rightarrow> string) \<Rightarrow> string \<Rightarrow> head
    \<Rightarrow> ('w, redis_reply list) cmd" where
  "publish_of L R r show_time tok h =
     publish_script L R (redis_key r (Chain h) ''leader'') (redis_key r (Chain h) ''heads'')
       (redis_key r (Chain h) ''generation'') (redis_key r (Chain h) ''events'') tok
       (marshal_head show_time (changed_default h)) (streamMax r)"

definition RedisStore_Publish :: "'n lua_lib \<Rightarrow> 'w redis \<Rightarrow> redis_store \<Rightarrow> (time \<Rightarrow> string) \<Rightarrow> (string \<Rightarrow> time option)
    \<Rightarrow> string \<Rightarrow> head \<Rightarrow> 'w \<Rightarrow> (redis_store_error + head) \<times> 'w" where
  "RedisStore_Publish L R r show_time read_time tok h w =
     (case run_script R (publish_of L R r show_time tok h) w of
        (Inl e, w') \<Rightarrow> (Inl (Wrapped (''publish accepted head for '' @ Chain h) e), w')
      | (Inr response, w') \<Rightarrow> (publish_answer read_time (changed_default h) response, w'))"

definition reorg_answer :: "(string \<Rightarrow> time option) \<Rightarrow> redis_reply list \<Rightarrow> redis_store_error + head" where
  "reorg_answer read_time response =
     (case response of
        [first, second] \<Rightarrow>
          (case first of
             RInt status \<Rightarrow>
               if status = - 1 then Inl (Sentinel ErrLeadershipLost)
               else if status = - 2 then Inl (Sentinel ErrReorgFence)
               else
                 (case reply_text second of
                    None \<Rightarrow> Inl (InvalidReply ''invalid redis reorg head'')
                  | Some str \<Rightarrow>
                      if status \<noteq> 1 then Inl (InvalidReply ''invalid redis reorg head'')
                      else
                        (case Option.bind str (unmarshal_head read_time) of
                           None \<Rightarrow> Inl (UndecodableHead ''decode redis reorg head'')
                         | Some h \<Rightarrow> Inr h))
           | _ \<Rightarrow> Inl (InvalidReply ''invalid redis reorg status''))
      | _ \<Rightarrow> Inl (InvalidReply ''invalid redis reorg response''))"

definition reorg_of :: "'n lua_lib \<Rightarrow> 'w redis \<Rightarrow> redis_store \<Rightarrow> string \<Rightarrow> string \<Rightarrow> ('w, redis_reply list) cmd" where
  "reorg_of L R r chain tok =
     reorg_script L R (redis_key r chain ''leader'') (redis_key r chain ''heads'') tok"

definition RedisStore_BeginReorg :: "'n lua_lib \<Rightarrow> 'w redis \<Rightarrow> redis_store \<Rightarrow> (string \<Rightarrow> time option)
    \<Rightarrow> string \<Rightarrow> string \<Rightarrow> 'w \<Rightarrow> (redis_store_error + head) \<times> 'w" where
  "RedisStore_BeginReorg L R r read_time chain tok w =
     (case run_script R (reorg_of L R r chain tok) w of
        (Inl e, w') \<Rightarrow> (Inl (Wrapped (''begin redis reorg for '' @ chain) e), w')
      | (Inr response, w') \<Rightarrow> (reorg_answer read_time response, w'))"

text \<open>The members of a hash reply become the entries of the snapshot; one that does not decode fails it.\<close>

fun decode_heads :: "(string \<Rightarrow> time option) \<Rightarrow> (string \<times> raw) list \<Rightarrow> (string \<times> head) list option" where
  "decode_heads read_time [] = Some []"
| "decode_heads read_time ((commitment, str) # ms) =
     Option.bind (Option.bind str (unmarshal_head read_time)) (\<lambda>h.
       map_option ((#) (commitment, h)) (decode_heads read_time ms))"

definition RedisStore_Snapshot :: "'w redis \<Rightarrow> redis_store \<Rightarrow> (string \<Rightarrow> time option) \<Rightarrow> string \<Rightarrow> 'w
    \<Rightarrow> (redis_store_error + snapshot) \<times> 'w" where
  "RedisStore_Snapshot R r read_time chain w =
     (case run_script R (HGETALL R (redis_key r chain ''heads'')) w of
        (Inl e, w') \<Rightarrow> (Inl (Wrapped (''read redis head snapshot for '' @ chain) e), w')
      | (Inr ms, w') \<Rightarrow>
          (case decode_heads read_time ms of
             None \<Rightarrow> (Inl (UndecodableHead ''decode head''), w')
           | Some heads \<Rightarrow> (Inr \<lparr>sChain = chain, sHeads = map_of heads\<rparr>, w')))"

definition getEvent :: "(string \<Rightarrow> time option) \<Rightarrow> xmessage \<Rightarrow> redis_store_error + event" where
  "getEvent read_time m =
     (case head_value m of
        None \<Rightarrow> Inl (InvalidReply ''head stream event has no encoded header'')
      | Some str \<Rightarrow>
          (case Option.bind str (unmarshal_head read_time) of
             None \<Rightarrow> Inl (UndecodableHead (''decode redis head event '' @ ID m))
           | Some h \<Rightarrow> Inr \<lparr>eID = ID m, eHead = h\<rparr>))"

definition RedisStore_StreamStart :: "'w redis \<Rightarrow> redis_store \<Rightarrow> (string \<Rightarrow> time option) \<Rightarrow> string \<Rightarrow> 'w
    \<Rightarrow> (redis_store_error + event) \<times> 'w" where
  "RedisStore_StreamStart R r read_time chain w =
     (case run_script R (XREVRANGE R (redis_key r chain ''events'')) w of
        (Inl RedisNil, w') \<Rightarrow> (Inr \<lparr>eID = ''0-0'', eHead = zero_head\<rparr>, w')
      | (Inl e, w') \<Rightarrow> (Inl (Wrapped (''read redis stream cursor for '' @ chain) e), w')
      | (Inr [], w') \<Rightarrow> (Inr \<lparr>eID = ''0-0'', eHead = zero_head\<rparr>, w')
      | (Inr (m # ms), w') \<Rightarrow> (getEvent read_time m, w'))"

text \<open>The cursor is returned beside the error; on an error it is the empty string.\<close>

definition RedisStore_StreamCursor :: "'w redis \<Rightarrow> redis_store \<Rightarrow> (string \<Rightarrow> time option) \<Rightarrow> string \<Rightarrow> 'w
    \<Rightarrow> (redis_store_error + string) \<times> 'w" where
  "RedisStore_StreamCursor R r read_time chain w =
     (case RedisStore_StreamStart R r read_time chain w of
        (Inl e, w') \<Rightarrow> (Inl e, w')
      | (Inr checkpoint, w') \<Rightarrow> (Inr (eID checkpoint), w'))"

fun get_events :: "(string \<Rightarrow> time option) \<Rightarrow> xmessage list \<Rightarrow> redis_store_error + event list" where
  "get_events read_time [] = Inr []"
| "get_events read_time (m # ms) =
     (case getEvent read_time m of
        Inl e \<Rightarrow> Inl e
      | Inr event \<Rightarrow> (case get_events read_time ms of Inl e \<Rightarrow> Inl e | Inr events \<Rightarrow> Inr (event # events)))"

definition read_result :: "(string \<Rightarrow> time option) \<Rightarrow> string \<Rightarrow> redis_error + (string \<times> xmessage list) list
    \<Rightarrow> redis_store_error + event list" where
  "read_result read_time chain streams =
     (case streams of
        Inl RedisNil \<Rightarrow> Inr []
      | Inl e \<Rightarrow> Inl (Wrapped (''read redis head events for '' @ chain) e)
      | Inr ss \<Rightarrow> get_events read_time (concat (map snd ss)))"

definition RedisStore_ReadEvents :: "'w redis \<Rightarrow> redis_store \<Rightarrow> (string \<Rightarrow> time option) \<Rightarrow> string \<Rightarrow> string \<Rightarrow> duration
    \<Rightarrow> int \<Rightarrow> 'w \<Rightarrow> (redis_store_error + event list) \<times> 'w" where
  "RedisStore_ReadEvents R r read_time chain afterCursor blockTimeout count w =
     (let key = redis_key r chain ''events'';
          (streams, w1) = run_script R (XREAD R key afterCursor count blockTimeout) w
      in
      case streams of
        Inl (RedisError e) \<Rightarrow> (Inl (Wrapped (''read redis head events for '' @ chain) (RedisError e)), w1)
      | _ \<Rightarrow>
          if afterCursor \<noteq> ''0-0''
          then
            (case run_script R (XRANGE R key afterCursor) w1 of
               (Inl e, w2) \<Rightarrow> (Inl (Wrapped ''check stream retention'' e), w2)
             | (Inr [], w2) \<Rightarrow> (Inl (Sentinel ErrStreamGap), w2)
             | (Inr (m # ms), w2) \<Rightarrow> (read_result read_time chain streams, w2))
          else (read_result read_time chain streams, w1))"

lemmas cmd_defs = then_cmd_def return_cmd_def lua_cmd_def

end
