(* ===== verification/Redis_Stream.thy ===== *)
theory Redis_Stream
  imports Redis_Store
begin

text \<open>
  Reading the stream of accepted heads in Redis. The server keeps a suffix of the entries ever added and may
  trim it at any time, also while a reader blocks. \<open>stream_laws\<close> is what the reader relies on: \<open>log w\<close> are
  the entries ever added, \<open>trimmed w\<close> of them are gone, both only grow, and the two range commands answer
  from what is kept.
\<close>

definition grows :: "('w \<Rightarrow> xmessage list) \<Rightarrow> ('w \<Rightarrow> nat) \<Rightarrow> 'w \<Rightarrow> 'w \<Rightarrow> bool" where
  "grows log trimmed w w' \<longleftrightarrow> (\<exists>new. log w' = log w @ new) \<and> trimmed w \<le> trimmed w'"

definition stream_laws :: "'w redis \<Rightarrow> string \<Rightarrow> ('w \<Rightarrow> xmessage list) \<Rightarrow> ('w \<Rightarrow> nat) \<Rightarrow> bool" where
  "stream_laws R key log trimmed \<longleftrightarrow>
     (\<forall>w. distinct (map ID (log w)))
     \<and> (\<forall>w. grows log trimmed w (snd (link R w)) \<and> grows log trimmed w (meanwhile R w))
     \<and> (\<forall>c n t w. grows log trimmed w (snd (XREAD R key c n t w)))
     \<and> (\<forall>c w. grows log trimmed w (snd (XRANGE R key c w)))
     \<and> (\<forall>c n t w ss w' i. XREAD R key c n t w = (Inr ss, w') \<longrightarrow> i < length (log w') \<longrightarrow> ID (log w' ! i) = c \<longrightarrow>
          (\<exists>k. concat (map snd ss) = take k (drop (max (Suc i) (trimmed w')) (log w'))))
     \<and> (\<forall>c w ms w'. XRANGE R key c w = (Inr ms, w') \<longrightarrow> ms \<noteq> [] \<longrightarrow>
          (\<exists>i. trimmed w' \<le> i \<and> i < length (log w') \<and> ID (log w' ! i) = c))"

lemma grows_refl [simp]: "grows log trimmed w w"
  by (simp add: grows_def)

lemma grows_trans [trans]: "grows log trimmed u v \<Longrightarrow> grows log trimmed v w \<Longrightarrow> grows log trimmed u w"
  by (auto simp: grows_def)

lemma grows_nth: "grows log trimmed w w' \<Longrightarrow> i < length (log w) \<Longrightarrow> i < length (log w') \<and> log w' ! i = log w ! i"
  by (auto simp: grows_def nth_append)

lemma run_attempts_executes:
  assumes "\<And>u. grows log trimmed u (idle u)" "\<And>u. grows log trimmed u (snd (c u))" "run_attempts idle c as w = (x, w')"
  shows "grows log trimmed w w' \<and> (\<forall>y. x = Inr y \<longrightarrow> (\<exists>u. grows log trimmed w u \<and> c u = (Inr y, w')))"
  using assms(3)
proof (induction as arbitrary: w)
  case (Cons a as)
  have skip: ?case if rest: "run_attempts idle c as u = (x, w')" and before: "grows log trimmed w u" for u
  proof (intro conjI allI impI)
    show "grows log trimmed w w'" using grows_trans [OF before] Cons.IH [OF rest] by blast
    fix y assume "x = Inr y"
    then obtain v where v: "grows log trimmed u v" "c v = (Inr y, w')" using Cons.IH [OF rest] by blast
    from grows_trans [OF before v(1)] v(2)
    show "\<exists>u. grows log trimmed w u \<and> c u = (Inr y, w')" by (intro exI conjI)
  qed
  show ?case
  proof (cases a)
    case NotSent
    then show ?thesis using skip [of "idle w"] Cons.prems assms(1) by simp
  next
    case Unanswered
    then show ?thesis using skip [of "idle (snd (c w))"] Cons.prems grows_trans [OF assms(2) assms(1)] by simp
  next
    case Answered
    then have "c w = (x, w')" using Cons.prems by simp
    then show ?thesis using assms(2) [of w] grows_refl [of log trimmed w] by (metis snd_conv)
  qed
qed auto

lemma run_script_executes:
  assumes laws: "stream_laws R key log trimmed" and "\<And>u. grows log trimmed u (snd (c u))"
    and "run_script R c w = (x, w')"
  shows "grows log trimmed w w'" "x = Inr y \<Longrightarrow> \<exists>u. grows log trimmed w u \<and> c u = (Inr y, w')"
proof -
  obtain as w1 where link: "link R w = (as, w1)" by (cases "link R w")
  have steps: "grows log trimmed w w1" "\<And>u. grows log trimmed u (meanwhile R u)"
    using laws link unfolding stream_laws_def by (metis snd_conv, blast)
  have "run_attempts (meanwhile R) c as w1 = (x, w')" using assms(3) link by (simp add: run_script_def)
  from run_attempts_executes [OF steps(2) assms(2) this]
  show "grows log trimmed w w'" "x = Inr y \<Longrightarrow> \<exists>u. grows log trimmed w u \<and> c u = (Inr y, w')"
    using grows_trans [OF steps(1)] by blast+
qed

lemma get_events_map:
  "get_events rt ms = Inr es \<Longrightarrow> map (getEvent rt) ms = map Inr es"
  by (induction rt ms arbitrary: es rule: get_events.induct) (auto split: sum.splits)

text \<open>A read that succeeds after a cursor: the cursor was still kept when the read ended, and the messages
  are those that follow it.\<close>

lemma ReadEvents_cases:
  assumes laws: "stream_laws R (redis_key r c ''events'') log trimmed" and cursor: "cursor \<noteq> ''0-0''"
    and known: "i < length (log w)" "ID (log w ! i) = cursor"
    and run: "RedisStore_ReadEvents R r rt c cursor t n w = (Inr es, w')"
  shows "grows log trimmed w w' \<and> trimmed w' \<le> i \<and> map Inr es = map (getEvent rt) (take (length es) (drop (Suc i) (log w')))"
proof -
  let ?key = "redis_key r c ''events''" and ?le = "grows log trimmed"
  have steps: "?le u (snd (XREAD R ?key cursor n t u))" "?le u (snd (XRANGE R ?key cursor u))" for u
    using laws unfolding stream_laws_def by blast+
  obtain streams w1 where read: "run_script R (XREAD R ?key cursor n t) w = (streams, w1)"
    by (cases "run_script R (XREAD R ?key cursor n t) w")
  obtain checked w2 where check: "run_script R (XRANGE R ?key cursor) w1 = (checked, w2)"
    by (cases "run_script R (XRANGE R ?key cursor) w1")
  have result: "\<exists>m ms. checked = Inr (m # ms)" "w' = w2" "read_result rt c streams = Inr es"
    using run cursor read check
    by (auto simp: RedisStore_ReadEvents_def Let_def split: sum.splits redis_error.splits list.splits)
  note r1 = run_script_executes [OF laws steps(1) read] and r2 = run_script_executes [OF laws steps(2) check]
  have grown: "?le w w1" "?le w1 w'" using r1(1) r2(1) result(2) by simp_all
  obtain m ms where "checked = Inr (m # ms)" using result(1) by blast
  then obtain u where "XRANGE R ?key cursor u = (Inr (m # ms), w')" using r2(2) result(2) by blast
  then obtain j where j: "trimmed w' \<le> j" "j < length (log w')" "ID (log w' ! j) = cursor"
    using laws unfolding stream_laws_def by blast
  have here: "i < length (log w1)" "ID (log w1 ! i) = cursor" "i < length (log w')" "ID (log w' ! i) = cursor"
    using grows_nth [OF grown(1) known(1)] known(2) grows_nth [OF grown(2)] by auto
  have "distinct (map ID (log w'))" using laws unfolding stream_laws_def by blast
  then have "j = i" using j(2,3) here(3,4) by (auto simp: distinct_conv_nth)
  then have kept: "trimmed w' \<le> i" "trimmed w1 \<le> Suc i" using j(1) grown(2) by (auto simp: grows_def)
  have "map Inr es = map (getEvent rt) (take (length es) (drop (Suc i) (log w')))"
  proof (cases streams)
    case (Inl e)
    then show ?thesis using result(3) by (cases e) (auto simp: read_result_def)
  next
    case (Inr ss)
    then obtain v where "XREAD R ?key cursor n t v = (Inr ss, w1)" using r1(2) by blast
    then obtain k where "concat (map snd ss) = take k (drop (max (Suc i) (trimmed w1)) (log w1))"
      using laws here(1,2) unfolding stream_laws_def by blast
    then have msgs: "concat (map snd ss) = take k (drop (Suc i) (log w1))" using kept(2) by simp
    have es: "map (getEvent rt) (concat (map snd ss)) = map Inr es"
      using result(3) Inr by (intro get_events_map) (simp add: read_result_def)
    then have "length es = length (take k (drop (Suc i) (log w1)))" using msgs by (metis length_map)
    moreover obtain new where "log w' = log w1 @ new" using grown(2) by (auto simp: grows_def)
    ultimately have "take (length es) (drop (Suc i) (log w')) = take k (drop (Suc i) (log w1))"
      using here(1) by (simp add: min_def)
    then show ?thesis using es msgs by simp
  qed
  then show ?thesis using grows_trans [OF grown] kept(1) by blast
qed

text \<open>
  Property C16. A subscriber that resumes from Redis misses no head, trimming included. Let a read after a
  known cursor return events, whatever was added or trimmed while it blocked and however often its commands
  were sent again: then the cursor was still retained at the end of the read, and the events are exactly the
  entries added directly after it, in order and without a gap.
\<close>

theorem redis_resume_without_gap:
  assumes "stream_laws R (redis_key r c ''events'') log trimmed" "cursor \<noteq> ''0-0''"
    and "i < length (log w)" "ID (log w ! i) = cursor"
    and "RedisStore_ReadEvents R r rt c cursor t n w = (Inr es, w')"
  shows "trimmed w' \<le> i \<and> log w' ! i = log w ! i
    \<and> map Inr es = map (getEvent rt) (take (length es) (drop (Suc i) (log w')))"
  using ReadEvents_cases [OF assms] grows_nth [of log trimmed w w' i] assms(3) by blast

text \<open>A stream of which the state gives the number of entries added and trimmed.\<close>

definition sample_entry :: "nat \<Rightarrow> xmessage" where
  "sample_entry k = \<lparr>ID = replicate k CHR ''i'', head_value = Some (Some (marshal_head sample_show_time (zero_head\<lparr>Number := of_nat k\<rparr>)))\<rparr>"

definition sample_log :: "nat \<times> nat \<Rightarrow> xmessage list" where
  "sample_log w = map sample_entry [0..<fst w]"

fun sample_after :: "string \<Rightarrow> nat \<times> nat \<Rightarrow> xmessage list" where
  "sample_after c w = drop (max (Suc (length c)) (snd w)) (sample_log w)"

definition sample_stream :: "(nat \<times> nat) redis" where
  "sample_stream = \<lparr>EXISTS = (\<lambda>k w. (Inr False, w)), GET = (\<lambda>k w. (Inr None, w)), INCR = (\<lambda>k w. (Inr 1, w)),
     PSETEX = (\<lambda>k ttl s w. (Inr (), w)), PEXPIRE = (\<lambda>k ttl w. (Inr (), w)), DEL = (\<lambda>k w. (Inr 0, w)),
     HGET = (\<lambda>k f w. (Inr None, w)), HSET = (\<lambda>k f v w. (Inr (), w)), HGETALL = (\<lambda>k w. (Inr [], w)),
     XADD = (\<lambda>k n v w. (Inr (), w)), XREVRANGE = (\<lambda>k w. (Inr [], w)),
     XREAD = (\<lambda>k c n t w. (Inr [(k, take (nat n) (sample_after c (fst w + 1, snd w)))], (fst w + 1, snd w))),
     XRANGE = (\<lambda>k c w. (Inr (if c = replicate (length c) CHR ''i'' \<and> snd w \<le> length c \<and> length c < fst w then [sample_entry (length c)] else []), w)),
     PING = (\<lambda>w. (Inr (), w)), link = (\<lambda>w. ([Unanswered, Answered], w)), meanwhile = (\<lambda>w. w)\<rparr>"

lemma sample_stream_laws: "stream_laws sample_stream key sample_log snd"
  unfolding stream_laws_def
proof (intro conjI allI impI)
  fix w :: "nat \<times> nat"
  show "distinct (map ID (sample_log w))"
    by (auto simp: sample_log_def sample_entry_def distinct_map inj_on_def dest: arg_cong [of _ _ length])
  show "grows sample_log snd w (snd (link sample_stream w))" "grows sample_log snd w (meanwhile sample_stream w)"
    by (simp_all add: sample_stream_def)
  show "grows sample_log snd w (snd (XRANGE sample_stream key c w))" for c by (simp add: sample_stream_def)
  show "grows sample_log snd w (snd (XREAD sample_stream key c n t w))" for c n t
    by (simp add: sample_stream_def grows_def sample_log_def)
next
  fix c n t w ss w' i
  assume "XREAD sample_stream key c n t w = (Inr ss, w')" "i < length (sample_log w')" "ID (sample_log w' ! i) = c"
  then have "concat (map snd ss) = take (nat n) (drop (max (Suc i) (snd w')) (sample_log w'))"
    by (auto simp: sample_stream_def sample_log_def sample_entry_def simp del: take_map drop_map)
  then show "\<exists>k. concat (map snd ss) = take k (drop (max (Suc i) (snd w')) (sample_log w'))" by blast
next
  fix c w ms w'
  assume "XRANGE sample_stream key c w = (Inr ms, w')" "ms \<noteq> []"
  then have w': "c = replicate (length c) CHR ''i''" "snd w' \<le> length c" "length c < fst w'"
    by (auto simp: sample_stream_def split: if_splits)
  show "\<exists>i. snd w' \<le> i \<and> i < length (sample_log w') \<and> ID (sample_log w' ! i) = c"
    using w' by (intro exI [of _ "length c"]) (simp add: sample_log_def sample_entry_def)
qed

theorem redis_resume_without_gap_witness:
  "\<exists>es w'. RedisStore_ReadEvents sample_stream \<lparr>prefix = ''p'', streamMax = 9\<rparr> sample_read_time ''c'' ''i'' 5 2 (4, 1) = (Inr es, w')
    \<and> length es = 2 \<and> map Inr es = map (getEvent sample_read_time) (take (length es) (drop (Suc 1) (sample_log w')))"
proof -
  let ?r = "\<lparr>prefix = ''p'', streamMax = 9\<rparr>"
  have event: "getEvent sample_read_time (sample_entry k) = Inr \<lparr>eID = replicate k CHR ''i'', eHead = zero_head\<lparr>Number := of_nat k\<rparr>\<rparr>" for k
    using unmarshal_marshal_head [OF sample_times] by (simp add: getEvent_def sample_entry_def)
  let ?e = "\<lambda>k. \<lparr>eID = replicate k CHR ''i'', eHead = zero_head\<lparr>Number := of_nat k\<rparr>\<rparr>"
  have one: "replicate (Suc 0) CHR ''i'' = ''i''" by simp
  have run: "RedisStore_ReadEvents sample_stream ?r sample_read_time ''c'' ''i'' 5 2 (4, 1) = (Inr [?e 2, ?e 3], (6, 1))"
    by (simp add: RedisStore_ReadEvents_def run_script_def sample_stream_def read_result_def sample_log_def event one take_map drop_map
        take_upt drop_upt numeral_2_eq_2 numeral_3_eq_3 upt_conv_Cons del: replicate.simps)
  have "map Inr [?e 2, ?e 3] = map (getEvent sample_read_time) (take (length [?e 2, ?e 3]) (drop (Suc 1) (sample_log (6, 1))))"
    using redis_resume_without_gap [OF sample_stream_laws _ _ _ run, of 1]
    by (simp add: sample_log_def sample_entry_def)
  with run show ?thesis by (intro exI [of _ "[?e 2, ?e 3]"] exI [of _ "(6, 1)"]) simp
qed

end
