(* ===== verification/Transform.thy ===== *)
theory Transform
  imports Runtime
begin

text \<open>
  The rewriting of a caller's request, \<^verbatim>\<open>internal/gateway/transform.go\<close> and the static methods of
  \<^verbatim>\<open>internal/gateway/cache.go\<close>: each read is pinned to a head of the request's snapshot, or to the
  block hash the caller named, before it goes to any upstream; writes and methods outside the two
  registries are refused. Encoding decoded raw messages cannot fail, so the branches of the source
  that report such a failure are not reached. \<open>GetEVMBlock\<close> returns no other error than the three
  the source tests for.
\<close>

record preparedRequest =
  p_method :: string
  p_parameters :: raw
  p_target :: "head option"
  requireEIP1898 :: bool
  localResponse :: raw
  verifyBoundaries :: "head list"
  verifyContextSlot :: bool
  unwrapContext :: bool
  receiptHash :: string
  logRange :: "(u64 \<times> u64) option"

definition prepared_request :: "string \<Rightarrow> raw \<Rightarrow> preparedRequest" where
  "prepared_request meth parameters =
     \<lparr>p_method = meth, p_parameters = parameters, p_target = None, requireEIP1898 = False, localResponse = None,
      verifyBoundaries = [], verifyContextSlot = False, unwrapContext = False, receiptHash = [], logRange = None\<rparr>"

lemma prepared_request_sel [simp]:
  "p_method (prepared_request m ps) = m" "p_parameters (prepared_request m ps) = ps"
  "p_target (prepared_request m ps) = None" "requireEIP1898 (prepared_request m ps) = False"
  "localResponse (prepared_request m ps) = None" "verifyBoundaries (prepared_request m ps) = []"
  "verifyContextSlot (prepared_request m ps) = False" "unwrapContext (prepared_request m ps) = False"
  "receiptHash (prepared_request m ps) = []" "logRange (prepared_request m ps) = None"
  by (simp_all add: prepared_request_def)

subsection \<open>Registries\<close>

definition isWriteMethod :: "string \<Rightarrow> string \<Rightarrow> bool" where
  "isWriteMethod meth family =
     (if family = ''evm''
      then meth = ''eth_accounts'' \<or>
        list_ex (HasPrefix meth) [''eth_send'', ''eth_sign'', ''personal_'', ''wallet_'', ''miner_'', ''admin_'',
          ''engine_'', ''txpool_'']
      else meth = ''sendTransaction'' \<or> meth = ''sendRawTransaction'' \<or> meth = ''requestAirdrop'')"

definition isStaticMethod :: "string \<Rightarrow> string \<Rightarrow> bool" where
  "isStaticMethod meth family \<longleftrightarrow>
     family = ''evm'' \<and> meth = ''eth_chainId'' \<or> family = ''solana'' \<and> meth = ''getGenesisHash''"

definition getEVMStateBlockIndex :: "string \<Rightarrow> nat option" where
  "getEVMStateBlockIndex meth =
     (if meth \<in> set [''eth_getBalance'', ''eth_getTransactionCount'', ''eth_getCode'', ''eth_call''] then Some 1
      else if meth \<in> set [''eth_getStorageAt'', ''eth_getProof''] then Some 2
      else None)"

text \<open>The block index is 0 for every method of this registry; the replacement is its by-hash form.\<close>

definition getEVMBlockMethod :: "string \<Rightarrow> (nat \<times> string) option" where
  "getEVMBlockMethod meth =
     map_of [(''eth_getBlockByNumber'', (0, ''eth_getBlockByHash'')),
       (''eth_getBlockTransactionCountByNumber'', (0, ''eth_getBlockTransactionCountByHash'')),
       (''eth_getTransactionByBlockNumberAndIndex'', (0, ''eth_getTransactionByBlockHashAndIndex'')),
       (''eth_getUncleByBlockNumberAndIndex'', (0, ''eth_getUncleByBlockHashAndIndex'')),
       (''eth_getUncleCountByBlockNumber'', (0, ''eth_getUncleCountByBlockHash''))] meth"

definition isEVMHeadNeutralMethod :: "string \<Rightarrow> bool" where
  "isEVMHeadNeutralMethod meth \<longleftrightarrow> meth \<in> set [''eth_chainId'', ''net_version'', ''web3_clientVersion'']"

definition isEVMExplicitHashMethod :: "string \<Rightarrow> bool" where
  "isEVMExplicitHashMethod meth \<longleftrightarrow>
     meth \<in> set [''eth_getBlockByHash'', ''eth_getBlockTransactionCountByHash'', ''eth_getTransactionByBlockHashAndIndex'',
       ''eth_getUncleByBlockHashAndIndex'', ''eth_getUncleCountByBlockHash'']"

definition getSolanaConfigIndex :: "string \<Rightarrow> nat option" where
  "getSolanaConfigIndex meth =
     (if meth \<in> set [''getBlockHeight'', ''getEpochInfo'', ''getLatestBlockhash'', ''getSlot'', ''getSlotLeader'',
        ''getStakeMinimumDelegation'', ''getTransactionCount''] then Some 0
      else if meth \<in> set [''getAccountInfo'', ''getBalance'', ''getFeeForMessage'', ''getMultipleAccounts'',
        ''getProgramAccounts'', ''getSignaturesForAddress'', ''isBlockhashValid'', ''simulateTransaction''] then Some 1
      else if meth \<in> set [''getTokenAccountsByDelegate'', ''getTokenAccountsByOwner''] then Some 2
      else None)"

definition hasSolanaContext :: "string \<Rightarrow> bool" where
  "hasSolanaContext meth \<longleftrightarrow>
     meth \<notin> set [''getBlockHeight'', ''getEpochInfo'', ''getSlot'', ''getSlotLeader'', ''getTransactionCount'',
       ''getSignaturesForAddress'']"

definition isSolanaHeadNeutralMethod :: "string \<Rightarrow> bool" where
  "isSolanaHeadNeutralMethod meth \<longleftrightarrow>
     meth \<in> set [''getGenesisHash'', ''getVersion'', ''getBlock'', ''getBlockCommitment'', ''getBlockTime'', ''getHealth'',
       ''getEpochSchedule'']"

definition isSolanaUnpinnedRead :: "string \<Rightarrow> bool" where
  "isSolanaUnpinnedRead meth \<longleftrightarrow> meth \<in> set [''getBlock'', ''getBlockCommitment'', ''getBlockTime'']"

lemmas registry_defs = isWriteMethod_def isStaticMethod_def getEVMStateBlockIndex_def getEVMBlockMethod_def
  isEVMHeadNeutralMethod_def isEVMExplicitHashMethod_def getSolanaConfigIndex_def hasSolanaContext_def
  isSolanaHeadNeutralMethod_def isSolanaUnpinnedRead_def

subsection \<open>Heads of the snapshot\<close>

definition getSnapshotHead :: "snapshot \<Rightarrow> string \<Rightarrow> rpc_error + head" where
  "getSnapshotHead snap commitment =
     (case Get snap commitment of
        None \<Rightarrow> Inl (ConsistencyUnavailable (JObj [(''chain'', JStr (sChain snap)), (''commitment'', JStr commitment)]))
      | Some h \<Rightarrow>
          if IsZero h
          then Inl (ConsistencyUnavailable (JObj [(''chain'', JStr (sChain snap)), (''commitment'', JStr commitment)]))
          else Inr h)"

lemma getSnapshotHead_Inr: "getSnapshotHead snap c = Inr h \<longleftrightarrow> Get snap c = Some h \<and> \<not> IsZero h"
  by (auto simp: getSnapshotHead_def split: option.splits)

definition getEVMBlock :: "'w node_env \<Rightarrow> runtime \<Rightarrow> snapshot \<Rightarrow> raw \<Rightarrow> 'w \<Rightarrow> (rpc_error + head) \<times> 'w" where
  "getEVMBlock env r snap blockReference w =
     (case GetEVMBlock env r blockReference snap w of
        (Inr target, w1) \<Rightarrow> (Inr target, w1)
      | (Inl (InvalidReference detail), w1) \<Rightarrow> (Inl (InvalidParams detail), w1)
      | (Inl (UnsupportedReference detail), w1) \<Rightarrow> (Inl (UnsupportedConsistency ''pending'' detail), w1)
      | (Inl (BlockUnavailable _), w1) \<Rightarrow>
          (Inl (ConsistencyUnavailable (JObj [(''chain'', JStr (cc_Name (rt_Config r))),
             (''reason'', JStr ''requested block is unavailable'')])), w1))"

lemma getEVMBlock_Inr: "getEVMBlock env r snap b w = (Inr t, w') \<longleftrightarrow> GetEVMBlock env r b snap w = (Inr t, w')"
  by (auto simp: getEVMBlock_def split: prod.splits sum.splits reference_error.splits)

subsection \<open>EVM requests\<close>

definition block_identifier :: "head \<Rightarrow> json" where
  "block_identifier target = JObj [(''blockHash'', JStr (Hash target)), (''requireCanonical'', JBool True)]"

definition pad_params :: "json list \<Rightarrow> nat \<Rightarrow> json \<Rightarrow> json list" where
  "pad_params parameters index filler = parameters @ replicate (Suc index - length parameters) filler"

definition transform_state :: "'w node_env \<Rightarrow> runtime \<Rightarrow> snapshot \<Rightarrow> string \<Rightarrow> nat \<Rightarrow> json list \<Rightarrow> 'w \<Rightarrow>
    (rpc_error + preparedRequest) \<times> 'w" where
  "transform_state env r snap meth blockIndex parameters w =
     (if length parameters < blockIndex then (Inl (InvalidParams ''missing required parameters''), w)
      else
        let padded = pad_params parameters blockIndex (JStr ''latest'') in
        (case getEVMBlock env r snap (Some (padded ! blockIndex)) w of
           (Inl e, w1) \<Rightarrow> (Inl e, w1)
         | (Inr target, w1) \<Rightarrow>
             (Inr ((prepared_request meth (Some (MarshalParams (padded[blockIndex := block_identifier target]))))
                \<lparr>p_target := Some target, requireEIP1898 := True\<rparr>), w1)))"

definition transform_block :: "'w node_env \<Rightarrow> runtime \<Rightarrow> snapshot \<Rightarrow> nat \<times> string \<Rightarrow> json list \<Rightarrow> 'w \<Rightarrow>
    (rpc_error + preparedRequest) \<times> 'w" where
  "transform_block env r snap blockMethod parameters w =
     (case blockMethod of (blockIndex, replacement) \<Rightarrow>
        if length parameters \<le> blockIndex then (Inl (InvalidParams ''missing block parameter''), w)
        else
          (case getEVMBlock env r snap (Some (parameters ! blockIndex)) w of
             (Inl e, w1) \<Rightarrow> (Inl e, w1)
           | (Inr target, w1) \<Rightarrow>
               (Inr ((prepared_request replacement (Some (MarshalParams (parameters[blockIndex := JStr (Hash target)]))))
                  \<lparr>p_target := Some target\<rparr>), w1)))"

definition transform_block_number :: "snapshot \<Rightarrow> string \<Rightarrow> json list \<Rightarrow> rpc_error + preparedRequest" where
  "transform_block_number snap meth parameters =
     (if parameters \<noteq> [] then Inl (InvalidParams ''eth_blockNumber does not accept parameters'')
      else
        (case getSnapshotHead snap Latest of
           Inl e \<Rightarrow> Inl e
         | Inr target \<Rightarrow>
             Inr ((prepared_request meth None)
               \<lparr>localResponse := Some (JStr (FormatEVMQuantity (Number target))), p_target := Some target\<rparr>)))"

definition transform_fee_history :: "'w node_env \<Rightarrow> runtime \<Rightarrow> snapshot \<Rightarrow> string \<Rightarrow> json list \<Rightarrow> 'w \<Rightarrow>
    (rpc_error + preparedRequest) \<times> 'w" where
  "transform_fee_history env r snap meth parameters w =
     (if length parameters < 2
      then (Inl (InvalidParams ''eth_feeHistory requires blockCount and newestBlock''), w)
      else if unmarshal_string (Some (parameters ! 1)) \<in> {None, Some []}
      then (Inl (InvalidParams ''newestBlock must be a block number or tag''), w)
      else
        (case getEVMBlock env r snap (Some (parameters ! 1)) w of
           (Inl e, w1) \<Rightarrow> (Inl e, w1)
         | (Inr target, w1) \<Rightarrow>
             (Inr ((prepared_request meth
                  (Some (MarshalParams (parameters[1 := JStr (FormatEVMQuantity (Number target))]))))
                \<lparr>p_target := Some target, verifyBoundaries := [target]\<rparr>), w1)))"

definition transform_receipt :: "snapshot \<Rightarrow> string \<Rightarrow> json list \<Rightarrow> rpc_error + preparedRequest" where
  "transform_receipt snap meth parameters =
     (if length parameters \<noteq> 1
      then Inl (InvalidParams ''eth_getTransactionReceipt requires one transaction hash'')
      else
        (case unmarshal_string (Some (hd parameters)) of
           None \<Rightarrow> Inl (InvalidParams ''invalid transaction hash'')
         | Some transactionHash \<Rightarrow>
             if \<not> IsEVMHash transactionHash then Inl (InvalidParams ''invalid transaction hash'')
             else
               (case getSnapshotHead snap Latest of
                  Inl e \<Rightarrow> Inl e
                | Inr target \<Rightarrow>
                    Inr ((prepared_request meth (Some (MarshalParams parameters)))
                      \<lparr>receiptHash := transactionHash, p_target := Some target\<rparr>))))"

definition explicit_target :: "runtime \<Rightarrow> string \<Rightarrow> head" where
  "explicit_target r blockHash = zero_head\<lparr>Chain := cc_Name (rt_Config r), Family := ''evm'',
     Commitment := ''explicit'', Hash := blockHash\<rparr>"

definition transform_explicit :: "runtime \<Rightarrow> string \<Rightarrow> json list \<Rightarrow> rpc_error + preparedRequest" where
  "transform_explicit r meth parameters =
     (if parameters = [] then Inl (InvalidParams ''missing block hash'')
      else
        (case unmarshal_string (Some (hd parameters)) of
           None \<Rightarrow> Inl (InvalidParams ''invalid block hash'')
         | Some blockHash \<Rightarrow>
             if \<not> IsEVMHash blockHash then Inl (InvalidParams ''invalid block hash'')
             else Inr ((prepared_request meth (Some (MarshalParams parameters)))
                    \<lparr>p_target := Some (explicit_target r blockHash)\<rparr>)))"

subsection \<open>Logs\<close>

definition getEVMLogBound :: "string \<Rightarrow> head \<Rightarrow> rpc_error + u64" where
  "getEVMLogBound selector accepted =
     (if selector = Latest then Inr (Number accepted)
      else if selector = ''earliest'' then Inr 0
      else if selector \<in> {''pending'', Safe, Finalized}
      then Inl (UnsupportedConsistency ''eth_getLogs'' ''only latest is supported as a live EVM head'')
      else
        (case ParseEVMQuantity selector of
           Inl _ \<Rightarrow> Inl (InvalidParams ''invalid log block number'')
         | Inr number \<Rightarrow>
             if number > Number accepted
             then Inl (ConsistencyUnavailable (JObj [(''chain'', JStr (Chain accepted)),
                    (''reason'', JStr ''log bound exceeds pinned head''), (''retryable'', JBool True)]))
             else Inr number))"

definition prepareEVMLogRequest :: "raw_map \<Rightarrow> head \<Rightarrow> head list \<Rightarrow> preparedRequest" where
  "prepareEVMLogRequest filt target boundaries =
     (prepared_request ''eth_getLogs'' (Some (MarshalParams [marshal_map filt])))
       \<lparr>p_target := Some target, verifyBoundaries := boundaries\<rparr>"

definition or_latest :: "raw \<Rightarrow> json" where
  "or_latest bound = (case bound of None \<Rightarrow> JStr ''latest'' | Some v \<Rightarrow> v)"

text \<open>The filter form that names one block by its hash.\<close>

definition logs_by_hash :: "runtime \<Rightarrow> json list \<Rightarrow> raw_map \<Rightarrow> json \<Rightarrow> rpc_error + preparedRequest" where
  "logs_by_hash r parameters filt rawHash =
     (if map_of filt ''fromBlock'' \<noteq> None \<or> map_of filt ''toBlock'' \<noteq> None
      then Inl (InvalidParams ''blockHash cannot be combined with fromBlock or toBlock'')
      else
        (case unmarshal_string (Some rawHash) of
           None \<Rightarrow> Inl (InvalidParams ''invalid blockHash'')
         | Some blockHash \<Rightarrow>
             if \<not> IsEVMHash blockHash then Inl (InvalidParams ''invalid blockHash'')
             else Inr ((prepared_request ''eth_getLogs'' (Some (MarshalParams parameters)))
                    \<lparr>p_target := Some (explicit_target r blockHash)\<rparr>)))"

text \<open>The range form once its bounds are known: one recent block by its hash, or the range itself.\<close>

definition logs_by_range :: "'w node_env \<Rightarrow> runtime \<Rightarrow> snapshot \<Rightarrow> raw_map \<Rightarrow> json \<Rightarrow> head \<Rightarrow> u64 \<Rightarrow> u64 \<Rightarrow> 'w \<Rightarrow>
    (rpc_error + preparedRequest) \<times> 'w" where
  "logs_by_range env r snap filt toBlock accepted fromNumber toNumber w =
     (if fromNumber > toNumber then (Inl (InvalidParams ''fromBlock exceeds toBlock''), w)
      else if fromNumber = toNumber \<and> Number accepted - fromNumber \<le> word_of_int (ReorgDepth (rt_Config r))
      then
        (case getEVMBlock env r snap (Some toBlock) w of
           (Inl e, w1) \<Rightarrow> (Inl e, w1)
         | (Inr target, w1) \<Rightarrow>
             (Inr (prepareEVMLogRequest
                (map_set ''blockHash'' (JStr (Hash target)) (map_delete ''toBlock'' (map_delete ''fromBlock'' filt)))
                target []), w1))
      else
        (Inr ((prepareEVMLogRequest
            (map_set ''toBlock'' (JStr (FormatEVMQuantity toNumber))
              (map_set ''fromBlock'' (JStr (FormatEVMQuantity fromNumber)) filt))
            accepted [accepted])\<lparr>logRange := Some (fromNumber, toNumber)\<rparr>), w))"

definition transformEVMLogs :: "'w node_env \<Rightarrow> runtime \<Rightarrow> snapshot \<Rightarrow> json list \<Rightarrow> 'w \<Rightarrow>
    (rpc_error + preparedRequest) \<times> 'w" where
  "transformEVMLogs env r snap parameters w =
     (if length parameters \<noteq> 1 then (Inl (InvalidParams ''eth_getLogs requires one filter object''), w)
      else
        (case unmarshal_map (hd parameters) of
           Some (Some filt) \<Rightarrow>
             (case map_of filt ''blockHash'' of
                Some rawHash \<Rightarrow> (logs_by_hash r parameters filt rawHash, w)
              | None \<Rightarrow>
                  let fromBlock = or_latest (map_of filt ''fromBlock''); toBlock = or_latest (map_of filt ''toBlock'') in
                  (case (unmarshal_string (Some fromBlock), unmarshal_string (Some toBlock)) of
                     (Some fromSelector, Some toSelector) \<Rightarrow>
                       if fromSelector = [] \<or> toSelector = []
                       then (Inl (InvalidParams ''log bounds must be block numbers or tags''), w)
                       else
                         (case getSnapshotHead snap Latest of
                            Inl e \<Rightarrow> (Inl e, w)
                          | Inr accepted \<Rightarrow>
                              (case getEVMLogBound fromSelector accepted of
                                 Inl e \<Rightarrow> (Inl e, w)
                               | Inr fromNumber \<Rightarrow>
                                   (case getEVMLogBound toSelector accepted of
                                      Inl e \<Rightarrow> (Inl e, w)
                                    | Inr toNumber \<Rightarrow>
                                        logs_by_range env r snap filt toBlock accepted fromNumber toNumber w)))
                   | _ \<Rightarrow> (Inl (InvalidParams ''log bounds must be block numbers or tags''), w)))
         | _ \<Rightarrow> (Inl (InvalidParams ''invalid eth_getLogs filter''), w)))"

subsection \<open>The EVM dispatch\<close>

definition transformEVMRequest :: "'w node_env \<Rightarrow> runtime \<Rightarrow> snapshot \<Rightarrow> request \<Rightarrow> 'w \<Rightarrow>
    (rpc_error + preparedRequest) \<times> 'w" where
  "transformEVMRequest env r snap req w =
     (case ParseParams (Params req) of
        Inl e \<Rightarrow> (Inl e, w)
      | Inr parameters \<Rightarrow>
          (case getEVMStateBlockIndex (Method req) of
             Some blockIndex \<Rightarrow> transform_state env r snap (Method req) blockIndex parameters w
           | None \<Rightarrow>
          (case getEVMBlockMethod (Method req) of
             Some blockMethod \<Rightarrow> transform_block env r snap blockMethod parameters w
           | None \<Rightarrow>
             if Method req = ''eth_blockNumber'' then (transform_block_number snap (Method req) parameters, w)
             else if Method req = ''eth_getLogs'' then transformEVMLogs env r snap parameters w
             else if Method req = ''eth_feeHistory'' then transform_fee_history env r snap (Method req) parameters w
             else if Method req = ''eth_getTransactionReceipt'' then (transform_receipt snap (Method req) parameters, w)
             else if isEVMHeadNeutralMethod (Method req)
             then (Inr (prepared_request (Method req) (Some (MarshalParams parameters))), w)
             else if isEVMExplicitHashMethod (Method req) then (transform_explicit r (Method req) parameters, w)
             else (Inl (UnsupportedConsistency (Method req) ''method is not in the strict EVM read registry''), w))))"

subsection \<open>Solana requests\<close>

text \<open>The configuration object of a request, and the three members the rewriting reads.\<close>

definition solana_config :: "json \<Rightarrow> raw_map option" where
  "solana_config v = (if v = JNull then Some []
     else (case unmarshal_map v of None \<Rightarrow> None | Some None \<Rightarrow> Some [] | Some (Some m) \<Rightarrow> Some m))"

definition solana_commitment :: "raw_map \<Rightarrow> string option" where
  "solana_commitment requestConfig =
     (case (case map_of requestConfig ''commitment'' of
              None \<Rightarrow> Some Finalized
            | Some JNull \<Rightarrow> None
            | Some v \<Rightarrow> decode_string Finalized v) of
        None \<Rightarrow> None
      | Some commitment \<Rightarrow> if commitment \<in> {Processed, Confirmed, Finalized} then Some commitment else None)"

definition solana_minimum :: "raw_map \<Rightarrow> u64 \<Rightarrow> u64 option" where
  "solana_minimum requestConfig number =
     (case map_of requestConfig ''minContextSlot'' of
        None \<Rightarrow> Some number
      | Some v \<Rightarrow>
          (case unmarshal_uint_ptr (Some v) of
             Some (Some callerSlot) \<Rightarrow> Some (max number callerSlot)
           | _ \<Rightarrow> None))"

definition with_context :: "raw_map \<Rightarrow> bool option" where
  "with_context requestConfig =
     (case map_of requestConfig ''withContext'' of
        None \<Rightarrow> Some False
      | Some JNull \<Rightarrow> None
      | Some v \<Rightarrow> decode_bool False v)"

definition transform_solana_pinned :: "snapshot \<Rightarrow> string \<Rightarrow> nat \<Rightarrow> json list \<Rightarrow> rpc_error + preparedRequest" where
  "transform_solana_pinned snap meth configIndex parameters =
     (if length parameters < configIndex then Inl (InvalidParams ''missing required parameters'')
      else
        let padded = pad_params parameters configIndex (JObj []) in
        (case solana_config (padded ! configIndex) of
           None \<Rightarrow> Inl (InvalidParams ''invalid Solana configuration object'')
         | Some requestConfig \<Rightarrow>
        (case solana_commitment requestConfig of
           None \<Rightarrow> Inl (InvalidParams ''invalid Solana commitment'')
         | Some commitment \<Rightarrow>
        (case getSnapshotHead snap commitment of
           Inl e \<Rightarrow> Inl e
         | Inr target \<Rightarrow>
        (case solana_minimum requestConfig (Number target) of
           None \<Rightarrow> Inl (InvalidParams ''minContextSlot must be an unsigned integer'')
         | Some minimumSlot \<Rightarrow>
             let pinned = map_set ''minContextSlot'' (JNum (show_u64 minimumSlot))
                   (map_set ''commitment'' (JStr commitment) requestConfig);
                 result = (\<lambda>config unwrap.
                   Inr ((prepared_request meth
                       (Some (MarshalParams (padded[configIndex := marshal_map config]))))
                     \<lparr>p_target := Some (target\<lparr>Number := minimumSlot\<rparr>),
                      verifyContextSlot := hasSolanaContext meth, unwrapContext := unwrap\<rparr>))
             in if meth = ''getProgramAccounts''
                then (case with_context pinned of
                        None \<Rightarrow> Inl (InvalidParams ''withContext must be a boolean'')
                      | Some withContext \<Rightarrow>
                          result (map_set ''withContext'' (JBool True) pinned) (\<not> withContext))
                else result pinned False)))))"

definition transformSolanaRequest :: "snapshot \<Rightarrow> request \<Rightarrow> rpc_error + preparedRequest" where
  "transformSolanaRequest snap req =
     (case ParseParams (Params req) of
        Inl e \<Rightarrow> Inl e
      | Inr parameters \<Rightarrow>
          (case getSolanaConfigIndex (Method req) of
             Some configIndex \<Rightarrow> transform_solana_pinned snap (Method req) configIndex parameters
           | None \<Rightarrow>
               if isSolanaHeadNeutralMethod (Method req)
               then Inr (prepared_request (Method req) (Some (MarshalParams parameters)))
               else Inl (UnsupportedConsistency (Method req) ''method is not in the strict Solana read registry'')))"

subsection \<open>The dispatch of a request\<close>

definition prepareStaticRequest :: "runtime \<Rightarrow> request \<Rightarrow> rpc_error + preparedRequest" where
  "prepareStaticRequest r req =
     (case ParseParams (Params req) of
        Inl e \<Rightarrow> Inl e
      | Inr parameters \<Rightarrow>
          if parameters \<noteq> [] then Inl (InvalidParams (Method req @ '' does not accept parameters''))
          else
            let cfg = rt_Config r;
                identity = (if cc_Family cfg = ''solana'' then GenesisHash cfg else ChainID cfg)
            in Inr ((prepared_request (Method req) None)\<lparr>localResponse := Some (JStr identity)\<rparr>))"

definition transformRequest :: "'w node_env \<Rightarrow> runtime \<Rightarrow> snapshot \<Rightarrow> request \<Rightarrow> 'w \<Rightarrow>
    (rpc_error + preparedRequest) \<times> 'w" where
  "transformRequest env r snap req w =
     (let family = cc_Family (rt_Config r) in
      if isStaticMethod (Method req) family then (prepareStaticRequest r req, w)
      else if isWriteMethod (Method req) family then (Inl (WritesDisabled (Method req)), w)
      else if family = ''evm'' then transformEVMRequest env r snap req w
      else (transformSolanaRequest snap req, w))"

subsection \<open>Where targets come from\<close>

text \<open>
  A target on the accepted branch is the accepted head of the snapshot, or a header reached from it
  by parent links within the reorg depth while no reorg is pending.
\<close>

definition on_accepted_branch :: "runtime \<Rightarrow> snapshot \<Rightarrow> head \<Rightarrow> bool" where
  "on_accepted_branch r snap t \<longleftrightarrow> (\<exists>accepted hs. Get snap Latest = Some accepted \<and> \<not> IsZero accepted
     \<and> linked (accepted # hs)
     \<and> (hs = [] \<and> t = accepted \<or>
        \<not> ReorgPending accepted \<and> t = (last (accepted # hs))\<lparr>Commitment := ''explicit''\<rparr>
        \<and> length hs = unat (Number accepted - Number t) \<and> int (length hs) \<le> ReorgDepth (rt_Config r)))"

text \<open>A target that is only a hash, and a parameter of the caller that names that hash.\<close>

definition hash_target :: "head \<Rightarrow> bool" where
  "hash_target t \<longleftrightarrow> Commitment t = ''explicit'' \<and> IsEVMHash (Hash t) \<and> Number t = 0 \<and> ParentHash t = []"

definition names_hash :: "string \<Rightarrow> json \<Rightarrow> bool" where
  "names_hash h v \<longleftrightarrow> unmarshal_string (Some v) = Some h \<or> (\<exists>c. reference_object v = Some (h, [], c))
     \<or> (\<exists>m rawHash. unmarshal_map v = Some (Some m) \<and> map_of m ''blockHash'' = Some rawHash
          \<and> unmarshal_string (Some rawHash) = Some h)"

definition target_from :: "runtime \<Rightarrow> snapshot \<Rightarrow> json list \<Rightarrow> head \<Rightarrow> bool" where
  "target_from r snap ps t \<longleftrightarrow> on_accepted_branch r snap t \<or> hash_target t \<and> (\<exists>v \<in> set ps. names_hash (Hash t) v)"

lemma on_accepted_branch_accepted:
  "Get snap Latest = Some t \<Longrightarrow> \<not> IsZero t \<Longrightarrow> on_accepted_branch r snap t"
  unfolding on_accepted_branch_def by (intro exI [of _ t] exI [of _ "[]"]) simp

lemma on_accepted_branch_quantity:
  assumes "getEVMBlockByQuantity env r q snap w = (Inr t, w')"
  shows "on_accepted_branch r snap t"
proof -
  from getEVMBlockByQuantity_Inr [OF assms] obtain n accepted hs where a: "Get snap Latest = Some accepted"
    "\<not> IsZero accepted" "\<not> ReorgPending accepted" "Number t = n" "linked (accepted # hs)"
    "t = (last (accepted # hs))\<lparr>Commitment := ''explicit''\<rparr>" "length hs = unat (Number accepted - n)"
    "int (length hs) \<le> ReorgDepth (rt_Config r)" by blast
  then show ?thesis unfolding on_accepted_branch_def by (intro exI [of _ accepted] exI [of _ hs]) blast
qed

lemma GetEVMBlock_Inr:
  assumes "GetEVMBlock env r (Some v) snap w = (Inr t, w')"
  shows "on_accepted_branch r snap t \<or> hash_target t \<and> names_hash (Hash t) v"
proof (cases "v = JNull \<or> unmarshal_string (Some v) = Some Latest")
  case True
  then have "getRequiredHead snap Latest = Inr t"
    using assms by (auto simp: GetEVMBlock_def split: if_splits)
  then show ?thesis by (simp add: getRequiredHead_Inr on_accepted_branch_accepted)
next
  case False
  have "(\<exists>q. getEVMBlockByQuantity env r q snap w = (Inr t, w')) \<or>
      (\<exists>h c. reference_object v = Some (h, [], c) \<and> IsEVMHash h \<and>
         t = zero_head\<lparr>Chain := cc_Name (rt_Config r), Family := ''evm'', Commitment := ''explicit'', Hash := h,
               ObservedAt := now_of env w\<rparr>)"
    using assms False by (auto simp: GetEVMBlock_def split: option.splits if_splits)
  then show ?thesis
  proof (elim disjE exE conjE)
    fix q assume "getEVMBlockByQuantity env r q snap w = (Inr t, w')"
    then show ?thesis by (simp add: on_accepted_branch_quantity)
  next
    fix h c assume "reference_object v = Some (h, [], c)" "IsEVMHash h"
      "t = zero_head\<lparr>Chain := cc_Name (rt_Config r), Family := ''evm'', Commitment := ''explicit'', Hash := h,
               ObservedAt := now_of env w\<rparr>"
    then show ?thesis by (auto simp: hash_target_def names_hash_def zero_head_def)
  qed
qed

lemma hash_target_explicit [simp]: "IsEVMHash h \<Longrightarrow> hash_target (explicit_target r h)"
  by (simp add: hash_target_def explicit_target_def zero_head_def)

lemma Hash_explicit_target [simp]: "Hash (explicit_target r h) = h"
  by (simp add: explicit_target_def)

subsection \<open>What each rewriting yields\<close>

lemma transform_state_Inr:
  assumes "transform_state env r snap m i ps w = (Inr p, w')"
  shows "\<exists>t v. p_target p = Some t \<and> requireEIP1898 p \<and> p_method p = m
    \<and> v = pad_params ps i (JStr ''latest'') ! i \<and> (on_accepted_branch r snap t \<or> hash_target t \<and> names_hash (Hash t) v)
    \<and> p_parameters p = Some (MarshalParams ((pad_params ps i (JStr ''latest''))[i := block_identifier t]))
    \<and> i \<le> length ps \<and> receiptHash p = [] \<and> localResponse p = None"
  using assms unfolding transform_state_def
  by (auto simp: Let_def getEVMBlock_Inr dest!: GetEVMBlock_Inr split: if_splits prod.splits sum.splits)

lemma transform_block_Inr:
  assumes "transform_block env r snap (i, m) ps w = (Inr p, w')"
  shows "\<exists>t. p_target p = Some t \<and> \<not> requireEIP1898 p \<and> p_method p = m \<and> i < length ps
    \<and> (on_accepted_branch r snap t \<or> hash_target t \<and> names_hash (Hash t) (ps ! i))
    \<and> p_parameters p = Some (MarshalParams (ps[i := JStr (Hash t)]))
    \<and> receiptHash p = [] \<and> localResponse p = None"
  using assms unfolding transform_block_def
  by (auto simp: getEVMBlock_Inr dest!: GetEVMBlock_Inr split: if_splits prod.splits sum.splits)

lemma transform_fee_history_Inr:
  assumes "transform_fee_history env r snap m ps w = (Inr p, w')"
  shows "\<exists>t. p_target p = Some t \<and> \<not> requireEIP1898 p \<and> p_method p = m \<and> 1 < length ps
    \<and> (on_accepted_branch r snap t \<or> hash_target t \<and> names_hash (Hash t) (ps ! 1))
    \<and> p_parameters p = Some (MarshalParams (ps[1 := JStr (FormatEVMQuantity (Number t))]))
    \<and> verifyBoundaries p = [t] \<and> receiptHash p = [] \<and> localResponse p = None"
  using assms unfolding transform_fee_history_def
  by (auto simp: getEVMBlock_Inr dest!: GetEVMBlock_Inr split: if_splits prod.splits sum.splits)

lemma transform_receipt_Inr:
  assumes "transform_receipt snap m ps = Inr p"
  shows "\<exists>t. p_target p = Some t \<and> \<not> requireEIP1898 p \<and> p_method p = m \<and> IsEVMHash (receiptHash p)
    \<and> Get snap Latest = Some t \<and> \<not> IsZero t \<and> ps = [JStr (receiptHash p)] \<and> p_parameters p = Some (MarshalParams ps)
    \<and> localResponse p = None"
proof -
  obtain v h t where p: "ps = [v]" "unmarshal_string (Some v) = Some h" "IsEVMHash h" "getSnapshotHead snap Latest = Inr t"
    "p = (prepared_request m (Some (MarshalParams ps)))\<lparr>receiptHash := h, p_target := Some t\<rparr>"
    using assms unfolding transform_receipt_def
    by (cases ps) (auto split: if_splits option.splits sum.splits)
  have "h \<noteq> []" using p(3) by (auto simp: IsEVMHash_def)
  then have "v = JStr h" using unmarshal_string_nonempty [OF p(2)] by simp
  with p show ?thesis by (simp add: getSnapshotHead_Inr)
qed

lemma transform_explicit_Inr:
  assumes "transform_explicit r m ps = Inr p"
  shows "\<exists>h. p_target p = Some (explicit_target r h) \<and> IsEVMHash h \<and> \<not> requireEIP1898 p \<and> p_method p = m
    \<and> ps \<noteq> [] \<and> hd ps = JStr h \<and> p_parameters p = Some (MarshalParams ps) \<and> receiptHash p = [] \<and> localResponse p = None"
proof -
  obtain h where p: "ps \<noteq> []" "unmarshal_string (Some (hd ps)) = Some h" "IsEVMHash h"
    "p = (prepared_request m (Some (MarshalParams ps)))\<lparr>p_target := Some (explicit_target r h)\<rparr>"
    using assms unfolding transform_explicit_def by (auto split: if_splits option.splits)
  have "h \<noteq> []" using p(3) by (auto simp: IsEVMHash_def)
  then have "hd ps = JStr h" using unmarshal_string_nonempty [OF p(2)] by simp
  with p show ?thesis by simp
qed

lemma GetEVMBlock_JStr:
  assumes "GetEVMBlock env r (Some (JStr s)) snap w = (Inr t, w')"
  shows "on_accepted_branch r snap t"
proof -
  have "getRequiredHead snap Latest = Inr t \<or> (\<exists>q. getEVMBlockByQuantity env r q snap w = (Inr t, w'))"
    using assms by (auto simp: GetEVMBlock_def split: if_splits)
  then show ?thesis
    by (auto simp: getRequiredHead_Inr intro: on_accepted_branch_accepted on_accepted_branch_quantity)
qed

lemma unmarshal_string_JStr_iff:
  "s \<noteq> [] \<Longrightarrow> unmarshal_string (Some v) = Some s \<longleftrightarrow> v = JStr s"
  using unmarshal_string_nonempty [of "Some v" s] by auto

lemma getEVMLogBound_Inr:
  "getEVMLogBound sel accepted = Inr n \<Longrightarrow> n \<le> Number accepted"
  by (auto simp: getEVMLogBound_def split: if_splits sum.splits)

text \<open>The two outcomes of a range of blocks.\<close>

definition log_by_hash :: "runtime \<Rightarrow> snapshot \<Rightarrow> raw_map \<Rightarrow> preparedRequest \<Rightarrow> bool" where
  "log_by_hash r snap filt p \<longleftrightarrow> (\<exists>t m. p_target p = Some t \<and> on_accepted_branch r snap t \<and> logRange p = None
     \<and> verifyBoundaries p = [] \<and> p_parameters p = Some (MarshalParams [marshal_map m]) \<and> distinct (map fst m)
     \<and> map_of m = (map_of filt)(''fromBlock'' := None, ''toBlock'' := None, ''blockHash'' \<mapsto> JStr (Hash t)))"

definition log_by_range :: "snapshot \<Rightarrow> raw_map \<Rightarrow> preparedRequest \<Rightarrow> bool" where
  "log_by_range snap filt p \<longleftrightarrow> (\<exists>accepted m a b. Get snap Latest = Some accepted \<and> \<not> IsZero accepted
     \<and> p_target p = Some accepted \<and> verifyBoundaries p = [accepted] \<and> logRange p = Some (a, b)
     \<and> a \<le> b \<and> b \<le> Number accepted \<and> p_parameters p = Some (MarshalParams [marshal_map m]) \<and> distinct (map fst m)
     \<and> map_of m = (map_of filt)(''fromBlock'' \<mapsto> JStr (FormatEVMQuantity a), ''toBlock'' \<mapsto> JStr (FormatEVMQuantity b)))"

lemma unmarshal_map_distinct: "unmarshal_map v = Some (Some m) \<Longrightarrow> distinct (map fst m)"
  by (cases v rule: unmarshal_map.cases) auto

lemma logs_by_range_Inr:
  assumes "logs_by_range env r snap filt (JStr s) accepted a b w = (Inr p, w')"
    and "Get snap Latest = Some accepted" "\<not> IsZero accepted" "a \<le> Number accepted" "b \<le> Number accepted"
    and "distinct (map fst filt)"
  shows "log_by_hash r snap filt p \<or> log_by_range snap filt p"
proof (cases "a = b \<and> Number accepted - a \<le> word_of_int (ReorgDepth (rt_Config r))")
  case True
  then obtain t where t: "GetEVMBlock env r (Some (JStr s)) snap w = (Inr t, w')"
    "p = prepareEVMLogRequest
       (map_set ''blockHash'' (JStr (Hash t)) (map_delete ''toBlock'' (map_delete ''fromBlock'' filt))) t []"
    using assms(1) by (auto simp: logs_by_range_def getEVMBlock_Inr split: if_splits prod.splits sum.splits)
  have "log_by_hash r snap filt p"
    unfolding log_by_hash_def t(2) prepareEVMLogRequest_def using GetEVMBlock_JStr [OF t(1)] assms(6)
    by (intro exI [of _ t] exI
        [of _ "map_set ''blockHash'' (JStr (Hash t)) (map_delete ''toBlock'' (map_delete ''fromBlock'' filt))"])
      (auto simp: fun_eq_iff)
  then show ?thesis ..
next
  case False
  then have p: "\<not> a > b" "p = (prepareEVMLogRequest (map_set ''toBlock'' (JStr (FormatEVMQuantity b))
              (map_set ''fromBlock'' (JStr (FormatEVMQuantity a)) filt)) accepted [accepted])\<lparr>logRange := Some (a, b)\<rparr>"
    using assms(1) by (auto simp: logs_by_range_def split: if_splits)
  have "log_by_range snap filt p"
    unfolding log_by_range_def p(2) prepareEVMLogRequest_def using assms p(1)
    by (intro exI [of _ accepted] exI [of _ "map_set ''toBlock'' (JStr (FormatEVMQuantity b))
              (map_set ''fromBlock'' (JStr (FormatEVMQuantity a)) filt)"] exI [of _ a] exI [of _ b])
      (auto simp: fun_eq_iff)
  then show ?thesis ..
qed

lemma transformEVMLogs_method:
  "transformEVMLogs env r snap ps w = (Inr p, w') \<Longrightarrow>
     p_method p = ''eth_getLogs'' \<and> \<not> requireEIP1898 p \<and> receiptHash p = [] \<and> localResponse p = None"
  unfolding transformEVMLogs_def Let_def logs_by_hash_def logs_by_range_def prepareEVMLogRequest_def
  by (auto split: if_splits option.splits sum.splits prod.splits)

lemma transformEVMLogs_target: "transformEVMLogs env r snap ps w = (Inr p, w') \<Longrightarrow> p_target p \<noteq> None"
  unfolding transformEVMLogs_def Let_def logs_by_hash_def logs_by_range_def prepareEVMLogRequest_def
  by (auto split: if_splits option.splits sum.splits prod.splits)

lemma transformEVMLogs_Inr:
  assumes "transformEVMLogs env r snap ps w = (Inr p, w')"
  shows "\<exists>v filt. ps = [v] \<and> unmarshal_map v = Some (Some filt) \<and>
    (case map_of filt ''blockHash'' of
       Some rawHash \<Rightarrow> (\<exists>h. rawHash = JStr h \<and> IsEVMHash h \<and> p_target p = Some (explicit_target r h)
          \<and> p_parameters p = Some (MarshalParams ps) \<and> logRange p = None \<and> verifyBoundaries p = []
          \<and> map_of filt ''fromBlock'' = None \<and> map_of filt ''toBlock'' = None)
     | None \<Rightarrow> log_by_hash r snap filt p \<or> log_by_range snap filt p)"
proof -
  obtain v filt where v: "ps = [v]" "unmarshal_map v = Some (Some filt)"
    using assms unfolding transformEVMLogs_def by (cases ps) (auto split: if_splits option.splits)
  show ?thesis
  proof (cases "map_of filt ''blockHash''")
    case (Some rawHash)
    then have "logs_by_hash r ps filt rawHash = Inr p"
      using assms v by (auto simp: transformEVMLogs_def)
    then obtain h where h: "unmarshal_string (Some rawHash) = Some h" "IsEVMHash h"
      "map_of filt ''fromBlock'' = None" "map_of filt ''toBlock'' = None"
      "p = (prepared_request ''eth_getLogs'' (Some (MarshalParams ps)))\<lparr>p_target := Some (explicit_target r h)\<rparr>"
      by (auto simp: logs_by_hash_def split: if_splits option.splits)
    have "h \<noteq> []" using h(2) by (auto simp: IsEVMHash_def)
    then have "rawHash = JStr h" using unmarshal_string_nonempty [OF h(1)] by simp
    then show ?thesis using v Some h by simp
  next
    case None
    then obtain accepted f s a b where r: "getSnapshotHead snap Latest = Inr accepted"
      "unmarshal_string (Some (or_latest (map_of filt ''toBlock''))) = Some s" "s \<noteq> []"
      "getEVMLogBound f accepted = Inr a" "getEVMLogBound s accepted = Inr b"
      "logs_by_range env r snap filt (or_latest (map_of filt ''toBlock'')) accepted a b w = (Inr p, w')"
      using assms v by (auto simp: transformEVMLogs_def Let_def split: if_splits option.splits sum.splits)
    have "or_latest (map_of filt ''toBlock'') = JStr s" using r(2,3) by (simp add: unmarshal_string_JStr_iff)
    then show ?thesis
      using v None r logs_by_range_Inr [of env r snap filt s accepted a b w p w'] unmarshal_map_distinct [OF v(2)]
      by (simp add: getSnapshotHead_Inr getEVMLogBound_Inr)
  qed
qed

lemma names_hash_JStr [simp]: "names_hash h (JStr s) \<longleftrightarrow> h = s"
  by (auto simp: names_hash_def reference_object_def)

lemma nth_pad_params: "i < length ps \<Longrightarrow> pad_params ps i x ! i = ps ! i" "pad_params ps (length ps) x ! length ps = x"
  by (simp_all add: pad_params_def nth_append)

lemma length_pad_params [simp]: "i \<le> length ps \<Longrightarrow> i < length (pad_params ps i x)"
  by (simp add: pad_params_def)

lemma getEVMBlockMethod_hash:
  "getEVMBlockMethod m = Some (i, m') \<Longrightarrow> i = 0 \<and> isEVMExplicitHashMethod m'"
  by (auto simp: getEVMBlockMethod_def isEVMExplicitHashMethod_def split: if_splits)

text \<open>How a prepared read names its target \<open>t\<close> to the upstream, by the method that is sent.\<close>

definition names_target :: "snapshot \<Rightarrow> preparedRequest \<Rightarrow> head \<Rightarrow> json list \<Rightarrow> bool" where
  "names_target snap p t qs \<longleftrightarrow>
     (\<exists>i. getEVMStateBlockIndex (p_method p) = Some i \<and> requireEIP1898 p \<and> i < length qs \<and> qs ! i = block_identifier t) \<or>
     (isEVMExplicitHashMethod (p_method p) \<and> qs \<noteq> [] \<and> hd qs = JStr (Hash t)) \<or>
     (p_method p = ''eth_getLogs'' \<and> (\<exists>filt. map (\<lambda>q. map_option (map_option map_of) (unmarshal_map q)) qs = [Some (Some filt)] \<and>
        (case logRange p of
           None \<Rightarrow> filt ''blockHash'' = Some (JStr (Hash t))
         | Some (a, b) \<Rightarrow> a \<le> b \<and> b \<le> Number t \<and> Get snap Latest = Some t \<and> verifyBoundaries p = [t] \<and>
             filt ''fromBlock'' = Some (JStr (FormatEVMQuantity a)) \<and> filt ''toBlock'' = Some (JStr (FormatEVMQuantity b))))) \<or>
     (p_method p = ''eth_feeHistory'' \<and> 1 < length qs \<and> qs ! 1 = JStr (FormatEVMQuantity (Number t)) \<and>
        verifyBoundaries p = [t]) \<or>
     (p_method p = ''eth_getTransactionReceipt'' \<and> Get snap Latest = Some t \<and> IsEVMHash (receiptHash p) \<and>
        qs = [JStr (receiptHash p)])"

definition evm_pinned :: "runtime \<Rightarrow> snapshot \<Rightarrow> json list \<Rightarrow> preparedRequest \<Rightarrow> bool" where
  "evm_pinned r snap ps p \<longleftrightarrow>
     (case p_target p of
        None \<Rightarrow> isEVMHeadNeutralMethod (p_method p)
      | Some t \<Rightarrow> target_from r snap ps t \<and>
          (if localResponse p = None then \<exists>qs. p_parameters p = Some (MarshalParams qs) \<and> names_target snap p t qs
           else Get snap Latest = Some t \<and> localResponse p = Some (JStr (FormatEVMQuantity (Number t)))))"

lemma evm_pinned_Some:
  "p_target p = Some t \<Longrightarrow> target_from r snap ps t \<Longrightarrow> localResponse p = None \<Longrightarrow>
     p_parameters p = Some (MarshalParams qs) \<Longrightarrow> names_target snap p t qs \<Longrightarrow> evm_pinned r snap ps p"
  unfolding evm_pinned_def by (simp only: option.case if_True refl) blast

lemma transform_state_pinned:
  assumes "transform_state env r snap m i ps w = (Inr p, w')" "getEVMStateBlockIndex m = Some i"
  shows "evm_pinned r snap ps p"
proof -
  from transform_state_Inr [OF assms(1)] obtain t v where p: "p_target p = Some t" "requireEIP1898 p" "p_method p = m"
    "v = pad_params ps i (JStr ''latest'') ! i" "on_accepted_branch r snap t \<or> hash_target t \<and> names_hash (Hash t) v"
    "p_parameters p = Some (MarshalParams ((pad_params ps i (JStr ''latest''))[i := block_identifier t]))"
    "i \<le> length ps" "localResponse p = None" by blast
  have "target_from r snap ps t"
  proof (cases "i < length ps")
    case True
    then show ?thesis using p(4,5) by (auto simp: target_from_def nth_pad_params)
  next
    case False
    then have "v = JStr ''latest''" using p(4,7) nth_pad_params(2) [of ps] by (metis le_neq_implies_less)
    moreover have "\<not> IsEVMHash ''latest''" by (simp add: IsEVMHash_def)
    ultimately show ?thesis using p(5) by (auto simp: target_from_def hash_target_def)
  qed
  then show ?thesis using p assms(2)
    by (intro evm_pinned_Some [OF p(1) _ p(8) p(6)]) (auto simp: names_target_def)
qed

lemma transform_block_pinned:
  assumes "transform_block env r snap (i, m) ps w = (Inr p, w')" "i = 0" "isEVMExplicitHashMethod m"
  shows "evm_pinned r snap ps p"
proof -
  from transform_block_Inr [OF assms(1)] obtain t where p: "p_target p = Some t" "p_method p = m" "i < length ps"
    "on_accepted_branch r snap t \<or> hash_target t \<and> names_hash (Hash t) (ps ! i)"
    "p_parameters p = Some (MarshalParams (ps[i := JStr (Hash t)]))" "localResponse p = None" by blast
  have "target_from r snap ps t" using p(3,4) by (auto simp: target_from_def)
  then show ?thesis using p assms(2,3)
    by (intro evm_pinned_Some [OF p(1) _ p(6) p(5)]) (auto simp: names_target_def hd_conv_nth)
qed

lemma transform_fee_pinned:
  assumes "transform_fee_history env r snap ''eth_feeHistory'' ps w = (Inr p, w')"
  shows "evm_pinned r snap ps p"
proof -
  from transform_fee_history_Inr [OF assms] obtain t where p: "p_target p = Some t" "p_method p = ''eth_feeHistory''"
    "1 < length ps" "on_accepted_branch r snap t \<or> hash_target t \<and> names_hash (Hash t) (ps ! 1)"
    "p_parameters p = Some (MarshalParams (ps[1 := JStr (FormatEVMQuantity (Number t))]))" "verifyBoundaries p = [t]"
    "localResponse p = None" by blast
  have "target_from r snap ps t" using p(3,4) by (auto simp: target_from_def)
  then show ?thesis using p
    by (intro evm_pinned_Some [OF p(1) _ p(7) p(5)]) (auto simp: names_target_def)
qed

lemma transform_explicit_pinned:
  assumes "transform_explicit r m ps = Inr p" "isEVMExplicitHashMethod m"
  shows "evm_pinned r snap ps p"
proof -
  from transform_explicit_Inr [OF assms(1)] obtain h where p: "p_target p = Some (explicit_target r h)" "IsEVMHash h"
    "p_method p = m" "ps \<noteq> []" "hd ps = JStr h" "p_parameters p = Some (MarshalParams ps)" "localResponse p = None" by blast
  have "hd ps \<in> set ps" using p(4) by simp
  then have "target_from r snap ps (explicit_target r h)" using p(2,5)
    by (auto simp: target_from_def intro!: bexI [of _ "hd ps"])
  then show ?thesis using p assms(2)
    by (intro evm_pinned_Some [OF p(1) _ p(7) p(6)]) (auto simp: names_target_def)
qed

lemma transform_receipt_pinned:
  assumes "transform_receipt snap ''eth_getTransactionReceipt'' ps = Inr p"
  shows "evm_pinned r snap ps p"
proof -
  from transform_receipt_Inr [OF assms] obtain t where p: "p_target p = Some t"
    "p_method p = ''eth_getTransactionReceipt''" "IsEVMHash (receiptHash p)" "Get snap Latest = Some t" "\<not> IsZero t"
    "ps = [JStr (receiptHash p)]" "p_parameters p = Some (MarshalParams ps)" "localResponse p = None" by blast
  show ?thesis using p
    by (intro evm_pinned_Some [OF p(1) _ p(8) p(7)])
      (auto simp: names_target_def target_from_def on_accepted_branch_accepted)
qed

lemma unmarshal_marshal_map_map_of:
  "distinct (map fst m) \<Longrightarrow> map_option (map_option map_of) (unmarshal_map (marshal_map m)) = Some (Some (map_of m))"
  using unmarshal_marshal_map [of m] by auto

lemma transform_logs_pinned:
  assumes "transformEVMLogs env r snap ps w = (Inr p, w')"
  shows "evm_pinned r snap ps p"
proof -
  note m = transformEVMLogs_method [OF assms]
  from transformEVMLogs_Inr [OF assms] obtain v filt where v: "ps = [v]" "unmarshal_map v = Some (Some filt)"
    and c: "case map_of filt ''blockHash'' of
       Some rawHash \<Rightarrow> (\<exists>h. rawHash = JStr h \<and> IsEVMHash h \<and> p_target p = Some (explicit_target r h)
          \<and> p_parameters p = Some (MarshalParams ps) \<and> logRange p = None \<and> verifyBoundaries p = []
          \<and> map_of filt ''fromBlock'' = None \<and> map_of filt ''toBlock'' = None)
     | None \<Rightarrow> log_by_hash r snap filt p \<or> log_by_range snap filt p" by blast
  show ?thesis
  proof (cases "map_of filt ''blockHash''")
    case (Some rawHash)
    then obtain h where h: "rawHash = JStr h" "IsEVMHash h" "p_target p = Some (explicit_target r h)"
      "p_parameters p = Some (MarshalParams ps)" "logRange p = None" using c by auto
    have "names_hash h v" unfolding names_hash_def using v(2) Some h(1) by auto
    then have "target_from r snap ps (explicit_target r h)" using v(1) h(2) by (simp add: target_from_def)
    moreover have "names_target snap p (explicit_target r h) ps"
      unfolding names_target_def using m v Some h(1,5) by simp
    ultimately show ?thesis using m by (intro evm_pinned_Some [OF h(3) _ _ h(4)]) simp_all
  next
    case None
    then consider "log_by_hash r snap filt p" | "log_by_range snap filt p" using c by auto
    then show ?thesis
    proof cases
      case 1
      then obtain t m' where t: "p_target p = Some t" "on_accepted_branch r snap t" "logRange p = None"
        "p_parameters p = Some (MarshalParams [marshal_map m'])" "distinct (map fst m')"
        "map_of m' = (map_of filt)(''fromBlock'' := None, ''toBlock'' := None, ''blockHash'' \<mapsto> JStr (Hash t))"
        unfolding log_by_hash_def by blast
      then have "names_target snap p t [marshal_map m']"
        unfolding names_target_def using m by (simp add: unmarshal_marshal_map_map_of)
      then show ?thesis using m t(2) by (intro evm_pinned_Some [OF t(1) _ _ t(4)]) (simp_all add: target_from_def)
    next
      case 2
      then obtain t m' a b where t: "Get snap Latest = Some t" "\<not> IsZero t" "p_target p = Some t" "logRange p = Some (a, b)"
        "verifyBoundaries p = [t]" "a \<le> b" "b \<le> Number t"
        "p_parameters p = Some (MarshalParams [marshal_map m'])" "distinct (map fst m')"
        "map_of m' = (map_of filt)(''fromBlock'' \<mapsto> JStr (FormatEVMQuantity a), ''toBlock'' \<mapsto> JStr (FormatEVMQuantity b))"
        unfolding log_by_range_def by blast
      then have "names_target snap p t [marshal_map m']"
        unfolding names_target_def using m by (simp add: unmarshal_marshal_map_map_of)
      then show ?thesis using m t(1,2)
        by (intro evm_pinned_Some [OF t(3) _ _ t(8)]) (simp_all add: target_from_def on_accepted_branch_accepted)
    qed
  qed
qed

subsection \<open>The dispatch pins every EVM read\<close>

lemma transformEVMRequest_pinned:
  assumes "transformEVMRequest env r snap req w = (Inr p, w')"
  shows "\<exists>ps. ParseParams (Params req) = Inr ps \<and> evm_pinned r snap ps p"
proof -
  obtain ps where ps: "ParseParams (Params req) = Inr ps"
    using assms by (auto simp: transformEVMRequest_def split: sum.splits)
  have "evm_pinned r snap ps p"
  proof (cases "getEVMStateBlockIndex (Method req)")
    case (Some i)
    then have "transform_state env r snap (Method req) i ps w = (Inr p, w')"
      using assms ps by (simp add: transformEVMRequest_def)
    then show ?thesis using Some by (rule transform_state_pinned)
  next
    case None
    note state = None
    show ?thesis
    proof (cases "getEVMBlockMethod (Method req)")
      case (Some im)
      obtain i m where im: "im = (i, m)" by (cases im)
      have "transform_block env r snap (i, m) ps w = (Inr p, w')"
        using assms ps state Some im by (simp add: transformEVMRequest_def)
      moreover have "i = 0" "isEVMExplicitHashMethod m"
        using getEVMBlockMethod_hash [of "Method req" i m] Some im by simp_all
      ultimately show ?thesis by (rule transform_block_pinned)
    next
      case None
      have run: "(if Method req = ''eth_blockNumber'' then (transform_block_number snap (Method req) ps, w)
             else if Method req = ''eth_getLogs'' then transformEVMLogs env r snap ps w
             else if Method req = ''eth_feeHistory'' then transform_fee_history env r snap (Method req) ps w
             else if Method req = ''eth_getTransactionReceipt'' then (transform_receipt snap (Method req) ps, w)
             else if isEVMHeadNeutralMethod (Method req)
             then (Inr (prepared_request (Method req) (Some (MarshalParams ps))), w)
             else if isEVMExplicitHashMethod (Method req) then (transform_explicit r (Method req) ps, w)
             else (Inl (UnsupportedConsistency (Method req) ''method is not in the strict EVM read registry''), w))
             = (Inr p, w')"
        using assms ps state None by (simp add: transformEVMRequest_def)
      consider "transform_block_number snap (Method req) ps = Inr p"
        | "transformEVMLogs env r snap ps w = (Inr p, w')"
        | "transform_fee_history env r snap ''eth_feeHistory'' ps w = (Inr p, w')"
        | "transform_receipt snap ''eth_getTransactionReceipt'' ps = Inr p"
        | "isEVMHeadNeutralMethod (Method req)" "p = prepared_request (Method req) (Some (MarshalParams ps))"
        | "isEVMExplicitHashMethod (Method req)" "transform_explicit r (Method req) ps = Inr p"
        using run by (auto split: if_splits)
      then show ?thesis
      proof cases
        case 1
        then show ?thesis
          by (auto simp: transform_block_number_def evm_pinned_def target_from_def on_accepted_branch_accepted
              getSnapshotHead_Inr split: if_splits sum.splits)
      next
        case 5
        then show ?thesis by (simp add: evm_pinned_def)
      qed (blast intro: transform_logs_pinned transform_fee_pinned transform_receipt_pinned
          transform_explicit_pinned)+
    qed
  qed
  with ps show ?thesis by blast
qed

text \<open>
  Property C3. Every EVM read that is let through is pinned: its target is the snapshot's accepted
  head, a header reached from it by parent links within the reorg depth while no reorg is pending,
  or a block hash that one of the caller's own parameters names; and what is sent names that target
  and nothing that moves: the block hash with required canonicality for state reads, the block hash
  for block reads, the block hash or a range below the pinned head for logs, the pinned number for
  fee history, the transaction hash for receipts. Only the chain identifier, the network version and
  the client version go without a target.
\<close>

theorem evm_reads_pinned:
  assumes "transformRequest env r snap req w = (Inr p, w')" "cc_Family (rt_Config r) = ''evm''"
    and "Method req \<noteq> ''eth_chainId''"
  shows "\<exists>ps. ParseParams (Params req) = Inr ps \<and> evm_pinned r snap ps p"
  using assms by (intro transformEVMRequest_pinned [of env r snap req w p w'])
    (auto simp: transformRequest_def isStaticMethod_def Let_def split: if_splits)

definition sample_request :: "string \<Rightarrow> json list \<Rightarrow> request" where
  "sample_request m ps = \<lparr>JSONRPC = ''2.0'', ID = Some (JNum ''1''), Method = m, Params = Some (JArr ps)\<rparr>"

theorem evm_reads_pinned_witness:
  "\<exists>p. fst (transformRequest sample_env sample_runtime sample_snapshot (sample_request ''eth_getBalance'' [JStr ''0x1'']) [])
       = Inr p \<and> evm_pinned sample_runtime sample_snapshot [JStr ''0x1''] p"
proof -
  let ?req = "sample_request ''eth_getBalance'' [JStr ''0x1'']"
  obtain t where t: "Get sample_snapshot Latest = Some t" "\<not> IsZero t"
    by (simp add: Get_def sample_snapshot_def IsZero_def)
  have run: "transformRequest sample_env sample_runtime sample_snapshot ?req [] =
      (Inr ((prepared_request ''eth_getBalance'' (Some (MarshalParams [JStr ''0x1'', block_identifier t])))
         \<lparr>p_target := Some t, requireEIP1898 := True\<rparr>), [])"
    using t by (simp add: transformRequest_def transformEVMRequest_def registry_defs HasPrefix_def sample_request_def
        ParseParams_def transform_state_def pad_params_def getEVMBlock_def GetEVMBlock_def Latest_def
        getRequiredHead_def sample_runtime_def NewRuntime_def sample_chain_def)
  have "cc_Family (rt_Config sample_runtime) = ''evm''"
    by (simp add: sample_runtime_def NewRuntime_def sample_chain_def)
  moreover have "Method ?req \<noteq> ''eth_chainId''" "ParseParams (Params ?req) = Inr [JStr ''0x1'']"
    by (simp_all add: sample_request_def ParseParams_def)
  ultimately show ?thesis using evm_reads_pinned [OF run] run by auto
qed

text \<open>
  Property C26. A log filter without a block hash keeps every other member the caller gave (addresses,
  topics) and is sent in one of two forms: the hash of one block on the accepted branch in place of
  the bounds, or both bounds as numbers with the lower one first and none above the accepted head,
  which is then checked as the range's boundary.
\<close>

theorem log_filter_rewritten:
  assumes "transformEVMLogs env r snap [JObj ms] w = (Inr p, w')" "map_of (members_map ms) ''blockHash'' = None"
  shows "\<exists>m. p_parameters p = Some (MarshalParams [marshal_map m]) \<and> distinct (map fst m)
    \<and> (\<forall>k. k \<notin> {''blockHash'', ''fromBlock'', ''toBlock''} \<longrightarrow> map_of m k = map_of (members_map ms) k)
    \<and> (case logRange p of
         None \<Rightarrow> \<exists>t. p_target p = Some t \<and> on_accepted_branch r snap t \<and> map_of m ''blockHash'' = Some (JStr (Hash t))
            \<and> map_of m ''fromBlock'' = None \<and> map_of m ''toBlock'' = None
       | Some (a, b) \<Rightarrow> \<exists>t. p_target p = Some t \<and> Get snap Latest = Some t \<and> verifyBoundaries p = [t]
            \<and> a \<le> b \<and> b \<le> Number t \<and> map_of m ''blockHash'' = None
            \<and> map_of m ''fromBlock'' = Some (JStr (FormatEVMQuantity a))
            \<and> map_of m ''toBlock'' = Some (JStr (FormatEVMQuantity b)))"
proof -
  have "log_by_hash r snap (members_map ms) p \<or> log_by_range snap (members_map ms) p"
    using transformEVMLogs_Inr [OF assms(1)] assms(2) by auto
  then show ?thesis
  proof
    assume "log_by_hash r snap (members_map ms) p"
    then obtain t m where t: "p_target p = Some t" "on_accepted_branch r snap t" "logRange p = None"
      "p_parameters p = Some (MarshalParams [marshal_map m])" "distinct (map fst m)"
      "map_of m = (map_of (members_map ms))(''fromBlock'' := None, ''toBlock'' := None, ''blockHash'' \<mapsto> JStr (Hash t))"
      unfolding log_by_hash_def by blast
    then show ?thesis by (intro exI [of _ m]) simp
  next
    assume "log_by_range snap (members_map ms) p"
    then obtain t m a b where t: "Get snap Latest = Some t" "p_target p = Some t" "logRange p = Some (a, b)"
      "verifyBoundaries p = [t]" "a \<le> b" "b \<le> Number t" "p_parameters p = Some (MarshalParams [marshal_map m])"
      "distinct (map fst m)"
      "map_of m = (map_of (members_map ms))(''fromBlock'' \<mapsto> JStr (FormatEVMQuantity a), ''toBlock'' \<mapsto> JStr (FormatEVMQuantity b))"
      unfolding log_by_range_def by blast
    then show ?thesis using assms(2) by (intro exI [of _ m]) simp
  qed
qed

theorem log_filter_rewritten_witness:
  "\<exists>p m. fst (transformEVMLogs sample_env sample_runtime sample_snapshot
       [JObj [(''address'', JStr ''0x2''), (''fromBlock'', JStr (FormatEVMQuantity 3))]] []) = Inr p \<and> logRange p = Some (3, 9)
     \<and> p_parameters p = Some (MarshalParams [marshal_map m]) \<and> map_of m ''address'' = Some (JStr ''0x2'')"
proof -
  let ?ms = "[(''address'', JStr ''0x2''), (''fromBlock'', JStr (FormatEVMQuantity 3))]"
  have q: "FormatEVMQuantity 3 \<notin> {[], ''latest'', ''earliest'', ''pending'', ''safe'', ''finalized''}"
    by (simp add: FormatEVMQuantity_def)
  obtain t where t: "getSnapshotHead sample_snapshot Latest = Inr t" "Number t = 9"
    by (simp add: getSnapshotHead_def Get_def sample_snapshot_def IsZero_def)
  have bounds: "getEVMLogBound (FormatEVMQuantity 3) t = Inr 3" "getEVMLogBound ''latest'' t = Inr 9"
    using q t(2) by (simp_all add: getEVMLogBound_def commitment_defs)
  have members: "map_of (members_map ?ms) ''fromBlock'' = Some (JStr (FormatEVMQuantity 3))"
    "map_of (members_map ?ms) ''toBlock'' = None" "map_of (members_map ?ms) ''blockHash'' = None"
    by (simp_all add: members_map_def)
  obtain p where p: "logs_by_range sample_env sample_runtime sample_snapshot (members_map ?ms) (JStr ''latest'') t 3 9 []
      = (Inr p, [])" "logRange p = Some (3, 9)"
    by (simp add: logs_by_range_def)
  have run: "transformEVMLogs sample_env sample_runtime sample_snapshot [JObj ?ms] [] = (Inr p, [])"
    using q t p(1) bounds members by (simp add: transformEVMLogs_def or_latest_def Let_def)
  have "map_of (members_map ?ms) ''blockHash'' = None" "map_of (members_map ?ms) ''address'' = Some (JStr ''0x2'')"
    by (simp_all add: members_map_def)
  with log_filter_rewritten [OF run] run p(2) show ?thesis by force
qed

subsection \<open>Solana slot floors\<close>

lemma transform_solana_pinned_Inr:
  assumes "transform_solana_pinned snap m i ps = Inr p"
  obtains cfg c h slot mc where "i \<le> length ps" "solana_config (pad_params ps i (JObj []) ! i) = Some cfg"
    "solana_commitment cfg = Some c" "Get snap c = Some h" "\<not> IsZero h" "solana_minimum cfg (Number h) = Some slot"
    "p_target p = Some (h\<lparr>Number := slot\<rparr>)" "p_method p = m" "receiptHash p = []" "localResponse p = None"
    "verifyContextSlot p = hasSolanaContext m" "verifyBoundaries p = []" "\<not> requireEIP1898 p"
    "p_parameters p = Some (MarshalParams ((pad_params ps i (JObj []))[i := marshal_map mc]))"
    "map_of mc ''commitment'' = Some (JStr c)" "map_of mc ''minContextSlot'' = Some (JNum (show_u64 slot))"
    "\<forall>k. k \<notin> {''commitment'', ''minContextSlot'', ''withContext''} \<longrightarrow> map_of mc k = map_of cfg k"
    "m \<noteq> ''getProgramAccounts'' \<longrightarrow> map_of mc ''withContext'' = map_of cfg ''withContext''"
    "unwrapContext p \<longrightarrow> m = ''getProgramAccounts''"
proof -
  obtain cfg c h slot where s: "i \<le> length ps" "solana_config (pad_params ps i (JObj []) ! i) = Some cfg"
    "solana_commitment cfg = Some c" "getSnapshotHead snap c = Inr h" "solana_minimum cfg (Number h) = Some slot"
    using assms unfolding transform_solana_pinned_def Let_def by (auto split: if_splits option.splits sum.splits)
  define pinned where "pinned = map_set ''minContextSlot'' (JNum (show_u64 slot)) (map_set ''commitment'' (JStr c) cfg)"
  obtain mc u where p: "p = (prepared_request m (Some (MarshalParams ((pad_params ps i (JObj []))[i := marshal_map mc]))))
      \<lparr>p_target := Some (h\<lparr>Number := slot\<rparr>), verifyContextSlot := hasSolanaContext m, unwrapContext := u\<rparr>"
    "mc = pinned \<and> \<not> u \<and> m \<noteq> ''getProgramAccounts'' \<or> mc = map_set ''withContext'' (JBool True) pinned \<and> m = ''getProgramAccounts''"
    using assms s unfolding transform_solana_pinned_def Let_def pinned_def
    by (auto split: if_splits option.splits)
  show thesis
    by (rule that [OF s(1-3) _ _ s(5), of mc]) (use s(4) p in \<open>auto simp: getSnapshotHead_Inr pinned_def\<close>)
qed

lemma solana_commitment_Some:
  "solana_commitment cfg = Some c \<Longrightarrow>
     c \<in> {Processed, Confirmed, Finalized} \<and> (map_of cfg ''commitment'' = None \<longrightarrow> c = Finalized) \<and>
     (\<forall>s. map_of cfg ''commitment'' = Some (JStr s) \<longrightarrow> c = s)"
  by (auto simp: solana_commitment_def split: option.splits if_splits json.splits)

lemma solana_minimum_Some:
  "solana_minimum cfg n = Some slot \<Longrightarrow>
     n \<le> slot \<and> (map_of cfg ''minContextSlot'' = None \<longrightarrow> slot = n) \<and>
     (\<forall>v. map_of cfg ''minContextSlot'' = Some v \<longrightarrow>
        (\<exists>s. unmarshal_uint_ptr (Some v) = Some (Some s) \<and> slot = max n s))"
  by (auto simp: solana_minimum_def split: option.splits)


definition sample_slots :: snapshot where
  "sample_slots = \<lparr>sChain = ''sol'', sHeads = [Finalized \<mapsto> zero_head\<lparr>Chain := ''sol'', Family := ''solana'',
     Commitment := Finalized, Number := 70\<rparr>]\<rparr>"


subsection \<open>Writes and unknown methods\<close>

text \<open>Every method a request can be sent under, by family.\<close>

definition read_registry :: "string \<Rightarrow> string list" where
  "read_registry family =
     (if family = ''evm''
      then [''eth_getBalance'', ''eth_getTransactionCount'', ''eth_getCode'', ''eth_call'', ''eth_getStorageAt'',
        ''eth_getProof'', ''eth_getBlockByHash'', ''eth_getBlockTransactionCountByHash'',
        ''eth_getTransactionByBlockHashAndIndex'', ''eth_getUncleByBlockHashAndIndex'',
        ''eth_getUncleCountByBlockHash'', ''eth_blockNumber'', ''eth_getLogs'', ''eth_feeHistory'',
        ''eth_getTransactionReceipt'', ''eth_chainId'', ''net_version'', ''web3_clientVersion'']
      else [''getBlockHeight'', ''getEpochInfo'', ''getLatestBlockhash'', ''getSlot'', ''getSlotLeader'',
        ''getStakeMinimumDelegation'', ''getTransactionCount'', ''getAccountInfo'', ''getBalance'', ''getFeeForMessage'',
        ''getMultipleAccounts'', ''getProgramAccounts'', ''getSignaturesForAddress'', ''isBlockhashValid'',
        ''simulateTransaction'', ''getTokenAccountsByDelegate'', ''getTokenAccountsByOwner'', ''getGenesisHash'',
        ''getVersion'', ''getBlock'', ''getBlockCommitment'', ''getBlockTime'', ''getHealth'', ''getEpochSchedule''])"

lemma read_registry_no_writes: "m \<in> set (read_registry family) \<Longrightarrow> \<not> isWriteMethod m family"
  by (cases "family = ''evm''") (auto simp: read_registry_def isWriteMethod_def HasPrefix_def)

lemma registries_listed:
  "getEVMStateBlockIndex m = Some i \<Longrightarrow> m \<in> set (read_registry ''evm'')"
  "isEVMExplicitHashMethod m \<Longrightarrow> m \<in> set (read_registry ''evm'')"
  "isEVMHeadNeutralMethod m \<Longrightarrow> m \<in> set (read_registry ''evm'')"
  by (auto simp: registry_defs read_registry_def split: if_splits)

lemma solana_registries_listed:
  "getSolanaConfigIndex m = Some i \<Longrightarrow> f \<noteq> ''evm'' \<Longrightarrow> m \<in> set (read_registry f)"
  "isSolanaHeadNeutralMethod m \<Longrightarrow> f \<noteq> ''evm'' \<Longrightarrow> m \<in> set (read_registry f)"
  by (auto simp: registry_defs read_registry_def split: if_splits)

lemma transformEVMRequest_local:
  assumes "transformEVMRequest env r snap req w = (Inr p, w')"
  shows "Method req = ''eth_blockNumber'' \<and> p_method p = ''eth_blockNumber'' \<or> localResponse p = None"
proof -
  obtain ps where "ParseParams (Params req) = Inr ps"
    using assms by (auto simp: transformEVMRequest_def split: sum.splits)
  then show ?thesis
    using assms unfolding transformEVMRequest_def
    by (auto simp: transform_block_number_def split: option.splits if_splits sum.splits
        dest: transform_state_Inr transform_block_Inr transform_fee_history_Inr transform_receipt_Inr
          transform_explicit_Inr transformEVMLogs_method)
qed

lemma transformRequest_listed:
  assumes "transformRequest env r snap req w = (Inr p, w')" "cc_Family (rt_Config r) \<in> {''evm'', ''solana''}"
  shows "p_method p \<in> set (read_registry (cc_Family (rt_Config r)))"
proof (cases "cc_Family (rt_Config r) = ''evm''")
  case True
  show ?thesis
  proof (cases "Method req = ''eth_chainId''")
    case True
    then have "p_method p = ''eth_chainId''" using assms(1) \<open>cc_Family (rt_Config r) = ''evm''\<close>
      by (auto simp: transformRequest_def isStaticMethod_def prepareStaticRequest_def Let_def
          split: sum.splits if_splits)
    then show ?thesis using \<open>cc_Family (rt_Config r) = ''evm''\<close> by (simp add: read_registry_def)
  next
    case False
    with assms(1) True have "transformEVMRequest env r snap req w = (Inr p, w')"
      by (auto simp: transformRequest_def isStaticMethod_def Let_def split: if_splits)
    from transformEVMRequest_pinned [OF this] transformEVMRequest_local [OF this]
    obtain ps where "evm_pinned r snap ps p" "p_method p = ''eth_blockNumber'' \<or> localResponse p = None" by auto
    then have "p_method p \<in> set (read_registry ''evm'')"
      by (auto simp: evm_pinned_def names_target_def split: option.splits if_splits dest: registries_listed)
        (auto simp: read_registry_def)
    then show ?thesis using True by simp
  qed
next
  case False
  then have sol: "cc_Family (rt_Config r) = ''solana''" using assms(2) by simp
  show ?thesis
  proof (cases "Method req = ''getGenesisHash''")
    case True
    then have "p_method p = ''getGenesisHash''" using assms(1) sol
      by (auto simp: transformRequest_def isStaticMethod_def prepareStaticRequest_def Let_def
          split: sum.splits if_splits)
    then show ?thesis using sol by (simp add: read_registry_def)
  next
    case False
    with assms(1) sol have run: "transformSolanaRequest snap req = Inr p"
      by (auto simp: transformRequest_def isStaticMethod_def Let_def split: if_splits)
    then have "p_method p = Method req \<and> (isSolanaHeadNeutralMethod (Method req) \<or> (\<exists>i. getSolanaConfigIndex (Method req) = Some i))"
      by (auto simp: transformSolanaRequest_def split: sum.splits option.splits if_splits
          elim: transform_solana_pinned_Inr)
    then show ?thesis using sol by (auto intro: solana_registries_listed)
  qed
qed

text \<open>
  Property C32. The proxy only reads: a request that is let through is sent under a method of its
  family's read registry, none of which is a write method, and a write method is refused with the
  writes-disabled error before any upstream is asked.
\<close>

theorem reads_only:
  assumes "cc_Family (rt_Config r) \<in> {''evm'', ''solana''}"
  shows "(\<forall>p w'. transformRequest env r snap req w = (Inr p, w') \<longrightarrow>
      p_method p \<in> set (read_registry (cc_Family (rt_Config r))) \<and> \<not> isWriteMethod (p_method p) (cc_Family (rt_Config r)))
    \<and> (isWriteMethod (Method req) (cc_Family (rt_Config r)) \<longrightarrow>
         transformRequest env r snap req w = (Inl (WritesDisabled (Method req)), w))"
proof (intro conjI allI impI)
  fix p w' assume "transformRequest env r snap req w = (Inr p, w')"
  then show "p_method p \<in> set (read_registry (cc_Family (rt_Config r)))" using assms by (rule transformRequest_listed)
  then show "\<not> isWriteMethod (p_method p) (cc_Family (rt_Config r))" by (rule read_registry_no_writes)
next
  assume w: "isWriteMethod (Method req) (cc_Family (rt_Config r))"
  then have "\<not> isStaticMethod (Method req) (cc_Family (rt_Config r))"
    by (auto simp: isWriteMethod_def isStaticMethod_def HasPrefix_def)
  with w show "transformRequest env r snap req w = (Inl (WritesDisabled (Method req)), w)"
    by (simp add: transformRequest_def)
qed

theorem reads_only_witness:
  "transformRequest sample_env sample_runtime sample_snapshot (sample_request ''eth_sendRawTransaction'' []) [] =
     (Inl (WritesDisabled ''eth_sendRawTransaction''), [])"
proof -
  have family: "cc_Family (rt_Config sample_runtime) = ''evm''"
    by (simp add: sample_runtime_def NewRuntime_def sample_chain_def)
  have "isWriteMethod (Method (sample_request ''eth_sendRawTransaction'' [])) ''evm''"
    by (simp add: isWriteMethod_def HasPrefix_def sample_request_def)
  with reads_only [of sample_runtime sample_env sample_snapshot "sample_request ''eth_sendRawTransaction'' []" "[]"] family
  show ?thesis by (simp add: sample_request_def)
qed

end
