(* ===== verification/Verify.thy ===== *)
theory Verify
  imports Transform
begin

text \<open>
  The checks of an upstream's answer before a caller may see it: \<^verbatim>\<open>internal/gateway/verification.go\<close>,
  the Solana context check of \<^verbatim>\<open>transform.go\<close>, and of \<^verbatim>\<open>router.go\<close> the reading of a receipt, the check
  of a range's boundaries and the slot checks of the route.
\<close>

datatype verify_error =
    NullState
  | ReadBlock head_error
  | BlockDiffers
  | ReadLogs
  | NullLogs
  | RemovedLogs
  | LogsOutOfRange
  | LogsOtherBlock
  | ReadCount
  | CountQuantity quantity_error
  | ReadTransaction
  | TransactionOtherBlock

subsection \<open>Logs\<close>

record log_entry =
  log_blockHash :: string
  log_blockNumber :: string
  log_removed :: bool

definition decode_log :: "json \<Rightarrow> log_entry option" where
  "decode_log v =
     (case struct_members v of None \<Rightarrow> None
      | Some ms \<Rightarrow>
          (case (string_field ''blockHash'' ms, string_field ''blockNumber'' ms, bool_field ''removed'' ms) of
             (Some h, Some n, Some b) \<Rightarrow> Some \<lparr>log_blockHash = h, log_blockNumber = n, log_removed = b\<rparr>
           | _ \<Rightarrow> None))"

text \<open>Failure, the nil slice of \<^verbatim>\<open>null\<close>, or the entries.\<close>

fun decode_logs :: "raw \<Rightarrow> log_entry list option option" where
  "decode_logs (Some JNull) = Some None"
| "decode_logs (Some (JArr vs)) = map_option Some (those (map decode_log vs))"
| "decode_logs _ = None"

definition log_problem :: "(u64 \<times> u64) option \<Rightarrow> string \<Rightarrow> log_entry \<Rightarrow> verify_error option" where
  "log_problem rng targetHash entry =
     (if log_removed entry then Some RemovedLogs
      else
        (case rng of
           Some (from_, to_) \<Rightarrow>
             (case ParseEVMQuantity (log_blockNumber entry) of
                Inl _ \<Rightarrow> Some LogsOutOfRange
              | Inr number \<Rightarrow> if number < from_ \<or> number > to_ then Some LogsOutOfRange else None)
         | None \<Rightarrow> if \<not> EqualFold (log_blockHash entry) targetHash then Some LogsOtherBlock else None))"

fun logs_problem :: "(u64 \<times> u64) option \<Rightarrow> string \<Rightarrow> log_entry list \<Rightarrow> verify_error option" where
  "logs_problem rng targetHash [] = None"
| "logs_problem rng targetHash (entry # logs) =
     (case log_problem rng targetHash entry of Some e \<Rightarrow> Some e | None \<Rightarrow> logs_problem rng targetHash logs)"

definition verify_logs :: "(u64 \<times> u64) option \<Rightarrow> string \<Rightarrow> raw \<Rightarrow> verify_error option" where
  "verify_logs rng targetHash payload =
     (case decode_logs payload of
        None \<Rightarrow> Some ReadLogs
      | Some None \<Rightarrow> Some NullLogs
      | Some (Some logs) \<Rightarrow> logs_problem rng targetHash logs)"

subsection \<open>Other EVM answers\<close>

definition verify_count :: "raw \<Rightarrow> verify_error option" where
  "verify_count payload =
     (case unmarshal_string payload of
        None \<Rightarrow> Some ReadCount
      | Some count \<Rightarrow> (case ParseEVMQuantity count of Inl e \<Rightarrow> Some (CountQuantity e) | Inr _ \<Rightarrow> None))"

definition verify_transaction :: "string \<Rightarrow> raw \<Rightarrow> verify_error option" where
  "verify_transaction targetHash payload =
     (case (case payload of None \<Rightarrow> None | Some v \<Rightarrow> Option.bind (struct_members v) (string_field ''blockHash'')) of
        None \<Rightarrow> Some ReadTransaction
      | Some h \<Rightarrow> if \<not> EqualFold h targetHash then Some TransactionOtherBlock else None)"

definition verify_block :: "time \<Rightarrow> runtime \<Rightarrow> string \<Rightarrow> raw \<Rightarrow> verify_error option" where
  "verify_block now r targetHash payload =
     (case ParseEVMHead now r [] [] payload of
        Inl e \<Rightarrow> Some (ReadBlock e)
      | Inr block \<Rightarrow> if \<not> EqualFold (Hash block) targetHash then Some BlockDiffers else None)"

text \<open>The check is made only for a request with a target; \<open>target\<close> is what the pointer refers to.\<close>

definition verifyEVMResponse :: "time \<Rightarrow> runtime \<Rightarrow> preparedRequest \<Rightarrow> head \<Rightarrow> raw \<Rightarrow> verify_error option" where
  "verifyEVMResponse now r p target payload =
     (if requireEIP1898 p then (if payload = Some JNull then Some NullState else None)
      else if p_method p = ''eth_getBlockByHash'' then verify_block now r (Hash target) payload
      else if p_method p = ''eth_getLogs'' then verify_logs (logRange p) (Hash target) payload
      else if p_method p = ''eth_getBlockTransactionCountByHash'' \<or> p_method p = ''eth_getUncleCountByBlockHash''
      then verify_count payload
      else if p_method p = ''eth_getTransactionByBlockHashAndIndex'' \<and> payload \<noteq> Some JNull
      then verify_transaction (Hash target) payload
      else None)"

subsection \<open>Receipts\<close>

datatype receipt_error = DecodeReceipt | ReceiptHashes | ReceiptNumber quantity_error

definition getEVMReceiptBlock :: "raw \<Rightarrow> string \<Rightarrow> receipt_error + head" where
  "getEVMReceiptBlock receipt transactionHash =
     (case Option.bind receipt struct_members of
        None \<Rightarrow> Inl DecodeReceipt
      | Some ms \<Rightarrow>
          (case (string_field ''transactionHash'' ms, string_field ''blockHash'' ms, string_field ''blockNumber'' ms) of
             (Some th, Some bh, Some bn) \<Rightarrow>
               if \<not> IsEVMHash th \<or> \<not> EqualFold th transactionHash \<or> \<not> IsEVMHash bh then Inl ReceiptHashes
               else
                 (case ParseEVMQuantity bn of
                    Inl e \<Rightarrow> Inl (ReceiptNumber e)
                  | Inr blockNumber \<Rightarrow> Inr (zero_head\<lparr>Family := ''evm'', Number := blockNumber, Hash := bh\<rparr>))
           | _ \<Rightarrow> Inl DecodeReceipt))"

lemma getEVMReceiptBlock_Inr:
  "getEVMReceiptBlock receipt h = Inr b \<Longrightarrow>
     IsEVMHash (Hash b) \<and> \<not> ReorgPending b \<and>
     (\<exists>v ms th bn. receipt = Some v \<and> struct_members v = Some ms \<and> string_field ''transactionHash'' ms = Some th
        \<and> EqualFold th h \<and> string_field ''blockHash'' ms = Some (Hash b) \<and> string_field ''blockNumber'' ms = Some bn
        \<and> ParseEVMQuantity bn = Inr (Number b))"
  by (auto simp: getEVMReceiptBlock_def zero_head_def split: option.splits if_splits sum.splits bind_splits)

subsection \<open>Solana slots\<close>

datatype context_error = NoEnvelope | NoContext | ContextShape | NoContextSlot | SlotBelow u64

text \<open>An answer whose first byte is a brace is an object.\<close>

definition verifySolanaContext :: "raw \<Rightarrow> u64 \<Rightarrow> context_error option" where
  "verifySolanaContext response minimumSlot =
     (case response of
        Some (JObj ms) \<Rightarrow>
          (case map_of (members_map ms) ''context'' of
             None \<Rightarrow> Some NoContext
           | Some JNull \<Rightarrow> Some NoContext
           | Some rawContext \<Rightarrow>
               (case Option.bind (struct_members rawContext) (uint_ptr_field ''slot'') of
                  None \<Rightarrow> Some ContextShape
                | Some None \<Rightarrow> Some NoContextSlot
                | Some (Some slot) \<Rightarrow> if slot < minimumSlot then Some (SlotBelow slot) else None))
      | _ \<Rightarrow> Some NoEnvelope)"

definition solana_slot_behind :: "string \<Rightarrow> u64 \<Rightarrow> raw \<Rightarrow> bool" where
  "solana_slot_behind meth minimumSlot payload \<longleftrightarrow>
     meth = ''getSlot'' \<and>
       (case unmarshal_uint_ptr payload of Some (Some slot) \<Rightarrow> slot < minimumSlot | _ \<Rightarrow> True) \<or>
     meth = ''getEpochInfo'' \<and>
       (case Option.bind (Option.bind payload struct_members) (uint_ptr_field ''absoluteSlot'') of
          Some (Some slot) \<Rightarrow> slot < minimumSlot | _ \<Rightarrow> True)"

definition unwrap_value :: "raw \<Rightarrow> raw option" where
  "unwrap_value payload =
     (case Option.bind (Option.bind payload struct_members) (raw_field ''value'') of
        Some (Some v) \<Rightarrow> Some (Some v)
      | _ \<Rightarrow> None)"

subsection \<open>Boundaries\<close>

fun verifyEVMBoundaries :: "'w node_env \<Rightarrow> runtime \<Rightarrow> string \<Rightarrow> head list \<Rightarrow> 'w \<Rightarrow> bool \<times> 'w" where
  "verifyEVMBoundaries env r i [] w = (True, w)"
| "verifyEVMBoundaries env r i (target # targets) w =
     (case node_call env i ''eth_getBlockByNumber''
             (MarshalParams [JStr (FormatEVMQuantity (Number target)), JBool False]) w of
        (Inl e, w1) \<Rightarrow> (False, w1)
      | (Inr resp, w1) \<Rightarrow>
          if Err resp \<noteq> None then (False, w1)
          else
            (case ParseEVMHead (now_of env w1) r (Commitment target) i (Result resp) of
               Inl e \<Rightarrow> (False, w1)
             | Inr block \<Rightarrow>
                 if Number block \<noteq> Number target \<or> \<not> EqualFold (Hash block) (Hash target) then (False, w1)
                 else verifyEVMBoundaries env r i targets w1))"

end
