(* ===== verification/Runtime_Steps.thy ===== *)
theory Runtime_Steps
  imports Runtime
begin

text \<open>
  Relations on a runtime and its world that every call of an upstream and every probe keeps. The
  route of a request and the coordinator use them: what holds along one call holds along the whole
  operation.
\<close>

type_synonym 'w probe_group = "string \<Rightarrow> 'w probe_body \<Rightarrow> runtime \<times> 'w \<Rightarrow> probe_flight \<times> runtime \<times> 'w"

text \<open>
  What the route relies on of \<^verbatim>\<open>singleflight\<close>: after the wait the state is one that runs of probe
  bodies lead to, so a preorder on states that every such run respects is respected.
\<close>

definition flight_respects :: "'w probe_group \<Rightarrow> bool" where
  "flight_respects flight \<longleftrightarrow>
     (\<forall>R key body s. reflp R \<and> transp R \<and> (\<forall>s. R s (snd (body s))) \<longrightarrow> R s (snd (flight key body s)))"

lemma flight_respects_alone: "flight_respects probe_alone"
  unfolding flight_respects_def probe_alone_def by (auto split: prod.splits) (metis snd_conv)

text \<open>A preorder that the steps over a runtime and its world respect.\<close>

definition step_preorder :: "'w node_env \<Rightarrow> (runtime \<times> 'w \<Rightarrow> runtime \<times> 'w \<Rightarrow> bool) \<Rightarrow> bool" where
  "step_preorder env R \<longleftrightarrow> reflp R \<and> transp R
     \<and> (\<forall>r i m ps w. R (r, w) (r, snd (node_call env i m ps w)))
     \<and> (\<forall>r i m w. R (r, w) (r, mark_unsupported env i m w))
     \<and> (\<forall>now key a r w. R (r, w) (record_availability now key a r, w))
     \<and> (\<forall>i t r w. R (r, w) (InvalidateAvailability i t r, w))"

lemma step_preorderD:
  assumes "step_preorder env R"
  shows "R s s" "R s1 s2 \<Longrightarrow> R s2 s3 \<Longrightarrow> R s1 s3" "R (r, w) (r, snd (node_call env i m ps w))"
    "R (r, w) (r, mark_unsupported env i m w)" "R (r, w) (record_availability now key a r, w)"
    "R (r, w) (InvalidateAvailability j t r, w)"
  using assms by (auto simp: step_preorder_def dest: reflpD transpD)

lemma step_preorder_relation: "step_preorder env R \<Longrightarrow> reflp R \<and> transp R"
  by (simp add: step_preorder_def)

lemma step_call: "step_preorder env R \<Longrightarrow> node_call env i m ps w = (x, w1) \<Longrightarrow> R (r, w) (r, w1)"
  using step_preorderD(3) [of env R r w i m ps] by simp

lemma step_probe:
  assumes "step_preorder env R" "flight_respects flight" "\<And>r w x w1. check w = (x, w1) \<Longrightarrow> R (r, w) (r, w1)"
  shows "R s (snd (probe env flight key check s))"
proof -
  have body: "R s (snd (probe_body env key check s))" for s
  proof (cases s)
    case (Pair r w)
    obtain x w1 where x: "check w = (x, w1)" by (cases "check w")
    have "R (r, w) (record_availability (now_of env w1) key a r, w1)" for a
      using assms(3) [OF x] step_preorderD(2) [OF assms(1)] step_preorderD(5) [OF assms(1)] by blast
    then show ?thesis using Pair x assms(3) [OF x] step_preorderD(1) [OF assms(1)]
      by (auto simp: probe_body_def split: prod.splits bool.splits sum.splits)
  qed
  have "R s (snd (flight key (probe_body env key check) s))"
    using assms(2) body step_preorder_relation [OF assms(1)] unfolding flight_respects_def
    by (elim allE [where x = R]) blast
  then show ?thesis using step_preorderD(1) [OF assms(1)]
    by (cases s) (auto simp: probe_def split: prod.splits bool.splits probe_flight.splits)
qed

lemma step_check_evm: "step_preorder env R \<Longrightarrow> check_evm_block env r0 i t w = (x, w1) \<Longrightarrow> R (r, w) (r, w1)"
  by (auto simp: check_evm_block_def split: prod.splits sum.splits if_splits dest: step_call)

lemma step_check_solana: "step_preorder env R \<Longrightarrow> check_solana_slot env i t w = (x, w1) \<Longrightarrow> R (r, w) (r, w1)"
  by (auto simp: check_solana_slot_def split: prod.splits sum.splits if_splits option.splits dest: step_call)

lemma step_has_block:
  assumes "step_preorder env R" "flight_respects flight"
  shows "R s (snd (HasEVMBlock env flight i t s))"
  using step_probe [OF assms step_check_evm [OF assms(1)]] step_preorderD(1) [OF assms(1)]
  by (cases s) (auto simp: HasEVMBlock_def)

lemma step_has_slot:
  assumes "step_preorder env R" "flight_respects flight"
  shows "R s (snd (HasSolanaSlot env flight i t s))"
  using step_probe [OF assms step_check_solana [OF assms(1)]] by (simp add: HasSolanaSlot_def)

text \<open>The configuration and the validated upstreams stay what they were.\<close>

definition same_upstreams :: "runtime \<times> 'w \<Rightarrow> runtime \<times> 'w \<Rightarrow> bool" where
  "same_upstreams s s' \<longleftrightarrow> rt_Config (fst s') = rt_Config (fst s) \<and> valid (fst s') = valid (fst s)"

lemma same_upstreams_preorder: "step_preorder env same_upstreams"
  by (auto simp: step_preorder_def same_upstreams_def reflp_def transp_def record_availability_def
      InvalidateAvailability_def Let_def)

end
