(* ===== verification/Route.thy ===== *)
theory Route
  imports Verify Runtime_Steps
begin

text \<open>
  The route of a prepared request, \<^verbatim>\<open>internal/gateway/router.go\<close>: the candidates in order, the
  availability check, the call, the checks of its answer, and the retry loop that ends with an
  answer, with an error of an upstream, when no candidate is left, or at the caller's deadline. One
  turn of the loop is a recursion over the candidates; the loop itself may only be stopped by the
  deadline, so it is a partial function. \<open>wait\<close> is the \<^verbatim>\<open>select\<close> between the end of the context
  (true) and the 75 milliseconds of the timer. Telemetry is not modelled.
\<close>

record route_pass =
  attempted :: "string list"
  eligible :: int
  nullReceipts :: int
  nullReceiptUpstream :: string

datatype verdict =
    Accepted raw
  | Skipped
  | Invalidated
  | AbsentReceipt

text \<open>A request with a receipt hash or boundaries always has a target, so the pointer is never nil there.\<close>

definition target_of :: "preparedRequest \<Rightarrow> head" where
  "target_of p = or_zero (p_target p)"

lemma target_of_Some [simp]: "p_target p = Some t \<Longrightarrow> target_of p = t"
  by (simp add: target_of_def)

subsection \<open>The checks of one answer\<close>

definition receipt_verdict :: "preparedRequest \<Rightarrow> raw \<Rightarrow> verdict option" where
  "receipt_verdict p payload =
     (if receiptHash p = [] then None
      else if payload = Some JNull then Some AbsentReceipt
      else
        (case getEVMReceiptBlock payload (receiptHash p) of
           Inl _ \<Rightarrow> Some Skipped
         | Inr block \<Rightarrow> if Number block > Number (target_of p) then Some AbsentReceipt else None))"

definition judge_response :: "time \<Rightarrow> runtime \<Rightarrow> preparedRequest \<Rightarrow> raw \<Rightarrow> verdict" where
  "judge_response now r p payload =
     (if cc_Family (rt_Config r) = ''evm'' \<and> p_target p \<noteq> None \<and> verifyEVMResponse now r p (target_of p) payload \<noteq> None
      then Invalidated
      else
        (case receipt_verdict p payload of
           Some v \<Rightarrow> v
         | None \<Rightarrow>
             if verifyContextSlot p \<and> p_target p \<noteq> None \<and> verifySolanaContext payload (Number (target_of p)) \<noteq> None
             then Invalidated
             else if cc_Family (rt_Config r) = ''solana'' \<and> p_target p \<noteq> None
               \<and> solana_slot_behind (p_method p) (Number (target_of p)) payload
             then Skipped
             else if unwrapContext p
             then (case unwrap_value payload of None \<Rightarrow> Skipped | Some v \<Rightarrow> Accepted v)
             else Accepted payload))"

subsection \<open>One candidate\<close>

datatype route_answer =
    Answered raw string
  | Refused rpc_error string

definition check_target :: "'w node_env \<Rightarrow> 'w probe_group \<Rightarrow> string \<Rightarrow> preparedRequest \<Rightarrow> runtime \<times> 'w \<Rightarrow> bool \<times> runtime \<times> 'w" where
  "check_target env flight i p s =
     (case p_target p of
        None \<Rightarrow> (True, s)
      | Some t \<Rightarrow>
          if receiptHash p \<noteq> [] then (True, s)
          else if cc_Family (rt_Config (fst s)) = ''evm''
          then (case HasEVMBlock env flight i t s of (x, s1) \<Rightarrow> (x = Inr True, s1))
          else if cc_Family (rt_Config (fst s)) = ''solana''
          then (case HasSolanaSlot env flight i t s of (x, s1) \<Rightarrow> (x = Inr True, s1))
          else (False, s))"

definition invalidate :: "string \<Rightarrow> preparedRequest \<Rightarrow> runtime \<Rightarrow> runtime" where
  "invalidate i p r = (case p_target p of None \<Rightarrow> r | Some t \<Rightarrow> InvalidateAvailability i t r)"

definition boundaries_hold :: "'w node_env \<Rightarrow> runtime \<Rightarrow> string \<Rightarrow> preparedRequest \<Rightarrow> 'w \<Rightarrow> bool \<times> 'w" where
  "boundaries_hold env r i p w =
     (if verifyBoundaries p \<noteq> [] then verifyEVMBoundaries env r i (verifyBoundaries p) w else (True, w))"

text \<open>What happens to an answer without an error.\<close>

definition settle :: "'w node_env \<Rightarrow> string \<Rightarrow> preparedRequest \<Rightarrow> raw \<Rightarrow> route_pass \<Rightarrow> runtime \<Rightarrow> 'w \<Rightarrow>
    route_answer option \<times> route_pass \<times> runtime \<times> 'w" where
  "settle env i p payload ps r w =
     (case judge_response (now_of env w) r p payload of
        Skipped \<Rightarrow> (None, ps, r, w)
      | Invalidated \<Rightarrow> (None, ps, invalidate i p r, w)
      | AbsentReceipt \<Rightarrow> (None, ps\<lparr>nullReceipts := nullReceipts ps + 1, nullReceiptUpstream := i\<rparr>, r, w)
      | Accepted v \<Rightarrow>
          (case boundaries_hold env r i p w of
             (False, w1) \<Rightarrow> (None, ps, invalidate i p r, w1)
           | (True, w1) \<Rightarrow> (Some (Answered v i), ps, r, w1)))"

definition call_candidate :: "(string \<Rightarrow> string) \<Rightarrow> 'w node_env \<Rightarrow> string \<Rightarrow> preparedRequest \<Rightarrow> route_pass \<Rightarrow> runtime \<Rightarrow> 'w \<Rightarrow>
    route_answer option \<times> route_pass \<times> runtime \<times> 'w" where
  "call_candidate num env i p ps r w =
     (case node_call env i (p_method p) (case p_parameters p of None \<Rightarrow> MarshalParams [] | Some v \<Rightarrow> v) w of
        (Inl _, w1) \<Rightarrow> (None, ps, r, w1)
      | (Inr resp, w1) \<Rightarrow>
          (case Err resp of
             None \<Rightarrow> settle env i p (Result resp) ps r w1
           | Some e \<Rightarrow>
               if Code e = CodeMethodNotFound
               then (None, if receiptHash p \<noteq> [] then ps\<lparr>eligible := eligible ps - 1\<rparr> else ps, r,
                     mark_unsupported env i (p_method p) w1)
               else if IsUnavailableRPCError num (Some e) then (None, ps, invalidate i p r, w1)
               else (Some (Refused e i), ps, r, w1)))"

definition try_candidate :: "(string \<Rightarrow> string) \<Rightarrow> 'w node_env \<Rightarrow> 'w probe_group \<Rightarrow> string \<Rightarrow> preparedRequest \<Rightarrow> route_pass \<Rightarrow>
    runtime \<times> 'w \<Rightarrow> route_answer option \<times> route_pass \<times> runtime \<times> 'w" where
  "try_candidate num env flight i p ps s =
     (if i \<in> set (attempted ps) \<or> \<not> node_supports env i (p_method p) (snd s) then (None, ps, s)
      else if requireEIP1898 p \<and> \<not> node_pinned env i (p_method p) (snd s) then (None, ps, s)
      else
        (case check_target env flight i p s of
           (False, s1) \<Rightarrow> (None, ps, s1)
         | (True, r1, w1) \<Rightarrow>
             let ps1 = ps\<lparr>eligible := eligible ps + 1, attempted := attempted ps @ [i]\<rparr> in
             (case boundaries_hold env r1 i p w1 of
                (False, w2) \<Rightarrow> (None, ps1, r1, w2)
              | (True, w2) \<Rightarrow> call_candidate num env i p ps1 r1 w2)))"

subsection \<open>One turn and the loop\<close>

fun try_candidates :: "(string \<Rightarrow> string) \<Rightarrow> 'w node_env \<Rightarrow> 'w probe_group \<Rightarrow> preparedRequest \<Rightarrow> string list \<Rightarrow> route_pass \<Rightarrow>
    runtime \<times> 'w \<Rightarrow> route_answer option \<times> route_pass \<times> runtime \<times> 'w" where
  "try_candidates num env flight p [] ps s = (None, ps, s)"
| "try_candidates num env flight p (i # candidates) ps s =
     (case try_candidate num env flight i p ps s of
        (Some a, rest) \<Rightarrow> (Some a, rest)
      | (None, ps1, s1) \<Rightarrow> try_candidates num env flight p candidates ps1 s1)"

definition route_candidates :: "'w node_env \<Rightarrow> preparedRequest \<Rightarrow> runtime \<times> 'w \<Rightarrow> string list" where
  "route_candidates env p s =
     (let candidates = Candidates env (fst s) (requireEIP1898 p) (snd s) in
      if p_target p \<noteq> None \<and> Origin (target_of p) \<noteq> []
      then prefer_first (\<lambda>i. i = Origin (target_of p)) candidates
      else candidates)"

definition new_pass :: "string list \<Rightarrow> route_pass" where
  "new_pass tried = \<lparr>attempted = tried, eligible = 0, nullReceipts = 0, nullReceiptUpstream = []\<rparr>"

datatype after_pass = Return "raw \<times> string \<times> rpc_error option" | Exhausted | Wait

definition end_of_pass :: "preparedRequest \<Rightarrow> nat \<Rightarrow> route_pass \<Rightarrow> after_pass" where
  "end_of_pass p candidates ps =
     (if receiptHash p \<noteq> [] \<and> attempted ps \<noteq> []
      then (if nullReceipts ps > 0 \<and> nullReceipts ps = eligible ps
            then Return (Some JNull, nullReceiptUpstream ps, None)
            else Exhausted)
      else if eligible ps = 0 \<and> length (attempted ps) \<ge> candidates \<and> candidates > 0 then Exhausted
      else Wait)"

definition getTargetErrorData :: "string \<Rightarrow> head option \<Rightarrow> string list \<Rightarrow> json" where
  "getTargetErrorData chainName target tried =
     marshal_map ([(''chain'', JStr chainName), (''attempted_upstreams'', JArr (map JStr (sort tried)))] @
       (case target of
          None \<Rightarrow> []
        | Some t \<Rightarrow> (''target_number'', JNum (show_u64 (Number t))) #
            (if Hash t \<noteq> [] then [(''target_hash'', JStr (Hash t))] else []) @ [(''commitment'', JStr (Commitment t))]))"

definition exhausted :: "runtime \<Rightarrow> preparedRequest \<Rightarrow> string list \<Rightarrow> raw \<times> string \<times> rpc_error option" where
  "exhausted r p tried =
     (None, [], Some (ConsistencyUnavailable (getTargetErrorData (cc_Name (rt_Config r)) (p_target p) tried)))"

text \<open>One turn: a result, or the names tried so far when the loop waits.\<close>

definition route_turn :: "(string \<Rightarrow> string) \<Rightarrow> 'w node_env \<Rightarrow> 'w probe_group \<Rightarrow> preparedRequest \<Rightarrow> string list \<Rightarrow> runtime \<times> 'w \<Rightarrow>
    ((raw \<times> string \<times> rpc_error option) + string list) \<times> runtime \<times> 'w" where
  "route_turn num env flight p tried s =
     (let candidates = route_candidates env p s in
      case try_candidates num env flight p candidates (new_pass tried) s of
        (Some (Answered v i), ps, s1) \<Rightarrow> (Inl (v, i, None), s1)
      | (Some (Refused e i), ps, s1) \<Rightarrow> (Inl (None, i, Some e), s1)
      | (None, ps, s1) \<Rightarrow>
          (case end_of_pass p (length candidates) ps of
             Return x \<Rightarrow> (Inl x, s1)
           | Exhausted \<Rightarrow> (Inl (exhausted (fst s1) p (attempted ps)), s1)
           | Wait \<Rightarrow> (Inr (attempted ps), s1)))"

partial_function (option) route_loop :: "(string \<Rightarrow> string) \<Rightarrow> 'w node_env \<Rightarrow> 'w probe_group \<Rightarrow> ('w \<Rightarrow> bool \<times> 'w) \<Rightarrow>
    preparedRequest \<Rightarrow> string list \<Rightarrow> runtime \<times> 'w \<Rightarrow> ((raw \<times> string \<times> rpc_error option) \<times> runtime \<times> 'w) option" where
  "route_loop num env flight wait p tried s =
     (case route_turn num env flight p tried s of
        (Inl x, s1) \<Rightarrow> Some (x, s1)
      | (Inr tried1, r1, w1) \<Rightarrow>
          (case wait w1 of
             (stop, w2) \<Rightarrow>
               if stop then Some (exhausted r1 p tried1, r1, w2)
               else route_loop num env flight wait p tried1 (r1, w2)))"

definition route :: "(string \<Rightarrow> string) \<Rightarrow> 'w node_env \<Rightarrow> 'w probe_group \<Rightarrow> ('w \<Rightarrow> bool \<times> 'w) \<Rightarrow> preparedRequest \<Rightarrow> runtime \<times> 'w \<Rightarrow>
    ((raw \<times> string \<times> rpc_error option) \<times> runtime \<times> 'w) option" where
  "route num env flight wait p s = route_loop num env flight wait p [] s"

subsection \<open>Relations that every step keeps\<close>

lemma step_check_target:
  assumes "step_preorder env R" "flight_respects flight"
  shows "R s (snd (check_target env flight i p s))"
  using step_has_block [OF assms] step_has_slot [OF assms] step_preorderD(1) [OF assms(1)]
  by (simp add: check_target_def case_prod_beta split: option.splits)

lemma step_boundaries:
  assumes "step_preorder env R"
  shows "verifyEVMBoundaries env r0 i ts w = (b, w1) \<Longrightarrow> R (r, w) (r, w1)"
proof (induction ts arbitrary: w)
  case (Cons target targets)
  obtain x w2 where x: "node_call env i ''eth_getBlockByNumber''
             (MarshalParams [JStr (FormatEVMQuantity (Number target)), JBool False]) w = (x, w2)"
    by (cases "node_call env i ''eth_getBlockByNumber''
             (MarshalParams [JStr (FormatEVMQuantity (Number target)), JBool False]) w")
  have "w1 = w2 \<or> verifyEVMBoundaries env r0 i targets w2 = (b, w1)"
    using Cons.prems x by (auto split: sum.splits if_splits)
  then show ?case using step_call [OF assms x] Cons.IH step_preorderD(2) [OF assms] by blast
qed (simp add: step_preorderD(1) [OF assms])

lemma step_boundaries_hold:
  "step_preorder env R \<Longrightarrow> boundaries_hold env r0 i p w = (b, w1) \<Longrightarrow> R (r, w) (r, w1)"
  by (auto simp: boundaries_hold_def step_preorderD(1) split: if_splits dest: step_boundaries)

lemma step_invalidate: "step_preorder env R \<Longrightarrow> R (r, w) (invalidate i p r, w)"
  by (auto simp: invalidate_def step_preorderD split: option.splits)

lemma step_settle:
  assumes R: "step_preorder env R" and "settle env i p payload ps r w = (a, ps1, s1)"
  shows "R (r, w) s1"
proof -
  obtain b w1 where b: "boundaries_hold env r i p w = (b, w1)" by (cases "boundaries_hold env r i p w")
  have "R (r, w) (r, w1)" "R (r, w) (invalidate i p r, w1)"
    using step_boundaries_hold [OF R b] step_invalidate [OF R] step_preorderD(2) [OF R] by blast+
  then show ?thesis
    using assms(2) b step_preorderD(1) [OF R] step_invalidate [OF R]
    by (auto simp: settle_def split: verdict.splits bool.splits)
qed

lemma step_call_candidate:
  assumes R: "step_preorder env R" and "call_candidate num env i p ps r w = (a, ps1, s1)"
  shows "R (r, w) s1"
proof -
  let ?args = "case p_parameters p of None \<Rightarrow> MarshalParams [] | Some v \<Rightarrow> v"
  obtain x w1 where x: "node_call env i (p_method p) ?args w = (x, w1)" by (cases "node_call env i (p_method p) ?args w")
  note c = step_call [OF R x, of r]
  have "R (r, w) (r, mark_unsupported env i (p_method p) w1)" "R (r, w) (invalidate i p r, w1)"
    using c step_preorderD(2,4) [OF R] step_invalidate [OF R] by blast+
  moreover have "settle env i p payload ps r w1 = (a, ps1, s1) \<Longrightarrow> R (r, w) s1" for payload
    using c step_settle [OF R] step_preorderD(2) [OF R] by blast
  ultimately show ?thesis using assms(2) x c
    by (auto simp: call_candidate_def split: sum.splits option.splits if_splits)
qed

lemma step_try_candidate:
  assumes R: "step_preorder env R" and F: "flight_respects flight"
    and "try_candidate num env flight i p ps s = (a, ps1, s1)"
  shows "R s s1"
proof -
  obtain ok r1 w1 where c: "check_target env flight i p s = (ok, r1, w1)" by (cases "check_target env flight i p s")
  have t: "R s (r1, w1)" using step_check_target [OF R F, of s i p] c by simp
  obtain b w2 where b: "boundaries_hold env r1 i p w1 = (b, w2)" by (cases "boundaries_hold env r1 i p w1")
  have u: "R s (r1, w2)" using t step_boundaries_hold [OF R b, of r1] step_preorderD(2) [OF R] by blast
  have "call_candidate num env i p qs r1 w2 = (a, ps1, s1) \<Longrightarrow> R s s1" for qs
    using u step_call_candidate [OF R] step_preorderD(2) [OF R] by blast
  then show ?thesis using assms(3) c b t u step_preorderD(1) [OF R]
    by (auto simp: try_candidate_def Let_def split: if_splits bool.splits)
qed

lemma step_try_candidates:
  assumes R: "step_preorder env R" and F: "flight_respects flight"
  shows "try_candidates num env flight p is ps s = (a, ps1, s1) \<Longrightarrow> R s s1"
proof (induction "is" arbitrary: ps s)
  case (Cons i candidates)
  obtain x ps2 s2 where x: "try_candidate num env flight i p ps s = (x, ps2, s2)"
    by (cases "try_candidate num env flight i p ps s")
  note first = step_try_candidate [OF R F x]
  show ?case
  proof (cases x)
    case None
    then have "R s2 s1" using Cons x by auto
    then show ?thesis using first step_preorderD(2) [OF R] by blast
  next
    case (Some y)
    then show ?thesis using Cons.prems x first by simp
  qed
qed (simp add: step_preorderD(1) [OF R])

lemma step_route_turn:
  assumes "step_preorder env R" "flight_respects flight" "route_turn num env flight p tried s = (x, s1)"
  shows "R s s1"
proof -
  obtain a ps s2 where t: "try_candidates num env flight p (route_candidates env p s) (new_pass tried) s = (a, ps, s2)"
    by (cases "try_candidates num env flight p (route_candidates env p s) (new_pass tried) s")
  have "s2 = s1" using assms(3) t
    by (auto simp: route_turn_def Let_def split: option.splits route_answer.splits after_pass.splits)
  then show ?thesis using step_try_candidates [OF assms(1,2) t] by simp
qed

subsection \<open>What a result means\<close>

text \<open>
  What the checks of an accepted answer establish: for EVM, state that is not \<^verbatim>\<open>null\<close>, the block of
  the target's hash, logs of the range or of the block and none removed, the receipt of the hash not
  above the target; for Solana, a context or slot that has reached the floor.
\<close>

definition logs_checked :: "(u64 \<times> u64) option \<Rightarrow> string \<Rightarrow> raw \<Rightarrow> bool" where
  "logs_checked rng targetHash payload \<longleftrightarrow> (\<exists>logs. decode_logs payload = Some (Some logs) \<and>
     (\<forall>entry \<in> set logs. \<not> log_removed entry \<and>
        (case rng of
           None \<Rightarrow> EqualFold (log_blockHash entry) targetHash
         | Some (a, b) \<Rightarrow> \<exists>n. ParseEVMQuantity (log_blockNumber entry) = Inr n \<and> a \<le> n \<and> n \<le> b)))"

definition evm_checked :: "preparedRequest \<Rightarrow> head \<Rightarrow> raw \<Rightarrow> bool" where
  "evm_checked p t payload \<longleftrightarrow>
     (if requireEIP1898 p then payload \<noteq> Some JNull
      else (p_method p = ''eth_getBlockByHash'' \<longrightarrow>
              (\<exists>now r b. ParseEVMHead now r [] [] payload = Inr b \<and> EqualFold (Hash b) (Hash t)))
         \<and> (p_method p = ''eth_getLogs'' \<longrightarrow> logs_checked (logRange p) (Hash t) payload))"

definition slot_reached :: "raw \<Rightarrow> u64 \<Rightarrow> bool" where
  "slot_reached payload floor \<longleftrightarrow> (\<exists>ms ctx cs slot. payload = Some (JObj ms) \<and> map_of (members_map ms) ''context'' = Some ctx
     \<and> struct_members ctx = Some cs \<and> uint_ptr_field ''slot'' cs = Some (Some slot) \<and> floor \<le> slot)"

definition answer_checked :: "string \<Rightarrow> preparedRequest \<Rightarrow> raw \<Rightarrow> bool" where
  "answer_checked family p payload \<longleftrightarrow>
     (receiptHash p \<noteq> [] \<longrightarrow>
        (\<exists>b. getEVMReceiptBlock payload (receiptHash p) = Inr b \<and> Number b \<le> Number (target_of p)))
     \<and> (\<forall>t. p_target p = Some t \<longrightarrow>
          (family = ''evm'' \<longrightarrow> evm_checked p t payload)
        \<and> (verifyContextSlot p \<longrightarrow> slot_reached payload (Number t))
        \<and> (family = ''solana'' \<and> p_method p = ''getSlot'' \<longrightarrow>
             (\<exists>slot. unmarshal_uint_ptr payload = Some (Some slot) \<and> Number t \<le> slot)))"

lemma logs_problem_None:
  "logs_problem rng h logs = None \<Longrightarrow>
     \<forall>entry \<in> set logs. \<not> log_removed entry \<and>
        (case rng of None \<Rightarrow> EqualFold (log_blockHash entry) h
         | Some (a, b) \<Rightarrow> \<exists>n. ParseEVMQuantity (log_blockNumber entry) = Inr n \<and> a \<le> n \<and> n \<le> b)"
  by (induction logs) (auto simp: log_problem_def split: option.splits if_splits sum.splits)

lemma verifyEVMResponse_None:
  "verifyEVMResponse now r p t payload = None \<Longrightarrow> evm_checked p t payload"
  unfolding verifyEVMResponse_def evm_checked_def
  by (auto simp: verify_block_def verify_logs_def logs_checked_def dest: logs_problem_None
      split: if_splits sum.splits option.splits)

lemma verifySolanaContext_None: "verifySolanaContext payload n = None \<Longrightarrow> slot_reached payload n"
  unfolding verifySolanaContext_def slot_reached_def
  by (auto split: option.splits json.splits if_splits Option.bind_splits)

lemma receipt_verdict_None:
  "receipt_verdict p payload = None \<Longrightarrow> receiptHash p \<noteq> [] \<Longrightarrow>
     \<exists>b. getEVMReceiptBlock payload (receiptHash p) = Inr b \<and> Number b \<le> Number (target_of p)"
  by (auto simp: receipt_verdict_def split: if_splits sum.splits)

lemma judge_Accepted:
  assumes "judge_response now r p payload = Accepted v"
  shows "answer_checked (cc_Family (rt_Config r)) p payload
    \<and> (if unwrapContext p then unwrap_value payload = Some v else v = payload)"
proof -
  let ?family = "cc_Family (rt_Config r)"
  have receipt: "receipt_verdict p payload = None"
    using assms unfolding judge_response_def
    by (auto simp: receipt_verdict_def split: if_splits option.splits sum.splits)
  have ok: "\<not> (?family = ''evm'' \<and> p_target p \<noteq> None \<and> verifyEVMResponse now r p (target_of p) payload \<noteq> None)"
    "\<not> (verifyContextSlot p \<and> p_target p \<noteq> None \<and> verifySolanaContext payload (Number (target_of p)) \<noteq> None)"
    "\<not> (?family = ''solana'' \<and> p_target p \<noteq> None \<and> solana_slot_behind (p_method p) (Number (target_of p)) payload)"
    "if unwrapContext p then unwrap_value payload = Some v else v = payload"
    using assms receipt unfolding judge_response_def by (auto split: if_splits option.splits)
  have "answer_checked ?family p payload"
    unfolding answer_checked_def
  proof (intro conjI allI impI)
    assume "receiptHash p \<noteq> []"
    then show "\<exists>b. getEVMReceiptBlock payload (receiptHash p) = Inr b \<and> Number b \<le> Number (target_of p)"
      using receipt_verdict_None [OF receipt] by blast
  next
    fix t assume "p_target p = Some t" "?family = ''evm''"
    then show "evm_checked p t payload" using ok(1) by (auto intro: verifyEVMResponse_None)
  next
    fix t assume "p_target p = Some t" "verifyContextSlot p"
    then show "slot_reached payload (Number t)" using ok(2) by (auto intro: verifySolanaContext_None)
  next
    fix t assume "p_target p = Some t" "?family = ''solana'' \<and> p_method p = ''getSlot''"
    then show "\<exists>slot. unmarshal_uint_ptr payload = Some (Some slot) \<and> Number t \<le> slot"
      using ok(3) by (auto simp: solana_slot_behind_def split: option.splits)
  qed
  with ok(4) show ?thesis by blast
qed

subsection \<open>Answers of the route\<close>

text \<open>An answer that an upstream gave to the prepared request and that passed the checks.\<close>

definition upstream_answer :: "'w node_env \<Rightarrow> preparedRequest \<Rightarrow> string \<Rightarrow> raw \<Rightarrow> string \<Rightarrow> bool" where
  "upstream_answer env p family v i \<longleftrightarrow> (\<exists>w1 w2 resp.
     node_call env i (p_method p) (case p_parameters p of None \<Rightarrow> MarshalParams [] | Some a \<Rightarrow> a) w1 = (Inr resp, w2)
     \<and> Err resp = None \<and> answer_checked family p (Result resp)
     \<and> (if unwrapContext p then unwrap_value (Result resp) = Some v else v = Result resp))"

definition upstream_error :: "(string \<Rightarrow> string) \<Rightarrow> rpc_error \<Rightarrow> bool" where
  "upstream_error num e \<longleftrightarrow> Code e \<noteq> CodeMethodNotFound \<and> \<not> IsUnavailableRPCError num (Some e)"

fun sound_answer :: "(string \<Rightarrow> string) \<Rightarrow> 'w node_env \<Rightarrow> preparedRequest \<Rightarrow> string \<Rightarrow> string list \<Rightarrow> route_answer \<Rightarrow> bool" where
  "sound_answer num env p family is (Answered v i) \<longleftrightarrow> i \<in> set is \<and> upstream_answer env p family v i"
| "sound_answer num env p family is (Refused e i) \<longleftrightarrow> i \<in> set is \<and> upstream_error num e"

lemma settle_sound:
  assumes "settle env i p payload ps r w = (Some a, rest)"
  shows "\<exists>v. a = Answered v i \<and> answer_checked (cc_Family (rt_Config r)) p payload
    \<and> (if unwrapContext p then unwrap_value payload = Some v else v = payload)"
proof -
  have "\<exists>v. a = Answered v i \<and> judge_response (now_of env w) r p payload = Accepted v"
    using assms by (auto simp: settle_def split: verdict.splits prod.splits bool.splits)
  then show ?thesis using judge_Accepted by blast
qed

lemma call_candidate_sound:
  assumes "call_candidate num env i p ps r w = (Some a, rest)"
  shows "sound_answer num env p (cc_Family (rt_Config r)) [i] a"
proof -
  let ?args = "case p_parameters p of None \<Rightarrow> MarshalParams [] | Some v \<Rightarrow> v"
  obtain resp w1 where c: "node_call env i (p_method p) ?args w = (Inr resp, w1)"
    using assms by (cases "node_call env i (p_method p) ?args w") (auto simp: call_candidate_def split: sum.splits)
  show ?thesis
  proof (cases "Err resp")
    case None
    then have "settle env i p (Result resp) ps r w1 = (Some a, rest)" using assms c by (simp add: call_candidate_def)
    from settle_sound [OF this] obtain v where v: "a = Answered v i"
      "answer_checked (cc_Family (rt_Config r)) p (Result resp)"
      "if unwrapContext p then unwrap_value (Result resp) = Some v else v = Result resp" by blast
    have "upstream_answer env p (cc_Family (rt_Config r)) v i"
      unfolding upstream_answer_def using c None v(2,3) by blast
    then show ?thesis using v(1) by simp
  next
    case (Some e)
    then have "a = Refused e i \<and> upstream_error num e"
      using assms c by (auto simp: call_candidate_def upstream_error_def split: if_splits)
    then show ?thesis by simp
  qed
qed

lemma try_candidate_sound:
  assumes "flight_respects flight" "try_candidate num env flight i p ps s = (Some a, rest)"
  shows "sound_answer num env p (cc_Family (rt_Config (fst s))) [i] a"
proof -
  obtain r1 w1 where c: "check_target env flight i p s = (True, r1, w1)"
    using assms(2) by (cases "check_target env flight i p s") (auto simp: try_candidate_def split: if_splits bool.splits)
  have "same_upstreams s (r1, w1)"
    using step_check_target [OF same_upstreams_preorder assms(1), of s env i p] c by simp
  then have cfg: "rt_Config r1 = rt_Config (fst s)" by (simp add: same_upstreams_def)
  obtain qs w2 where "call_candidate num env i p qs r1 w2 = (Some a, rest)"
    using assms(2) c by (auto simp: try_candidate_def Let_def split: if_splits prod.splits bool.splits)
  then show ?thesis using call_candidate_sound cfg by metis
qed

lemma sound_answer_mono:
  "sound_answer num env p f is a \<Longrightarrow> set is \<subseteq> set js \<Longrightarrow> sound_answer num env p f js a"
  by (cases a) auto

lemma try_candidates_sound:
  assumes F: "flight_respects flight"
  shows "try_candidates num env flight p is ps s = (Some a, rest) \<Longrightarrow>
    sound_answer num env p (cc_Family (rt_Config (fst s))) is a"
proof (induction "is" arbitrary: ps s)
  case (Cons i candidates)
  obtain x ps2 s2 where x: "try_candidate num env flight i p ps s = (x, ps2, s2)"
    by (cases "try_candidate num env flight i p ps s")
  show ?case
  proof (cases x)
    case None
    then have "sound_answer num env p (cc_Family (rt_Config (fst s2))) candidates a" using Cons x by auto
    moreover have "rt_Config (fst s2) = rt_Config (fst s)"
      using step_try_candidate [OF same_upstreams_preorder F x] by (simp add: same_upstreams_def)
    ultimately show ?thesis using sound_answer_mono [of num env p _ candidates a "i # candidates"] by auto
  next
    case (Some y)
    then have "sound_answer num env p (cc_Family (rt_Config (fst s))) [i] a"
      using try_candidate_sound [OF F, of num env i p ps s a] Cons.prems x by auto
    then show ?thesis using sound_answer_mono [of num env p _ "[i]" a "i # candidates"] by auto
  qed
qed simp

lemma set_route_candidates: "set (route_candidates env p s) \<subseteq> {i \<in> set (upstream_ids (fst s)). IsValid (fst s) i}"
  by (auto simp: route_candidates_def Let_def set_Candidates)

text \<open>What a finished route may say, for the runtime it started with.\<close>

definition route_result :: "(string \<Rightarrow> string) \<Rightarrow> 'w node_env \<Rightarrow> preparedRequest \<Rightarrow> runtime \<Rightarrow> raw \<times> string \<times> rpc_error option \<Rightarrow> bool" where
  "route_result num env p r x \<longleftrightarrow> (case x of (v, i, e) \<Rightarrow>
     (case e of
        None \<Rightarrow> receiptHash p \<noteq> [] \<and> v = Some JNull \<or>
           i \<in> set (upstream_ids r) \<and> IsValid r i \<and> upstream_answer env p (cc_Family (rt_Config r)) v i
      | Some e \<Rightarrow> v = None \<and> (i = [] \<and> Code e = CodeConsistencyUnavailable \<or>
           i \<in> set (upstream_ids r) \<and> IsValid r i \<and> upstream_error num e)))"

lemma route_result_exhausted [simp]: "route_result num env p r (exhausted r1 p tried)"
  by (simp add: route_result_def exhausted_def)

lemma route_result_same:
  "same_upstreams (r, w) (r1, w1) \<Longrightarrow> route_result num env p r1 x \<longleftrightarrow> route_result num env p r x"
  by (simp add: same_upstreams_def route_result_def upstream_ids_def IsValid_def split: prod.splits)

lemma route_turn_result:
  assumes "flight_respects flight" "route_turn num env flight p tried (r, w) = (Inl x, s1)"
  shows "route_result num env p r x"
proof -
  let ?is = "route_candidates env p (r, w)"
  obtain a ps s2 where t: "try_candidates num env flight p ?is (new_pass tried) (r, w) = (a, ps, s2)"
    by (cases "try_candidates num env flight p ?is (new_pass tried) (r, w)")
  show ?thesis
  proof (cases a)
    case None
    then show ?thesis using assms(2) t
      by (auto simp: route_turn_def Let_def end_of_pass_def route_result_def exhausted_def split: after_pass.splits if_splits)
  next
    case (Some b)
    then have "sound_answer num env p (cc_Family (rt_Config r)) ?is b"
      using try_candidates_sound [OF assms(1), of num env p ?is "new_pass tried" "(r, w)" b] t by auto
    then show ?thesis using assms(2) t Some set_route_candidates [of env p "(r, w)"]
      by (cases b) (auto simp: route_turn_def Let_def route_result_def)
  qed
qed

lemma route_loop_result:
  assumes "flight_respects flight" "route_loop num env flight wait p tried (r, w) = Some (x, s')"
  shows "route_result num env p r x"
proof -
  have "\<forall>r w. s = (r, w) \<longrightarrow> flight_respects flight \<longrightarrow> route_result num env p r (fst y)"
    if ret: "route_loop num env flight wait p tried s = Some y" for num env flight wait p tried s y
  proof (rule route_loop.raw_induct [where P = "\<lambda>num env flight wait p tried s y.
        \<forall>r w. s = (r, w) \<longrightarrow> flight_respects flight \<longrightarrow> route_result num env p r (fst y)", OF _ ret])
    fix loop num env flight wait p tried s y
    assume IH: "\<And>num env flight wait p tried s y. loop num env flight wait p tried s = Some y \<Longrightarrow>
        \<forall>r w. s = (r, w) \<longrightarrow> flight_respects flight \<longrightarrow> route_result num env p r (fst y)"
      and eq: "(case route_turn num env flight p tried s of
           (Inl x, s1) \<Rightarrow> Some (x, s1)
         | (Inr tried1, r1, w1) \<Rightarrow>
             (case wait w1 of (stop, w2) \<Rightarrow>
                if stop then Some (exhausted r1 p tried1, r1, w2)
                else loop num env flight wait p tried1 (r1, w2))) = Some y"
    show "\<forall>r w. s = (r, w) \<longrightarrow> flight_respects flight \<longrightarrow> route_result num env p r (fst y)"
    proof (intro allI impI)
      fix r w assume s: "s = (r, w)" and F: "flight_respects flight"
      obtain z r1 w1 where t: "route_turn num env flight p tried s = (z, r1, w1)"
        by (cases "route_turn num env flight p tried s")
      show "route_result num env p r (fst y)"
      proof (cases z)
        case (Inl x)
        then show ?thesis using eq t s route_turn_result [OF F, of num env p tried r w x] by auto
      next
        case (Inr tried1)
        obtain stop w2 where wt: "wait w1 = (stop, w2)" by (cases "wait w1")
        have same: "same_upstreams (r, w) (r1, w1)"
          using step_route_turn [OF same_upstreams_preorder F t] s by simp
        show ?thesis
        proof (cases stop)
          case True
          then show ?thesis using eq t Inr wt by auto
        next
          case False
          then have "loop num env flight wait p tried1 (r1, w2) = Some y" using eq t Inr wt by simp
          from IH [OF this] F have "route_result num env p r1 (fst y)" by simp
          then show ?thesis by (rule iffD1 [OF route_result_same [OF same]])
        qed
      qed
    qed
  qed
  with assms show ?thesis by fastforce
qed


subsection \<open>The route ends\<close>

text \<open>
  The hypotheses on the environment: no call and no mark turns the clock back, and the \<^verbatim>\<open>select\<close> waits 75
  milliseconds unless the context has ended, which it has from the deadline on.
\<close>

definition clock_order :: "'w node_env \<Rightarrow> runtime \<times> 'w \<Rightarrow> runtime \<times> 'w \<Rightarrow> bool" where
  "clock_order env s s' \<longleftrightarrow> now_of env (snd s) \<le> now_of env (snd s')"

definition forward_clock :: "'w node_env \<Rightarrow> bool" where
  "forward_clock env \<longleftrightarrow> (\<forall>i m ps w. now_of env w \<le> now_of env (snd (node_call env i m ps w)))
     \<and> (\<forall>i m w. now_of env w \<le> now_of env (mark_unsupported env i m w))"

definition ends_by :: "'w node_env \<Rightarrow> ('w \<Rightarrow> bool \<times> 'w) \<Rightarrow> time \<Rightarrow> bool" where
  "ends_by env wait deadline \<longleftrightarrow> (\<forall>w. fst (wait w) \<or>
     now_of env w < deadline \<and> now_of env w + 75 * Millisecond \<le> now_of env (snd (wait w)))"

lemma clock_preorder: "forward_clock env \<Longrightarrow> step_preorder env (clock_order env)"
  by (auto simp: step_preorder_def clock_order_def forward_clock_def reflp_def transp_def)

lemma route_loop_ends:
  assumes "forward_clock env" "flight_respects flight" "ends_by env wait deadline"
  shows "\<exists>y. route_loop num env flight wait p tried (r, w) = Some y"
proof (induction "nat (deadline - now_of env w)" arbitrary: tried r w rule: less_induct)
  case less
  obtain z r1 w1 where t: "route_turn num env flight p tried (r, w) = (z, r1, w1)"
    by (cases "route_turn num env flight p tried (r, w)")
  have clock: "now_of env w \<le> now_of env w1"
    using step_route_turn [OF clock_preorder [OF assms(1)] assms(2) t] by (simp add: clock_order_def)
  obtain stop w2 where wt: "wait w1 = (stop, w2)" by (cases "wait w1")
  show ?case
  proof (cases "\<exists>x. z = Inl x \<or> stop")
    case True
    then show ?thesis using t wt by (subst route_loop.simps) (auto simp: exhausted_def split: sum.splits)
  next
    case False
    then obtain tried1 where z: "z = Inr tried1" "\<not> stop" by (cases z) auto
    have "now_of env w1 < deadline \<and> now_of env w1 + 75 * Millisecond \<le> now_of env w2"
      using assms(3) wt z(2) by (metis ends_by_def fst_conv snd_conv)
    then have "nat (deadline - now_of env w2) < nat (deadline - now_of env w)"
      using clock by (simp add: duration_defs)
    from less [OF this, of tried1 r1] show ?thesis using t wt z
      by (subst route_loop.simps) simp
  qed
qed

text \<open>
  Property C20. A route always ends by its deadline: whatever the upstreams answer, however often their
  answers are rejected and the candidates change, the retry loop returns a result when the clock
  does not run backwards and the caller's context ends.
\<close>

theorem route_ends:
  assumes "forward_clock env" "flight_respects flight" "ends_by env wait deadline"
  shows "\<exists>x s'. route num env flight wait p s = Some (x, s')"
  using route_loop_ends [OF assms, of num p "[]" "fst s" "snd s"] by (auto simp: route_def)

definition sample_clock :: "time node_env" where
  "sample_clock = \<lparr>now_of = (\<lambda>w. w), node_call = (\<lambda>_ _ _ w. (Inl ''down'', w)), node_healthy = (\<lambda>_ _. True),
     node_score = (\<lambda>_ _. 0), node_eip1898 = (\<lambda>_ _. True), node_pinned = (\<lambda>_ _ _. True),
     set_eip1898 = (\<lambda>_ _ w. w), set_pinned = (\<lambda>_ _ _ w. w),
     node_supports = (\<lambda>_ _ _. True), mark_unsupported = (\<lambda>_ _ w. w)\<rparr>"

definition sample_wait :: "time \<Rightarrow> bool \<times> time" where
  "sample_wait w = (w \<ge> Second, w + 75 * Millisecond)"

lemma Candidates_sample: "Candidates sample_env sample_runtime e w = [''a'']"
  by (simp add: Candidates_def sample_env_def sample_runtime_def upstream_ids_def
      NewRuntime_def sample_chain_def sample_upstream_def IsValid_def)

lemma sample_env_run:
  "node_call sample_env i m ps (x # xs) = (Inr x, xs)" "node_call sample_env i m ps [] = (Inl ''done'', [])"
  "node_supports sample_env i m w" "node_pinned sample_env i m w" "now_of sample_env w = 1"
  by (simp_all add: sample_env_def)

lemma route_sample:
  "route num sample_env probe_alone wait (prepared_request ''net_version'' ps)
     (sample_runtime, [\<lparr>Result = Some v, Err = None\<rparr>]) = Some ((Some v, ''a'', None), sample_runtime, [])"
  by (simp add: route_def route_loop.simps route_turn_def route_candidates_def Candidates_sample Let_def new_pass_def
      try_candidate_def check_target_def boundaries_hold_def call_candidate_def settle_def judge_response_def
      receipt_verdict_def sample_env_run)


theorem route_ends_witness:
  "\<exists>x s'. route id sample_clock probe_alone sample_wait (prepared_request ''net_version'' None) (sample_runtime, 0) = Some (x, s')"
proof (rule route_ends [OF _ flight_respects_alone])
  show "forward_clock sample_clock" by (simp add: forward_clock_def sample_clock_def)
  show "ends_by sample_clock sample_wait Second"
    by (auto simp: ends_by_def sample_clock_def sample_wait_def)
qed

end
