(* ===== verification/Request_Cache.thy ===== *)
theory Request_Cache
  imports Config
begin

text \<open>
  The process-local response cache, \<^verbatim>\<open>internal/services/requestcache\<close>: entries in a doubly linked
  list ordered by recent use and a map from keys to list elements, bounded in number and in bytes,
  with loads shared between concurrent callers. A list element is its number; \<open>get\<close>, \<open>put\<close> and
  \<open>remove\<close> run under the lock. Payload bytes are a type parameter with what the cache observes of
  them (length, being \<^verbatim>\<open>null\<close>, being valid JSON). A panic is \<open>None\<close>.

  The lemmas: the cache never panics under a validated configuration and stays within its limits;
  its operations are those of an abstract least-recently-used list; a hit returns the response last
  stored under that very key, before its expiry.
\<close>

record 'p codec =
  p_len :: "'p \<Rightarrow> nat"
  p_null :: "'p \<Rightarrow> bool"
  p_valid :: "'p \<Rightarrow> bool"

record 'p cached =
  Payload :: 'p
  Upstream :: string
  SkipCache :: bool

record 'p lookup =
  Response :: "'p cached"
  Status :: string

record 'p entry =
  e_key :: string
  e_response :: "'p cached"
  e_expires :: time
  e_size :: int

record 'p cache =
  cache_config :: CacheConfig
  entries :: "string \<Rightarrow> nat option"
  recent :: "(nat \<times> 'p entry) list"
  bytes :: int
  elements :: nat

definition new_cache :: "CacheConfig \<Rightarrow> 'p cache" where
  "new_cache cfg = \<lparr>cache_config = cfg, entries = (\<lambda>_. None), recent = [], bytes = 0, elements = 0\<rparr>"

definition Enabled :: "'p cache \<Rightarrow> bool" where
  "Enabled s \<longleftrightarrow> \<not> Disabled (cache_config s) \<and> MaxEntries (cache_config s) > 0"

text \<open>An element keeps its entry while it is in the list.\<close>

definition remove :: "nat \<Rightarrow> 'p cache \<Rightarrow> 'p cache" where
  "remove el s =
     (case map_of (recent s) el of
        None \<Rightarrow> s
      | Some cached \<Rightarrow>
          s\<lparr>entries := (entries s)(e_key cached := None), bytes := bytes s - e_size cached,
            recent := map_delete el (recent s)\<rparr>)"

definition get :: "time \<Rightarrow> string \<Rightarrow> 'p cache \<Rightarrow> 'p cached option \<times> 'p cache" where
  "get now key s =
     (case entries s key of
        None \<Rightarrow> (None, s)
      | Some el \<Rightarrow>
          (case map_of (recent s) el of
             None \<Rightarrow> (None, s)
           | Some cached \<Rightarrow>
               if \<not> now < e_expires cached then (None, remove el s)
               else (Some (e_response cached), s\<lparr>recent := (el, cached) # map_delete el (recent s)\<rparr>)))"

lemma length_remove_last:
  "recent s \<noteq> [] \<Longrightarrow> length (recent (remove (fst (last (recent s))) s)) < length (recent s)"
proof -
  assume ne: "recent s \<noteq> []"
  then have "last (recent s) \<in> set (recent s)" by simp
  then have "map_of (recent s) (fst (last (recent s))) \<noteq> None"
    by (simp add: map_of_eq_None_iff)
  moreover have "length (map_delete (fst (last (recent s))) (recent s)) < length (recent s)"
    unfolding map_delete_def using ne by (intro length_filter_less [of "last (recent s)"]) auto
  ultimately show ?thesis by (auto simp: remove_def)
qed

text \<open>The eviction loop; removing the back of an empty list is a nil dereference.\<close>

function evict :: "int \<Rightarrow> 'p cache \<Rightarrow> 'p cache option" where
  "evict sz s =
     (if int (length (recent s)) \<ge> MaxEntries (cache_config s) \<or> bytes s > MaxBytes (cache_config s) - sz
      then (if recent s = [] then None else evict sz (remove (fst (last (recent s))) s))
      else Some s)"
  by pat_completeness auto
termination
  by (relation "measure (\<lambda>(_, s). length (recent s))") (auto simp: length_remove_last)

declare evict.simps [simp del]

definition response_size :: "'p codec \<Rightarrow> string \<Rightarrow> 'p cached \<Rightarrow> int" where
  "response_size cd key r = int (length key) + int (p_len cd (Payload r)) + int (length (Upstream r))"

definition storable :: "'p codec \<Rightarrow> CacheConfig \<Rightarrow> string \<Rightarrow> 'p cached \<Rightarrow> bool" where
  "storable cd cfg key r \<longleftrightarrow>
     \<not> (SkipCache r \<or> p_len cd (Payload r) = 0 \<or> p_null cd (Payload r)
        \<or> response_size cd key r > MaxEntryBytes cfg \<or> \<not> p_valid cd (Payload r))"

definition put :: "'p codec \<Rightarrow> time \<Rightarrow> string \<Rightarrow> 'p cached \<Rightarrow> 'p cache \<Rightarrow> 'p cache option" where
  "put cd now key response s =
     (let sz = response_size cd key response in
      if \<not> storable cd (cache_config s) key response then Some s
      else
        let s1 = (case entries s key of None \<Rightarrow> s | Some previous \<Rightarrow> remove previous s) in
        case evict sz s1 of
          None \<Rightarrow> None
        | Some s2 \<Rightarrow>
            let cached = \<lparr>e_key = key, e_response = response, e_expires = now + TTL (cache_config s), e_size = sz\<rparr>;
                el = elements s2
            in Some (s2\<lparr>recent := (el, cached) # recent s2, entries := (entries s2)(key \<mapsto> el),
                        bytes := bytes s2 + sz, elements := el + 1\<rparr>))"

subsection \<open>Shared loads\<close>

text \<open>
  The cache and the outside world, a type parameter, make the state. A load, which may use the cache
  itself, returns its response and error, and the error of its context afterwards; \<open>None\<close> is a load
  that panics or does not return. \<open>do_chan\<close> is \<^verbatim>\<open>singleflight.Group.DoChan\<close>
  followed by the wait: it may run the body, or wait for another caller's body under the same key,
  and the caller's context may end first.
\<close>

datatype 'e cache_error = ReadCtx string | Direct 'e | LoadFailed 'e | CompleteCtx string | WaitCtx string

record ('p, 'e, 'w) cache_request =
  Key :: string
  FlightKey :: string
  Load_of :: "'p cache \<times> 'w \<Rightarrow> (('p cached \<times> 'e option \<times> string option) \<times> 'p cache \<times> 'w) option"

type_synonym ('p, 'e) loaded = "'p lookup \<times> 'e cache_error option"
type_synonym ('p, 'e, 'w) flight_body = "'p cache \<times> 'w \<Rightarrow> (('p, 'e) loaded \<times> 'p cache \<times> 'w) option"

datatype ('p, 'e) flight = CtxDone string | Completed "('p, 'e) loaded" bool

definition load_body :: "'p codec \<Rightarrow> ('w \<Rightarrow> time) \<Rightarrow> 'p cached \<Rightarrow> ('p, 'e, 'w) cache_request \<Rightarrow>
    ('p, 'e, 'w) flight_body" where
  "load_body cd clock zero req =
     (\<lambda>(s, w).
        case get (clock w) (Key req) s of
          (Some r, s1) \<Rightarrow> Some ((\<lparr>Response = r, Status = ''hit''\<rparr>, None), s1, w)
        | (None, s1) \<Rightarrow>
            (case Load_of req (s1, w) of
               None \<Rightarrow> None
             | Some ((r, Some e, _), s2, w1) \<Rightarrow>
                 Some ((\<lparr>Response = r, Status = ''miss''\<rparr>, Some (LoadFailed e)), s2, w1)
             | Some ((r, None, Some c), s2, w1) \<Rightarrow>
                 Some ((\<lparr>Response = zero, Status = ''miss''\<rparr>, Some (CompleteCtx c)), s2, w1)
             | Some ((r, None, None), s2, w1) \<Rightarrow>
                 (case put cd (clock w1) (Key req) r s2 of
                    None \<Rightarrow> None
                  | Some s3 \<Rightarrow> Some ((\<lparr>Response = r, Status = ''miss''\<rparr>, None), s3, w1))))"

definition GetOrLoad :: "'p codec \<Rightarrow> ('w \<Rightarrow> time) \<Rightarrow> 'p cached \<Rightarrow>
    (string \<Rightarrow> ('p, 'e, 'w) flight_body \<Rightarrow> 'p cache \<times> 'w \<Rightarrow> (('p, 'e) flight \<times> 'p cache \<times> 'w) option) \<Rightarrow>
    string option \<Rightarrow> ('p, 'e, 'w) cache_request \<Rightarrow> 'p cache \<times> 'w \<Rightarrow> (('p, 'e) loaded \<times> 'p cache \<times> 'w) option" where
  "GetOrLoad cd clock zero do_chan ctx_err req = (\<lambda>(s, w).
     case ctx_err of
       Some c \<Rightarrow> Some ((\<lparr>Response = zero, Status = ''bypass''\<rparr>, Some (ReadCtx c)), s, w)
     | None \<Rightarrow>
         if \<not> Enabled s
         then (case Load_of req (s, w) of
                 None \<Rightarrow> None
               | Some ((r, e, _), s1, w1) \<Rightarrow>
                   Some ((\<lparr>Response = r, Status = ''bypass''\<rparr>, map_option Direct e), s1, w1))
         else
           (case get (clock w) (Key req) s of
              (Some r, s1) \<Rightarrow> Some ((\<lparr>Response = r, Status = ''hit''\<rparr>, None), s1, w)
            | (None, s1) \<Rightarrow>
                let flightKey = (if FlightKey req = [] then Key req else FlightKey req) in
                (case do_chan flightKey (load_body cd clock zero req) (s1, w) of
                   None \<Rightarrow> None
                 | Some (CtxDone c, s2, w2) \<Rightarrow>
                     Some ((\<lparr>Response = zero, Status = ''miss''\<rparr>, Some (WaitCtx c)), s2, w2)
                 | Some (Completed (l, e) shared, s2, w2) \<Rightarrow>
                     Some ((if shared then l\<lparr>Status := ''shared''\<rparr> else l, e), s2, w2))))"

subsection \<open>Representation invariant\<close>

definition total_size :: "(nat \<times> 'p entry) list \<Rightarrow> int" where
  "total_size es = sum_list (map (\<lambda>p. e_size (snd p)) es)"

definition cache_rep :: "'p cache \<Rightarrow> bool" where
  "cache_rep s \<longleftrightarrow> distinct (map fst (recent s)) \<and> (\<forall>p \<in> set (recent s). fst p < elements s \<and> 0 \<le> e_size (snd p))
     \<and> (\<forall>k i. entries s k = Some i \<longleftrightarrow> (\<exists>e. (i, e) \<in> set (recent s) \<and> e_key e = k))
     \<and> bytes s = total_size (recent s)"

definition cache_inv :: "'p cache \<Rightarrow> bool" where
  "cache_inv s \<longleftrightarrow> cache_rep s \<and> int (length (recent s)) \<le> MaxEntries (cache_config s)
     \<and> bytes s \<le> MaxBytes (cache_config s)"

lemma total_size_simps [simp]:
  "total_size [] = 0" "total_size (p # ps) = e_size (snd p) + total_size ps"
  "total_size (ps @ qs) = total_size ps + total_size qs"
  by (simp_all add: total_size_def)

lemma total_size_nonneg: "\<forall>p \<in> set ps. 0 \<le> e_size (snd p) \<Longrightarrow> 0 \<le> total_size ps"
  by (induction ps) auto

lemma map_delete_absent: "k \<notin> fst ` set m \<Longrightarrow> map_delete k m = m"
  unfolding map_delete_def by (rule filter_True) auto

lemma total_size_map_delete:
  "distinct (map fst ps) \<Longrightarrow> (el, e) \<in> set ps \<Longrightarrow> total_size (map_delete el ps) = total_size ps - e_size e"
proof (induction ps)
  case (Cons p ps)
  show ?case
  proof (cases "fst p = el")
    case True
    then have "map_delete el ps = ps" using Cons.prems(1) by (intro map_delete_absent) auto
    moreover have "snd p = e" using Cons.prems True by (cases p) (auto simp: rev_image_eqI)
    ultimately show ?thesis using True by (simp add: map_delete_def)
  next
    case False
    then show ?thesis using Cons by (auto simp: map_delete_def)
  qed
qed simp

lemma set_map_delete: "set (map_delete k m) = {p \<in> set m. fst p \<noteq> k}"
  by (simp add: map_delete_def)

lemma map_of_Some_set: "distinct (map fst m) \<Longrightarrow> map_of m k = Some v \<longleftrightarrow> (k, v) \<in> set m"
  by (rule map_of_is_SomeI [THEN iffI [rotated], rotated]) (auto dest: map_of_SomeD)

lemma length_map_delete: "length (map_delete k m) \<le> length m"
  by (simp add: map_delete_def)

lemma entries_element:
  assumes "cache_rep s" "entries s key = Some el"
  obtains e where "map_of (recent s) el = Some e" "(el, e) \<in> set (recent s)" "e_key e = key"
  using assms by (auto simp: cache_rep_def map_of_Some_set)

lemma entries_None:
  assumes "cache_rep s" "entries s key = None"
  shows "\<forall>p \<in> set (recent s). e_key (snd p) \<noteq> key"
  using assms unfolding cache_rep_def by (metis option.distinct(1) prod.collapse)

text \<open>An element is found again by its entry's key.\<close>

lemma rep_key_inj:
  assumes "cache_rep s" "(i, e) \<in> set (recent s)" "(j, f) \<in> set (recent s)" "e_key e = e_key f"
  shows "i = j"
proof -
  have "entries s (e_key e) = Some i" "entries s (e_key e) = Some j"
    using assms by (auto simp: cache_rep_def)
  then show ?thesis by simp
qed

lemma recent_remove:
  assumes "cache_rep s" "(el, e) \<in> set (recent s)"
  shows "remove el s = s\<lparr>entries := (entries s)(e_key e := None), bytes := bytes s - e_size e,
     recent := map_delete el (recent s)\<rparr>"
proof -
  have "map_of (recent s) el = Some e" using assms by (auto simp: cache_rep_def map_of_Some_set)
  then show ?thesis by (simp add: remove_def)
qed

lemma cache_repI:
  assumes "distinct (map fst (recent s))" "\<And>p. p \<in> set (recent s) \<Longrightarrow> fst p < elements s \<and> 0 \<le> e_size (snd p)"
    and "\<And>k i. entries s k = Some i \<longleftrightarrow> (\<exists>e. (i, e) \<in> set (recent s) \<and> e_key e = k)"
    and "bytes s = total_size (recent s)"
  shows "cache_rep s"
  using assms by (simp add: cache_rep_def)

lemma cache_repD:
  assumes "cache_rep s"
  shows "distinct (map fst (recent s))" "p \<in> set (recent s) \<Longrightarrow> fst p < elements s \<and> 0 \<le> e_size (snd p)"
    and "entries s k = Some i \<longleftrightarrow> (\<exists>e. (i, e) \<in> set (recent s) \<and> e_key e = k)"
    and "bytes s = total_size (recent s)"
  using assms unfolding cache_rep_def by blast+

lemma cache_rep_remove:
  assumes "cache_rep s" "(el, e) \<in> set (recent s)"
  shows "cache_rep (remove el s)"
proof (rule cache_repI)
  note r = cache_repD [OF assms(1)]
  note eq = recent_remove [OF assms]
  show "distinct (map fst (recent (remove el s)))" using r(1) by (simp add: eq distinct_map_delete)
  show "fst p < elements (remove el s) \<and> 0 \<le> e_size (snd p)" if "p \<in> set (recent (remove el s))" for p
    using r(2) [of p] that by (simp add: eq set_map_delete)
  show "entries (remove el s) k = Some i \<longleftrightarrow> (\<exists>x. (i, x) \<in> set (recent (remove el s)) \<and> e_key x = k)" for k i
  proof (cases "k = e_key e")
    case True
    then show ?thesis using rep_key_inj [OF assms] by (auto simp: eq set_map_delete)
  next
    case False
    have "x = e" if "(el, x) \<in> set (recent s)" for x
      using that assms(2) r(1) by (meson eq_key_imp_eq_value)
    then show ?thesis using False r(3) [of k i] by (auto simp: eq set_map_delete)
  qed
  show "bytes (remove el s) = total_size (recent (remove el s))"
    using r(4) total_size_map_delete [OF r(1) assms(2)] by (simp add: eq)
qed

lemma cache_rep_front:
  assumes "cache_rep s" "(el, e) \<in> set (recent s)"
  shows "cache_rep (s\<lparr>recent := (el, e) # map_delete el (recent s)\<rparr>)"
proof -
  note r = cache_repD [OF assms(1)]
  have same: "insert (el, e) (set (map_delete el (recent s))) = set (recent s)"
    using assms(2) r(1) by (auto simp: set_map_delete dest: eq_key_imp_eq_value)
  have "distinct (el # map fst (map_delete el (recent s)))"
    using r(1) by (auto simp: set_map_delete)
  then show ?thesis
    using r total_size_map_delete [OF r(1) assms(2)] same by (simp add: cache_rep_def)
qed

subsection \<open>The abstract cache\<close>

text \<open>Entries from the most to the least recently used, one per key. Storing keeps the longest
  front part that leaves room for the new entry.\<close>

fun keep :: "int \<Rightarrow> int \<Rightarrow> 'p entry list \<Rightarrow> 'p entry list" where
  "keep n budget [] = []"
| "keep n budget (e # es) =
     (if n \<le> 0 \<or> e_size e > budget then [] else e # keep (n - 1) (budget - e_size e) es)"

definition lru_get :: "time \<Rightarrow> string \<Rightarrow> 'p entry list \<Rightarrow> 'p cached option \<times> 'p entry list" where
  "lru_get now k es =
     (let rest = filter (\<lambda>e. e_key e \<noteq> k) es in
      case find (\<lambda>e. e_key e = k) es of
        None \<Rightarrow> (None, es)
      | Some e \<Rightarrow> if now < e_expires e then (Some (e_response e), e # rest) else (None, rest))"

definition lru_put :: "'p codec \<Rightarrow> CacheConfig \<Rightarrow> time \<Rightarrow> string \<Rightarrow> 'p cached \<Rightarrow> 'p entry list \<Rightarrow> 'p entry list" where
  "lru_put cd cfg now k r es =
     (if \<not> storable cd cfg k r then es
      else let sz = response_size cd k r in
        \<lparr>e_key = k, e_response = r, e_expires = now + TTL cfg, e_size = sz\<rparr>
          # keep (MaxEntries cfg - 1) (MaxBytes cfg - sz) (filter (\<lambda>e. e_key e \<noteq> k) es))"

definition abs_cache :: "'p cache \<Rightarrow> 'p entry list" where
  "abs_cache s = map snd (recent s)"

lemma keep_all:
  "int (length es) \<le> n \<Longrightarrow> \<forall>e \<in> set es. 0 \<le> e_size e \<Longrightarrow> sum_list (map e_size es) \<le> b \<Longrightarrow> keep n b es = es"
proof (induction es arbitrary: n b)
  case (Cons e es)
  have "0 \<le> sum_list (map e_size es)" using Cons.prems(2) by (intro sum_list_nonneg) auto
  then show ?case using Cons by auto
qed simp

lemma keep_snoc:
  "\<forall>e \<in> set (es @ [x]). 0 \<le> e_size e \<Longrightarrow>
     \<not> (int (length (es @ [x])) \<le> n \<and> sum_list (map e_size (es @ [x])) \<le> b) \<Longrightarrow> keep n b (es @ [x]) = keep n b es"
  by (induction es arbitrary: n b) auto

lemma map_snd_map_delete:
  assumes "cache_rep s" "(el, e) \<in> set (recent s)"
  shows "map snd (map_delete el (recent s)) = filter (\<lambda>x. e_key x \<noteq> e_key e) (map snd (recent s))"
proof -
  have "fst p \<noteq> el \<longleftrightarrow> e_key (snd p) \<noteq> e_key e" if "p \<in> set (recent s)" for p
  proof
    obtain i x where p: "p = (i, x)" by (cases p)
    show "fst p \<noteq> el \<Longrightarrow> e_key (snd p) \<noteq> e_key e"
      using rep_key_inj [OF assms, of i x] that p by auto
    show "e_key (snd p) \<noteq> e_key e \<Longrightarrow> fst p \<noteq> el"
      using eq_key_imp_eq_value [OF cache_repD(1) [OF assms(1)] assms(2), of x] that p by auto
  qed
  then have "map_delete el (recent s) = filter (\<lambda>p. e_key (snd p) \<noteq> e_key e) (recent s)"
    unfolding map_delete_def by (rule filter_cong [OF refl])
  then show ?thesis by (simp add: filter_map o_def)
qed

lemma map_delete_last:
  assumes "distinct (map fst (xs @ [x]))"
  shows "map_delete (fst x) (xs @ [x]) = xs"
proof -
  have "map_delete (fst x) xs = xs" using assms by (intro map_delete_absent) auto
  then show ?thesis by (simp add: map_delete_def)
qed

text \<open>The eviction loop leaves the longest front part that fits, and never runs dry when one entry
  of the new size fits at all.\<close>

lemma evict_spec:
  "cache_rep s \<Longrightarrow> 0 < MaxEntries (cache_config s) \<Longrightarrow> sz \<le> MaxBytes (cache_config s) \<Longrightarrow>
   \<exists>s'. evict sz s = Some s' \<and> cache_rep s' \<and> cache_config s' = cache_config s \<and> elements s' = elements s
     \<and> abs_cache s' = keep (MaxEntries (cache_config s) - 1) (MaxBytes (cache_config s) - sz) (abs_cache s)
     \<and> int (length (recent s')) < MaxEntries (cache_config s) \<and> bytes s' \<le> MaxBytes (cache_config s) - sz"
proof (induction "length (recent s)" arbitrary: s rule: less_induct)
  case less
  note r = cache_repD [OF less.prems(1)]
  have sum: "total_size (recent t) = sum_list (map e_size (abs_cache t))" for t :: "'a cache"
    by (simp add: total_size_def abs_cache_def o_def)
  show ?case
  proof (cases "int (length (recent s)) \<ge> MaxEntries (cache_config s) \<or> bytes s > MaxBytes (cache_config s) - sz")
    case False
    have "keep (MaxEntries (cache_config s) - 1) (MaxBytes (cache_config s) - sz) (abs_cache s) = abs_cache s"
      using False r(2,4) sum [of s] by (intro keep_all) (auto simp: abs_cache_def)
    then show ?thesis using False less.prems(1) by (simp add: evict.simps [of sz s])
  next
    case True
    have ne: "recent s \<noteq> []"
    proof
      assume "recent s = []"
      then have "bytes s = 0" using r(4) by simp
      then show False using True \<open>recent s = []\<close> less.prems(2,3) by simp
    qed
    then obtain ps el e where ps: "recent s = ps @ [(el, e)]"
      by (cases "recent s" rule: rev_cases) auto
    have mem: "(el, e) \<in> set (recent s)" by (simp add: ps)
    let ?s1 = "remove el s"
    have s1: "recent ?s1 = ps" "cache_config ?s1 = cache_config s" "elements ?s1 = elements s"
      using recent_remove [OF less.prems(1) mem] map_delete_last [of ps "(el, e)"] r(1) by (simp_all add: ps)
    have "keep (MaxEntries (cache_config s) - 1) (MaxBytes (cache_config s) - sz) (abs_cache s) =
        keep (MaxEntries (cache_config s) - 1) (MaxBytes (cache_config s) - sz) (abs_cache ?s1)"
    proof -
      have abs: "abs_cache s = abs_cache ?s1 @ [e]" using s1(1) ps by (simp add: abs_cache_def)
      have "\<forall>x \<in> set (abs_cache ?s1 @ [e]). 0 \<le> e_size x"
        using r(2) abs by (metis (no_types, lifting) abs_cache_def image_iff list.set_map)
      moreover have "length (abs_cache ?s1 @ [e]) = length (recent s)"
        unfolding abs [symmetric] by (simp add: abs_cache_def)
      ultimately show ?thesis
        unfolding abs using True r(4) sum [of s] by (intro keep_snoc) (auto simp: abs)
    qed
    moreover have "evict sz s = evict sz ?s1"
      using True ne ps by (simp add: evict.simps [of sz s])
    ultimately show ?thesis
      using less.hyps [of ?s1] cache_rep_remove [OF less.prems(1) mem] less.prems(2,3) s1 ps by simp
  qed
qed

lemma find_key:
  assumes "cache_rep s" "(el, e) \<in> set (recent s)"
  shows "find (\<lambda>x. e_key x = e_key e) (abs_cache s) = Some e"
proof -
  have "\<exists>x. find (\<lambda>x. e_key x = e_key e) (abs_cache s) = Some x"
    using assms(2) by (cases "find (\<lambda>x. e_key x = e_key e) (abs_cache s)")
      (force simp: find_None_iff abs_cache_def)+
  then obtain x where x: "find (\<lambda>x. e_key x = e_key e) (abs_cache s) = Some x" by blast
  then have "x \<in> snd ` set (recent s)" "e_key x = e_key e"
    by (auto simp: find_Some_iff abs_cache_def)
  then obtain j where "(j, x) \<in> set (recent s)" by auto
  then have "x = e" using rep_key_inj [OF assms] \<open>e_key x = e_key e\<close> assms(2) cache_repD(1) [OF assms(1)]
    by (metis eq_key_imp_eq_value)
  then show ?thesis using x by simp
qed

lemma get_lru:
  assumes "cache_inv s" "get now k s = (r, s')"
  shows "cache_inv s' \<and> cache_config s' = cache_config s \<and> (r, abs_cache s') = lru_get now k (abs_cache s)"
proof (cases "entries s k")
  case None
  have rep: "cache_rep s" using assms(1) by (simp add: cache_inv_def)
  have "find (\<lambda>x. e_key x = k) (abs_cache s) = None"
    using entries_None [OF rep None] by (auto simp: find_None_iff abs_cache_def)
  then show ?thesis using assms None by (simp add: get_def lru_get_def)
next
  case (Some el)
  have rep: "cache_rep s" using assms(1) by (simp add: cache_inv_def)
  obtain e where e: "map_of (recent s) el = Some e" "(el, e) \<in> set (recent s)" "e_key e = k"
    using entries_element [OF rep Some] by blast
  have find: "find (\<lambda>x. e_key x = k) (abs_cache s) = Some e"
    using find_key [OF rep e(2)] e(3) by simp
  have rest: "map snd (map_delete el (recent s)) = filter (\<lambda>x. e_key x \<noteq> k) (abs_cache s)"
    using map_snd_map_delete [OF rep e(2)] e(3) by (simp add: abs_cache_def)
  have size: "0 \<le> e_size e" using cache_repD(2) [OF rep e(2)] by simp
  have less: "length (map_delete el (recent s)) < length (recent s)"
    unfolding map_delete_def using e(2) by (intro length_filter_less) auto
  show ?thesis
  proof (cases "now < e_expires e")
    case True
    then have "r = Some (e_response e)" "s' = s\<lparr>recent := (el, e) # map_delete el (recent s)\<rparr>"
      using assms(2) Some e(1) by (simp_all add: get_def)
    then show ?thesis using assms(1) cache_rep_front [OF rep e(2)] find rest True less
      by (simp add: cache_inv_def lru_get_def abs_cache_def)
  next
    case False
    then have "r = None" "s' = remove el s" using assms(2) Some e(1) by (simp_all add: get_def)
    then show ?thesis using assms(1) cache_rep_remove [OF rep e(2)] find rest False less size
      by (simp add: cache_inv_def lru_get_def abs_cache_def recent_remove [OF rep e(2)])
  qed
qed

lemma storable_size:
  "storable cd cfg k r \<Longrightarrow> response_size cd k r \<le> MaxEntryBytes cfg \<and> 0 \<le> response_size cd k r"
  by (auto simp: storable_def response_size_def)

lemma abs_drop_previous:
  fixes k :: string
  assumes "cache_rep s"
  defines "s1 \<equiv> case entries s k of None \<Rightarrow> s | Some previous \<Rightarrow> remove previous s"
  shows "cache_rep s1" "cache_config s1 = cache_config s" "elements s1 = elements s"
    "abs_cache s1 = filter (\<lambda>e. e_key e \<noteq> k) (abs_cache s)"
proof -
  have "cache_rep s1 \<and> cache_config s1 = cache_config s \<and> elements s1 = elements s
      \<and> abs_cache s1 = filter (\<lambda>e. e_key e \<noteq> k) (abs_cache s)"
  proof (cases "entries s k")
    case None
    have "filter (\<lambda>e. e_key e \<noteq> k) (abs_cache s) = abs_cache s"
      using entries_None [OF assms(1) None] by (intro filter_True) (auto simp: abs_cache_def)
    then show ?thesis using None assms by (simp add: s1_def)
  next
    case (Some el)
    obtain e where e: "(el, e) \<in> set (recent s)" "e_key e = k"
      using entries_element [OF assms(1) Some] by blast
    show ?thesis
      using Some e(2) cache_rep_remove [OF assms(1) e(1)] map_snd_map_delete [OF assms(1) e(1)]
      by (simp add: s1_def abs_cache_def recent_remove [OF assms(1) e(1)])
  qed
  then show "cache_rep s1" "cache_config s1 = cache_config s" "elements s1 = elements s"
    "abs_cache s1 = filter (\<lambda>e. e_key e \<noteq> k) (abs_cache s)" by auto
qed

lemma cache_rep_push:
  assumes "cache_rep s" "0 \<le> e_size e" "\<forall>x \<in> set (abs_cache s). e_key x \<noteq> e_key e"
  shows "cache_rep (s\<lparr>recent := (elements s, e) # recent s, entries := (entries s)(e_key e \<mapsto> elements s),
    bytes := bytes s + e_size e, elements := elements s + 1\<rparr>)"
proof -
  note r = cache_repD [OF assms(1)]
  have new: "(elements s, x) \<notin> set (recent s)" for x using r(2) by fastforce
  have other: "(i, x) \<in> set (recent s) \<Longrightarrow> e_key x \<noteq> e_key e" for i x
    using assms(3) by (force simp: abs_cache_def)
  show ?thesis
  proof (rule cache_repI)
    show "distinct (map fst (recent (s\<lparr>recent := (elements s, e) # recent s, entries := (entries s)(e_key e \<mapsto> elements s),
        bytes := bytes s + e_size e, elements := elements s + 1\<rparr>)))"
      using r(1) new by auto
  qed (use r(2) assms(2) in \<open>force\<close>, use r(3) new other in \<open>auto\<close>, use r(4) in simp)
qed

lemma put_lru:
  assumes "cache_inv s" "valid_cache (cache_config s)"
  shows "\<exists>s'. put cd now k r s = Some s' \<and> cache_inv s' \<and> cache_config s' = cache_config s
    \<and> abs_cache s' = lru_put cd (cache_config s) now k r (abs_cache s)"
proof (cases "storable cd (cache_config s) k r")
  case False
  then show ?thesis using assms(1) by (simp add: put_def lru_put_def Let_def)
next
  case True
  let ?s1 = "case entries s k of None \<Rightarrow> s | Some previous \<Rightarrow> remove previous s"
  let ?sz = "response_size cd k r"
  have rep: "cache_rep s" using assms(1) by (simp add: cache_inv_def)
  note s1 = abs_drop_previous [OF rep, of k]
  have sz: "?sz \<le> MaxBytes (cache_config ?s1)" "0 \<le> ?sz" "0 < MaxEntries (cache_config ?s1)"
    using storable_size [OF True] assms(2) s1(2) by (auto simp: valid_cache_def)
  from evict_spec [OF s1(1) sz(3,1)] obtain s2 where s2: "evict ?sz ?s1 = Some s2" "cache_rep s2"
    "cache_config s2 = cache_config s" "elements s2 = elements s"
    "abs_cache s2 = keep (MaxEntries (cache_config s) - 1) (MaxBytes (cache_config s) - ?sz)
       (filter (\<lambda>e. e_key e \<noteq> k) (abs_cache s))"
    "int (length (recent s2)) < MaxEntries (cache_config s)" "bytes s2 \<le> MaxBytes (cache_config s) - ?sz"
    unfolding s1(2-4) by blast
  let ?e = "\<lparr>e_key = k, e_response = r, e_expires = now + TTL (cache_config s), e_size = ?sz\<rparr>"
  have sub: "set (keep n b es) \<subseteq> set es" for n b and es :: "'a entry list"
    by (induction n b es rule: keep.induct) auto
  have "\<forall>x \<in> set (abs_cache s2). e_key x \<noteq> e_key ?e"
    unfolding s2(5) by (auto dest!: subsetD [OF sub])
  from cache_rep_push [OF s2(2) _ this] sz(2)
  show ?thesis using True s2 by (simp add: put_def lru_put_def cache_inv_def abs_cache_def Let_def)
qed

subsection \<open>The contract a cache's clients rely on\<close>

datatype 'p cache_op = CGet time string | CPut time string "'p cached"

text \<open>The response last stored for a key in a history, and the instant of its storing.\<close>

fun last_store :: "'p codec \<Rightarrow> CacheConfig \<Rightarrow> 'p cache_op list \<Rightarrow> string \<Rightarrow> (time \<times> 'p cached) option" where
  "last_store cd cfg [] k = None"
| "last_store cd cfg (op # ops) k =
     (case last_store cd cfg ops k of
        Some x \<Rightarrow> Some x
      | None \<Rightarrow> (case op of
                   CPut t k' r \<Rightarrow> if k' = k \<and> storable cd cfg k r then Some (t, r) else None
                 | CGet _ _ \<Rightarrow> None))"

lemma last_store_snoc:
  "last_store cd cfg (ops @ [op]) k =
     (case op of CPut t k' r \<Rightarrow> if k' = k \<and> storable cd cfg k r then Some (t, r) else last_store cd cfg ops k
               | CGet _ _ \<Rightarrow> last_store cd cfg ops k)"
  by (induction ops) (auto split: cache_op.splits option.splits)

fun cache_run :: "(time \<Rightarrow> string \<Rightarrow> 's \<Rightarrow> 'p cached option \<times> 's) \<Rightarrow> (time \<Rightarrow> string \<Rightarrow> 'p cached \<Rightarrow> 's \<Rightarrow> 's option) \<Rightarrow>
    'p cache_op list \<Rightarrow> 's \<Rightarrow> 's option" where
  "cache_run lookup store [] s = Some s"
| "cache_run lookup store (CGet now k # ops) s = cache_run lookup store ops (snd (lookup now k s))"
| "cache_run lookup store (CPut now k r # ops) s =
     (case store now k r s of None \<Rightarrow> None | Some s' \<Rightarrow> cache_run lookup store ops s')"

locale lru_store =
  fixes lookup_op :: "time \<Rightarrow> string \<Rightarrow> 's \<Rightarrow> 'p cached option \<times> 's"
    and store_op :: "time \<Rightarrow> string \<Rightarrow> 'p cached \<Rightarrow> 's \<Rightarrow> 's option"
    and inv :: "'s \<Rightarrow> bool" and view :: "'s \<Rightarrow> 'p entry list"
    and cd :: "'p codec" and cfg :: CacheConfig
  assumes lookup_lru: "inv s \<Longrightarrow> lookup_op now k s = (r, s') \<Longrightarrow> inv s' \<and> (r, view s') = lru_get now k (view s)"
    and store_lru: "inv s \<Longrightarrow> \<exists>s'. store_op now k x s = Some s' \<and> inv s' \<and> view s' = lru_put cd cfg now k x (view s)"
begin

definition faithful :: "'p cache_op list \<Rightarrow> 's \<Rightarrow> bool" where
  "faithful ops s \<longleftrightarrow> inv s \<and> (\<forall>e \<in> set (view s). \<exists>t. last_store cd cfg ops (e_key e) = Some (t, e_response e)
     \<and> e_expires e = t + TTL cfg)"

lemma set_keep: "set (keep n b es) \<subseteq> set es"
  by (induction n b es rule: keep.induct) auto

lemma faithful_step:
  assumes "faithful ops s"
  shows "\<exists>s'. cache_run lookup_op store_op [op] s = Some s' \<and> faithful (ops @ [op]) s'"
proof (cases op)
  case (CGet now k)
  obtain r s' where g: "lookup_op now k s = (r, s')" by (cases "lookup_op now k s")
  have "inv s'" "(r, view s') = lru_get now k (view s)"
    using lookup_lru [OF _ g] assms by (auto simp: faithful_def)
  moreover from this(2) have "set (view s') \<subseteq> set (view s)"
    by (auto simp: lru_get_def Let_def find_Some_iff split: option.splits if_splits)
  ultimately show ?thesis using assms CGet g
    by (auto simp: faithful_def last_store_snoc)
next
  case (CPut now k r)
  obtain s' where p: "store_op now k r s = Some s'" "inv s'" "view s' = lru_put cd cfg now k r (view s)"
    using store_lru assms by (fastforce simp: faithful_def)
  show ?thesis
  proof (cases "storable cd cfg k r")
    case True
    have "\<exists>t. last_store cd cfg (ops @ [op]) (e_key e) = Some (t, e_response e) \<and> e_expires e = t + TTL cfg"
      if "e \<in> set (view s')" for e
    proof (cases "e_key e = k")
      case True
      then have "e = \<lparr>e_key = k, e_response = r, e_expires = now + TTL cfg, e_size = response_size cd k r\<rparr>"
        using that p(3) \<open>storable cd cfg k r\<close> by (auto simp: lru_put_def Let_def dest!: subsetD [OF set_keep])
      then show ?thesis using \<open>storable cd cfg k r\<close> CPut by (auto simp: last_store_snoc)
    next
      case False
      then have "e \<in> set (view s)"
        using that p(3) \<open>storable cd cfg k r\<close> by (auto simp: lru_put_def Let_def dest!: subsetD [OF set_keep])
      then show ?thesis using assms False CPut by (auto simp: faithful_def last_store_snoc)
    qed
    then show ?thesis using p(1,2) CPut by (simp add: faithful_def)
  next
    case False
    then show ?thesis using assms p CPut by (auto simp: faithful_def last_store_snoc lru_put_def)
  qed
qed

lemma faithful_run:
  "faithful hist s \<Longrightarrow> \<exists>s'. cache_run lookup_op store_op ops s = Some s' \<and> faithful (hist @ ops) s'"
proof (induction ops arbitrary: s hist)
  case (Cons op ops)
  obtain s1 where s1: "cache_run lookup_op store_op [op] s = Some s1" "faithful (hist @ [op]) s1"
    using faithful_step [OF Cons.prems] by blast
  have "cache_run lookup_op store_op (op # ops) s = cache_run lookup_op store_op ops s1"
    using s1(1) by (cases op) (auto split: option.splits)
  then show ?case using Cons.IH [OF s1(2)] by simp
qed simp

lemma hit_last_stored:
  assumes "faithful ops s" "lookup_op now k s = (Some r, s')"
  shows "\<exists>t. last_store cd cfg ops k = Some (t, r) \<and> now < t + TTL cfg"
proof -
  have "(Some r, view s') = lru_get now k (view s)"
    using lookup_lru [OF _ assms(2)] assms(1) by (auto simp: faithful_def)
  then obtain e where e: "find (\<lambda>e. e_key e = k) (view s) = Some e" "e_response e = r" "now < e_expires e"
    by (auto simp: lru_get_def Let_def split: option.splits if_splits)
  then have "e \<in> set (view s)" "e_key e = k" by (auto simp: find_Some_iff)
  then show ?thesis using e(2,3) assms(1) by (fastforce simp: faithful_def)
qed

end

definition configured :: "CacheConfig \<Rightarrow> 'p cache \<Rightarrow> bool" where
  "configured cfg s \<longleftrightarrow> cache_inv s \<and> cache_config s = cfg \<and> valid_cache cfg"

interpretation lru: lru_store get "put cd" "configured cfg" abs_cache cd cfg for cd :: "'p codec" and cfg
proof unfold_locales
  show "configured cfg s' \<and> (r, abs_cache s') = lru_get now k (abs_cache s)"
    if "configured cfg s" "get now k s = (r, s')" for now k r and s s' :: "'p cache"
    using that get_lru [OF _ that(2)] by (auto simp: configured_def)
  show "\<exists>s'. put cd now k r s = Some s' \<and> configured cfg s' \<and> abs_cache s' = lru_put cd cfg now k r (abs_cache s)"
    if "configured cfg s" for now k r and s :: "'p cache"
    using that put_lru [of s cd now k r] by (auto simp: configured_def)
qed

lemma configured_new: "valid_cache cfg \<Longrightarrow> configured cfg (new_cache cfg)"
  by (simp add: configured_def cache_inv_def cache_rep_def new_cache_def valid_cache_def)

lemma cache_run_new:
  assumes "valid_cache cfg"
  shows "\<exists>s. cache_run get (put cd) ops (new_cache cfg) = Some s \<and> configured cfg s \<and> lru.faithful cfg cd ops s"
proof -
  have "lru.faithful cfg cd [] (new_cache cfg)"
    using configured_new [OF assms] by (simp add: lru.faithful_def abs_cache_def new_cache_def)
  from lru.faithful_run [OF this, of ops] show ?thesis by (auto simp: lru.faithful_def)
qed

subsection \<open>Properties of the cache\<close>

text \<open>
  Property C33. Under a validated configuration no sequence of lookups and stores makes the cache
  panic (the eviction loop never removes from an empty list), and after each the entries number at
  most the configured maximum, their sizes add up to the byte count, which is within its limit, and
  the key map and the list agree.
\<close>

theorem cache_bounded:
  assumes "valid_cache cfg"
  shows "\<exists>s. cache_run get (put cd) ops (new_cache cfg) = Some s \<and> cache_rep s
    \<and> int (length (recent s)) \<le> MaxEntries cfg \<and> bytes s = total_size (recent s) \<and> bytes s \<le> MaxBytes cfg"
  using cache_run_new [OF assms, of cd ops] by (auto simp: configured_def cache_inv_def cache_rep_def)

definition sample_limits :: CacheConfig where
  "sample_limits = \<lparr>Disabled = False, MaxEntries = 2, MaxBytes = 10, MaxEntryBytes = 6, TTL = 5\<rparr>"

definition sample_codec :: "string codec" where
  "sample_codec = \<lparr>p_len = length, p_null = (\<lambda>p. p = ''null''), p_valid = (\<lambda>_. True)\<rparr>"

definition sample_response :: "string cached" where
  "sample_response = \<lparr>Payload = ''1'', Upstream = ''a'', SkipCache = False\<rparr>"

lemma valid_sample_limits: "valid_cache sample_limits"
  by (simp add: valid_cache_def sample_limits_def)

theorem cache_bounded_witness:
  "\<exists>s. cache_run get (put sample_codec) [CPut 1 ''k'' sample_response, CGet 2 ''k''] (new_cache sample_limits) = Some s \<and> bytes s \<le> 10"
  using cache_bounded [OF valid_sample_limits, of sample_codec "[CPut 1 ''k'' sample_response, CGet 2 ''k'']"]
  by (auto simp: sample_limits_def)

text \<open>
  Property C21. The list, map and counters implement an abstract least-recently-used cache: a lookup
  returns the unexpired entry of the key and moves it to the front, dropping it when it has
  expired; a store replaces the key's entry, puts the new one in front and keeps exactly the
  longest front part of the others that fits in the number and byte limits.
\<close>

theorem cache_refines_lru:
  assumes "cache_inv s" "valid_cache (cache_config s)"
  shows "(fst (get now k s), abs_cache (snd (get now k s))) = lru_get now k (abs_cache s)
    \<and> cache_inv (snd (get now k s))
    \<and> (\<exists>s'. put cd now k r s = Some s' \<and> cache_inv s'
         \<and> abs_cache s' = lru_put cd (cache_config s) now k r (abs_cache s))"
  using get_lru [OF assms(1), of now k "fst (get now k s)" "snd (get now k s)"] put_lru [OF assms, of cd now k r]
  by auto

theorem cache_refines_lru_witness:
  "fst (get 3 ''k'' (new_cache sample_limits)) = (None :: string cached option)
    \<and> (\<exists>s'. put sample_codec 3 ''k'' sample_response (new_cache sample_limits) = Some s' \<and> cache_inv s')"
  using cache_refines_lru [of "new_cache sample_limits" 3 "''k''" sample_codec sample_response] configured_new [OF valid_sample_limits]
    valid_sample_limits
  by (auto simp: configured_def lru_get_def) (auto simp: abs_cache_def new_cache_def)

text \<open>
  A hit is sound: in any history, the response a lookup returns is the one last stored
  under that very key that was worth retaining (valid, not \<^verbatim>\<open>null\<close>, not marked to be skipped, small
  enough), and its time to live has not passed.
\<close>

theorem cache_hit_sound:
  assumes "valid_cache cfg" "cache_run get (put cd) ops (new_cache cfg) = Some s"
    and "get now k s = (Some r, s')"
  shows "\<exists>t. last_store cd cfg ops k = Some (t, r) \<and> now < t + TTL cfg \<and> storable cd cfg k r"
proof -
  have "lru.faithful cfg cd ops s" using cache_run_new [OF assms(1), of cd ops] assms(2) by auto
  from lru.hit_last_stored [OF this assms(3)]
  obtain t where t: "last_store cd cfg ops k = Some (t, r)" "now < t + TTL cfg" by blast
  have "storable cd cfg k r"
    using t(1) by (induction ops) (auto split: option.splits cache_op.splits if_splits)
  with t show ?thesis by blast
qed

theorem cache_hit_sound_witness:
  "\<exists>t. last_store sample_codec sample_limits [CPut 1 ''k'' sample_response] ''k'' = Some (t, sample_response) \<and> 4 < t + 5"
proof -
  let ?e = "\<lparr>e_key = ''k'', e_response = sample_response, e_expires = 6, e_size = 3\<rparr>"
  let ?s = "\<lparr>cache_config = sample_limits, entries = [''k'' \<mapsto> 0], recent = [(0, ?e)], bytes = 3, elements = 1\<rparr>"
  have put: "put sample_codec 1 ''k'' sample_response (new_cache sample_limits) = Some ?s"
    by (simp add: put_def storable_def response_size_def evict.simps new_cache_def sample_limits_def sample_codec_def
        sample_response_def Let_def)
  have hit: "fst (get 4 ''k'' ?s) = Some sample_response"
    by (simp add: get_def)
  from put have "cache_run get (put sample_codec) [CPut 1 ''k'' sample_response] (new_cache sample_limits) = Some ?s"
    by simp
  moreover have "get 4 ''k'' ?s = (Some sample_response, snd (get 4 ''k'' ?s))"
    using hit by (metis prod.collapse)
  ultimately have "\<exists>t. last_store sample_codec sample_limits [CPut 1 ''k'' sample_response] ''k'' = Some (t, sample_response)
      \<and> 4 < t + TTL sample_limits \<and> storable sample_codec sample_limits ''k'' sample_response"
    by (rule cache_hit_sound [OF valid_sample_limits])
  then show ?thesis by (auto simp: sample_limits_def)
qed

subsection \<open>Loading once\<close>

text \<open>A caller alone with its flight key runs its own body.\<close>

definition solo :: "string \<Rightarrow> ('p, 'e, 'w) flight_body \<Rightarrow> 'p cache \<times> 'w \<Rightarrow> (('p, 'e) flight \<times> 'p cache \<times> 'w) option" where
  "solo k b s = (case b s of None \<Rightarrow> None | Some (l, s') \<Rightarrow> Some (Completed l False, s'))"

lemma lru_get_None: "lru_get now k es = (None, es') \<Longrightarrow> es' = filter (\<lambda>e. e_key e \<noteq> k) es"
proof -
  have "find (\<lambda>e. e_key e = k) es = None \<Longrightarrow> filter (\<lambda>e. e_key e \<noteq> k) es = es"
    by (auto simp: find_None_iff intro: filter_True)
  then show "lru_get now k es = (None, es') \<Longrightarrow> es' = filter (\<lambda>e. e_key e \<noteq> k) es"
    by (auto simp: lru_get_def Let_def split: option.splits if_splits)
qed

lemma find_filtered: "find (\<lambda>e. e_key e = k) (filter (\<lambda>e. e_key e \<noteq> k) es) = None"
  by (simp add: find_None_iff)

lemma get_miss:
  assumes "cache_inv s" "fst (get now k s) = None"
  shows "cache_inv (snd (get now k s)) \<and> cache_config (snd (get now k s)) = cache_config s
    \<and> get now' k (snd (get now k s)) = (None, snd (get now k s))
    \<and> abs_cache (snd (get now k s)) = filter (\<lambda>e. e_key e \<noteq> k) (abs_cache s)"
proof -
  obtain s' where g: "get now k s = (None, s')" using assms(2) by (metis prod.collapse)
  from get_lru [OF assms(1) g] have s': "cache_inv s'" "cache_config s' = cache_config s"
    "abs_cache s' = filter (\<lambda>e. e_key e \<noteq> k) (abs_cache s)"
    using lru_get_None [of now k "abs_cache s" "abs_cache s'"] by auto
  have "entries s' k = None"
  proof (cases "entries s' k")
    case (Some el)
    then obtain e where "(el, e) \<in> set (recent s')" "e_key e = k"
      using entries_element s'(1) unfolding cache_inv_def by blast
    then have "e \<in> set (abs_cache s')" by (force simp: abs_cache_def)
    then show ?thesis using s'(3) \<open>e_key e = k\<close> by simp
  qed simp
  then show ?thesis using g s' by (simp add: get_def)
qed

lemma load_body_miss:
  assumes "cache_inv s" "get (clock w) (Key req) s = (None, s0)" "Load_of req (s0, w) = Some ((r, e, c), s1, w1)"
  shows "load_body cd clock zero req (s0, w) =
    (case (e, c) of
       (Some e, _) \<Rightarrow> Some ((\<lparr>Response = r, Status = ''miss''\<rparr>, Some (LoadFailed e)), s1, w1)
     | (None, Some c) \<Rightarrow> Some ((\<lparr>Response = zero, Status = ''miss''\<rparr>, Some (CompleteCtx c)), s1, w1)
     | (None, None) \<Rightarrow>
         (case put cd (clock w1) (Key req) r s1 of
            None \<Rightarrow> None
          | Some s2 \<Rightarrow> Some ((\<lparr>Response = r, Status = ''miss''\<rparr>, None), s2, w1)))"
  using get_miss [OF assms(1), of "clock w" "Key req" "clock w"] assms(2,3)
  by (cases e; cases c) (simp_all add: load_body_def)

text \<open>
  A missed response is loaded once: the caller that misses runs its load and gets its
  response, and every later caller of the key within the time to live gets the same response
  without any load, whatever its own load and flight are, when the response is worth retaining.
  A load that fails, or ends after its context, stores nothing: the entries are those the load left.
\<close>

theorem load_once:
  assumes "cache_inv s" "valid_cache (cache_config s)" "\<not> Disabled (cache_config s)"
    and miss: "fst (get (clock w) (Key req) s) = None"
    and load: "Load_of req (snd (get (clock w) (Key req) s), w) = Some ((r, e, c), s', w1)"
    and s': "cache_inv s'" "cache_config s' = cache_config s"
  shows "(e = None \<and> c = None \<and> storable cd (cache_config s) (Key req) r \<longrightarrow>
      (\<exists>s1. GetOrLoad cd clock zero solo None req (s, w) = Some ((\<lparr>Response = r, Status = ''miss''\<rparr>, None), s1, w1)
        \<and> (\<forall>req2 flight2 w2. Key req2 = Key req \<and> clock w2 < clock w1 + TTL (cache_config s) \<longrightarrow>
            (\<exists>s2. GetOrLoad cd clock zero flight2 None req2 (s1, w2) =
               Some ((\<lparr>Response = r, Status = ''hit''\<rparr>, None :: 'e cache_error option), s2, w2)))))
    \<and> (e \<noteq> None \<or> c \<noteq> None \<longrightarrow>
      (\<exists>l x. GetOrLoad cd clock zero solo None req (s, w) = Some ((l, Some (x :: 'e cache_error)), s', w1)))"
proof -
  obtain s0 where get: "get (clock w) (Key req) s = (None, s0)" using miss by (metis prod.collapse)
  have load0: "Load_of req (s0, w) = Some ((r, e, c), s', w1)" using load get by simp
  note body = load_body_miss [where s = s and clock = clock and w = w and req = req and cd = cd and zero = zero,
      OF assms(1) get load0]
  have en: "Enabled s" using assms(2,3) by (simp add: Enabled_def valid_cache_def)
  have go: "GetOrLoad cd clock zero solo None req (s, w) =
      (case load_body cd clock zero req (s0, w) of None \<Rightarrow> None | Some ((l, e), s2, w2) \<Rightarrow> Some ((l, e), s2, w2))"
    using en by (cases "load_body cd clock zero req (s0, w)") (auto simp: GetOrLoad_def get solo_def Let_def)
  have hit: "\<exists>s2. GetOrLoad cd clock zero flight2 None req2 (s1, w2) =
               Some ((\<lparr>Response = r, Status = ''hit''\<rparr>, None :: 'e cache_error option), s2, w2)"
    if s1: "cache_inv s1" "cache_config s1 = cache_config s"
      "abs_cache s1 = lru_put cd (cache_config s) (clock w1) (Key req) r (abs_cache s')"
      and st: "storable cd (cache_config s) (Key req) r"
      and k: "Key req2 = Key req" "clock w2 < clock w1 + TTL (cache_config s)"
    for s1 w2 flight2 and req2 :: "('a, 'e, 'b) cache_request"
  proof -
    obtain x s2 where g: "get (clock w2) (Key req2) s1 = (x, s2)" by (cases "get (clock w2) (Key req2) s1")
    have "x = Some r"
      using get_lru [OF s1(1) g] s1(3) st k by (simp add: lru_put_def lru_get_def Let_def)
    moreover have "Enabled s1" using en s1(2) by (simp add: Enabled_def)
    ultimately show ?thesis using g by (simp add: GetOrLoad_def)
  qed
  show ?thesis
  proof (intro conjI impI)
    assume l: "e = None \<and> c = None \<and> storable cd (cache_config s) (Key req) r"
    obtain s1 where s1: "put cd (clock w1) (Key req) r s' = Some s1" "cache_inv s1"
      "cache_config s1 = cache_config s"
      "abs_cache s1 = lru_put cd (cache_config s) (clock w1) (Key req) r (abs_cache s')"
      using put_lru [of s' cd "clock w1" "Key req" r] s' assms(2) by auto
    have "GetOrLoad cd clock zero solo None req (s, w) = Some ((\<lparr>Response = r, Status = ''miss''\<rparr>, None), s1, w1)"
      using l s1(1) body by (simp add: go)
    then show "\<exists>s1. GetOrLoad cd clock zero solo None req (s, w) = Some ((\<lparr>Response = r, Status = ''miss''\<rparr>, None), s1, w1)
        \<and> (\<forall>req2 flight2 w2. Key req2 = Key req \<and> clock w2 < clock w1 + TTL (cache_config s) \<longrightarrow>
            (\<exists>s2. GetOrLoad cd clock zero flight2 None req2 (s1, w2) =
               Some ((\<lparr>Response = r, Status = ''hit''\<rparr>, None :: 'e cache_error option), s2, w2)))"
      using hit [OF s1(2-4)] l by blast
  next
    assume "e \<noteq> None \<or> c \<noteq> None"
    then show "\<exists>l x. GetOrLoad cd clock zero solo None req (s, w) = Some ((l, Some (x :: 'e cache_error)), s', w1)"
      using body by (cases e; cases c) (auto simp: go)
  qed
qed

theorem load_once_witness:
  "\<exists>s1. GetOrLoad sample_codec (\<lambda>t. t) sample_response solo None
      \<lparr>Key = ''k'', FlightKey = [], Load_of = (\<lambda>(s, w :: int). Some ((sample_response, None :: string option, None), s, w + 1))\<rparr>
      (new_cache sample_limits, 1) =
      Some ((\<lparr>Response = sample_response, Status = ''miss''\<rparr>, None), s1, 2)
    \<and> (\<exists>s2. GetOrLoad sample_codec (\<lambda>t. t) sample_response solo None
        \<lparr>Key = ''k'', FlightKey = [], Load_of = (\<lambda>(s, w). Some ((sample_response, Some ''e'', None), s, w + 1))\<rparr> (s1, 6) =
      Some ((\<lparr>Response = sample_response, Status = ''hit''\<rparr>, None), s2, 6))"
proof -
  let ?req = "\<lparr>Key = ''k'', FlightKey = [], Load_of = (\<lambda>(s, w :: int). Some ((sample_response, None :: string option, None), s, w + 1))\<rparr>"
  let ?s = "new_cache sample_limits :: string cache"
  have cfg: "cache_config ?s = sample_limits" by (simp add: new_cache_def)
  have 1: "cache_inv ?s" "valid_cache (cache_config ?s)" "\<not> Disabled (cache_config ?s)"
    "fst (get 1 (Key ?req) ?s) = None"
    using configured_new [OF valid_sample_limits] valid_sample_limits
    by (auto simp: configured_def new_cache_def sample_limits_def get_def)
  have 2: "Load_of ?req (snd (get 1 (Key ?req) ?s), 1) = Some ((sample_response, None, None), ?s, 2)"
    "cache_inv ?s" "cache_config ?s = cache_config ?s"
    using 1(1) by (simp_all add: get_def new_cache_def)
  have 4: "(None :: string option) = None \<and> (None :: string option) = None \<and>
      storable sample_codec (cache_config ?s) (Key ?req) sample_response"
    by (simp add: storable_def response_size_def sample_codec_def sample_limits_def sample_response_def new_cache_def)
  have 3: "Key \<lparr>Key = ''k'', FlightKey = [], Load_of = (\<lambda>(s, w :: int). Some ((sample_response, Some ''e'', None :: string option), s, w + 1))\<rparr>
      = Key ?req \<and> (6 :: int) < 2 + TTL (cache_config ?s)"
    unfolding cfg by (simp add: sample_limits_def)
  show ?thesis
    using mp [OF conjunct1 [OF load_once [where clock = "\<lambda>t. t" and zero = sample_response, OF 1 2]] 4] 3 by blast
qed

end
