(* ===== verification/Receipts.thy ===== *)
theory Receipts
  imports Request_Cache Runtime Head_Json
begin

text \<open>
  Receipt inclusion, \<^verbatim>\<open>internal/services/receipts\<close>: a receipt's block belongs to the accepted branch when
  parent links lead from the accepted head to it within the configured depth. The walk is written
  for any reader of parents; the service's own reader fetches a header by hash, through the shared
  response cache when there is one, where the header is kept as JSON. The texts of times are the
  arguments \<open>show_time\<close> and \<open>read_time\<close>, the \<^verbatim>\<open>%q\<close> of a string is \<open>quote\<close>.
\<close>

subsection \<open>The walk\<close>

datatype 'e contains_error =
    CtxEnded string
  | BadHashes
  | AncestorFailed 'e
  | DiscontinuousParent

function contains_walk :: "('s \<Rightarrow> string option) \<Rightarrow> (head \<Rightarrow> 's \<Rightarrow> (('e + head) \<times> 's) option) \<Rightarrow> head \<Rightarrow> head \<Rightarrow> 's \<Rightarrow>
    (('e contains_error + bool) \<times> 's) option" where
  "contains_walk ctx_err getParent block cursor s =
     (if Number cursor \<le> Number block then Some (Inr (EqualFold (Hash cursor) (Hash block)), s)
      else
        (case ctx_err s of
           Some e \<Rightarrow> Some (Inl (CtxEnded e), s)
         | None \<Rightarrow>
             if Number cursor - 1 = Number block
             then Some (Inr (EqualFold (ParentHash cursor) (Hash block)), s)
             else
               (case getParent cursor s of
                  None \<Rightarrow> None
                | Some (Inl e, s1) \<Rightarrow> Some (Inl (AncestorFailed e), s1)
                | Some (Inr parent, s1) \<Rightarrow>
                    if Number parent \<noteq> Number cursor - 1 \<or> \<not> EqualFold (Hash parent) (ParentHash cursor)
                    then Some (Inl DiscontinuousParent, s1)
                    else contains_walk ctx_err getParent block parent s1)))"
  by pat_completeness auto
termination
proof (relation "measure (\<lambda>(_, _, _, cursor, _). unat (Number cursor))")
  fix ctx_err :: "'s \<Rightarrow> string option" and getParent :: "head \<Rightarrow> 's \<Rightarrow> (('e + head) \<times> 's) option"
    and block cursor parent :: head and s s1 :: 's
  assume "\<not> Number cursor \<le> Number block" "\<not> (Number parent \<noteq> Number cursor - 1 \<or> \<not> EqualFold (Hash parent) (ParentHash cursor))"
  then show "((ctx_err, getParent, block, parent, s1), ctx_err, getParent, block, cursor, s)
      \<in> measure (\<lambda>(_, _, _, cursor, _). unat (Number cursor))"
    using u64_pred(1) [of "Number block" "Number cursor"] by simp
qed simp_all

declare contains_walk.simps [simp del]

definition ContainsBlock :: "('s \<Rightarrow> string option) \<Rightarrow> (head \<Rightarrow> 's \<Rightarrow> (('e + head) \<times> 's) option) \<Rightarrow> int \<Rightarrow> head \<Rightarrow> head \<Rightarrow> 's \<Rightarrow>
    (('e contains_error + bool) \<times> 's) option" where
  "ContainsBlock ctx_err getParent maxDepth block accepted s =
     (case ctx_err s of
        Some e \<Rightarrow> Some (Inl (CtxEnded e), s)
      | None \<Rightarrow>
          if \<not> IsEVMHash (Hash block) \<or> \<not> IsEVMHash (Hash accepted) then Some (Inl BadHashes, s)
          else if ReorgPending accepted \<or> Number block > Number accepted
            \<or> Number accepted - Number block > word_of_int maxDepth
          then Some (Inr False, s)
          else contains_walk ctx_err getParent block accepted s)"

subsection \<open>The reader of parents\<close>

datatype parent_error =
    FetchParent fetch_error
  | LoadParent "fetch_error cache_error"
  | DecodeParent

definition fetch_parent :: "'w node_env \<Rightarrow> head \<Rightarrow> runtime \<times> 'w \<Rightarrow> (fetch_error + head) \<times> runtime \<times> 'w" where
  "fetch_parent env child = (\<lambda>(r, w).
     case EVMBlockByHash env r (ParentHash child) ''explicit'' (Origin child) w of (x, w1) \<Rightarrow> (x, r, w1))"

definition parent_load :: "'w node_env \<Rightarrow> ('w \<Rightarrow> string option) \<Rightarrow> (time \<Rightarrow> string) \<Rightarrow> head \<Rightarrow> raw cache \<times> runtime \<times> 'w \<Rightarrow>
    ((raw cached \<times> fetch_error option \<times> string option) \<times> raw cache \<times> runtime \<times> 'w) option" where
  "parent_load env load_ctx show_time child = (\<lambda>(c, s).
     case fetch_parent env child s of
       (Inl e, s1) \<Rightarrow> Some ((\<lparr>Payload = None, Upstream = [], SkipCache = False\<rparr>, Some e, load_ctx (snd s1)), c, s1)
     | (Inr parent, s1) \<Rightarrow>
         Some ((\<lparr>Payload = Some (marshal_head show_time parent), Upstream = Origin parent, SkipCache = False\<rparr>,
                None, load_ctx (snd s1)), c, s1))"

definition parent_request :: "'w node_env \<Rightarrow> ('w \<Rightarrow> string option) \<Rightarrow> (time \<Rightarrow> string) \<Rightarrow> (string \<Rightarrow> string) \<Rightarrow> head \<Rightarrow>
    (raw, fetch_error, runtime \<times> 'w) cache_request" where
  "parent_request env load_ctx show_time quote child =
     \<lparr>Key = ''receipt-header:'' @ quote (Chain child) @ '':'' @ ParentHash child, FlightKey = [],
      Load_of = parent_load env load_ctx show_time child\<rparr>"

text \<open>With no cache the state of the cache is \<open>None\<close> and stays so.\<close>

type_synonym 'w gateway_state = "raw cache option \<times> runtime \<times> 'w"

definition zero_cached :: "raw cached" where
  "zero_cached = \<lparr>Payload = None, Upstream = [], SkipCache = False\<rparr>"

definition getParent :: "'w node_env \<Rightarrow> raw codec \<Rightarrow>
    (string \<Rightarrow> (raw, fetch_error, runtime \<times> 'w) flight_body \<Rightarrow> raw cache \<times> runtime \<times> 'w \<Rightarrow>
       ((raw, fetch_error) flight \<times> raw cache \<times> runtime \<times> 'w) option) \<Rightarrow>
    ('w \<Rightarrow> string option) \<Rightarrow> ('w \<Rightarrow> string option) \<Rightarrow> (time \<Rightarrow> string) \<Rightarrow> (string \<Rightarrow> time option) \<Rightarrow> (string \<Rightarrow> string) \<Rightarrow>
    head \<Rightarrow> 'w gateway_state \<Rightarrow> ((parent_error + head) \<times> 'w gateway_state) option" where
  "getParent env cd do_chan ctx_err load_ctx show_time read_time quote child = (\<lambda>(co, s).
     case co of
       None \<Rightarrow>
         (case fetch_parent env child s of
            (Inl e, s1) \<Rightarrow> Some (Inl (FetchParent e), None, s1)
          | (Inr parent, s1) \<Rightarrow> Some (Inr parent, None, s1))
     | Some c \<Rightarrow>
         (case GetOrLoad cd (\<lambda>s. now_of env (snd s)) zero_cached do_chan (ctx_err (snd s))
                 (parent_request env load_ctx show_time quote child) (c, s) of
            None \<Rightarrow> None
          | Some ((l, Some e), c1, s1) \<Rightarrow> Some (Inl (LoadParent e), Some c1, s1)
          | Some ((l, None), c1, s1) \<Rightarrow>
              (case Option.bind (Payload (Response l)) (unmarshal_head read_time) of
                 None \<Rightarrow> Some (Inl DecodeParent, Some c1, s1)
               | Some parent \<Rightarrow> Some (Inr parent, Some c1, s1))))"

subsection \<open>Inclusion\<close>

lemma contains_walk_linked:
  "contains_walk ctx gp block cursor s = Some (Inr b, s') \<Longrightarrow> Number block \<le> Number cursor \<Longrightarrow>
     \<exists>hs. linked (cursor # hs) \<and> (\<forall>h \<in> set hs. \<exists>c s1 s2. gp c s1 = Some (Inr h, s2)) \<and>
       (if Number cursor = Number block then hs = [] \<and> b = EqualFold (Hash cursor) (Hash block)
        else Number (last (cursor # hs)) = Number block + 1 \<and> length hs + 1 = unat (Number cursor - Number block)
          \<and> b = EqualFold (ParentHash (last (cursor # hs))) (Hash block))"
proof (induction ctx gp block cursor s rule: contains_walk.induct)
  case (1 ctx gp block cursor s)
  show ?case
  proof (cases "Number cursor \<le> Number block")
    case True
    then have "Number cursor = Number block" using 1(3) by simp
    then show ?thesis using 1(2) by (intro exI [of _ "[]"]) (simp add: contains_walk.simps [of ctx gp block cursor s])
  next
    case False
    then have less: "Number block < Number cursor" by simp
    have ctx: "ctx s = None"
      using 1(2) False by (cases "ctx s") (auto simp: contains_walk.simps [of ctx gp block cursor s])
    show ?thesis
    proof (cases "Number cursor - 1 = Number block")
      case True
      have "Number cursor = Number block + 1" "unat (Number cursor - Number block) = 1"
        using True by (auto simp flip: True)
      then show ?thesis using 1(2) False ctx True less
        by (intro exI [of _ "[]"]) (auto simp: contains_walk.simps [of ctx gp block cursor s])
    next
      case far: False
      obtain parent s1 where p: "gp cursor s = Some (Inr parent, s1)" "Number parent = Number cursor - 1"
        "EqualFold (Hash parent) (ParentHash cursor)" "contains_walk ctx gp block parent s1 = Some (Inr b, s')"
        using 1(2) False ctx far
        by (auto simp: contains_walk.simps [of ctx gp block cursor s] split: option.splits sum.splits if_splits)
      note u = u64_pred [OF less]
      have le: "Number block \<le> Number parent" "Number parent \<noteq> Number block" using u p(2) far by simp_all
      from 1(1) [OF False ctx far p(1) refl refl _ p(4) le(1)] p(2,3) le(2) obtain hs where
        hs: "linked (parent # hs)" "\<forall>h \<in> set hs. \<exists>c s1 s2. gp c s1 = Some (Inr h, s2)"
        "Number (last (parent # hs)) = Number block + 1" "length hs + 1 = unat (Number parent - Number block)"
        "b = EqualFold (ParentHash (last (parent # hs))) (Hash block)" by auto
      have "linked (cursor # parent # hs)" using hs(1) p(2,3) by simp
      moreover have "length (parent # hs) + 1 = unat (Number cursor - Number block)"
        using hs(4) u p(2) by simp
      ultimately show ?thesis using hs p(1) less
        by (intro exI [of _ "parent # hs"]) auto
    qed
  qed
qed

text \<open>
  Property C11. Receipt inclusion is decided by parent links: a block above the accepted head, farther
  below it than the depth, or asked for while a reorg is pending is not included; any other is
  included exactly when it is the accepted head, or when the link of the header above it, reached
  from the accepted head by headers that the reader of parents returned with hash and number as
  linked, carries its hash.
\<close>

theorem receipt_inclusion:
  assumes "ContainsBlock ctx gp maxDepth block accepted s = Some (Inr b, s')" "0 \<le> maxDepth"
  shows "if ReorgPending accepted \<or> Number block > Number accepted
      \<or> Number accepted - Number block > word_of_int maxDepth then \<not> b
    else int (unat (Number accepted - Number block)) \<le> maxDepth \<and>
      (\<exists>hs. linked (accepted # hs) \<and> (\<forall>h \<in> set hs. \<exists>c s1 s2. gp c s1 = Some (Inr h, s2)) \<and>
        (if Number accepted = Number block then hs = [] \<and> (b \<longleftrightarrow> same_block accepted block)
         else length hs + 1 = unat (Number accepted - Number block) \<and> (b \<longleftrightarrow> is_parent block (last (accepted # hs)))))"
proof (cases "ReorgPending accepted \<or> Number block > Number accepted
      \<or> Number accepted - Number block > word_of_int maxDepth")
  case True
  then show ?thesis using assms(1) by (auto simp: ContainsBlock_def split: option.splits if_splits)
next
  case False
  then have walk: "contains_walk ctx gp block accepted s = Some (Inr b, s')"
    using assms(1) by (auto simp: ContainsBlock_def split: option.splits if_splits)
  have "unat (Number accepted - Number block) \<le> unat (word_of_int maxDepth :: u64)"
    using False by (simp add: word_le_nat_alt not_less)
  also have "int \<dots> \<le> maxDepth" using assms(2) by (simp add: uint_word_of_int_eq take_bit_int_less_eq_self_iff)
  finally have depth: "int (unat (Number accepted - Number block)) \<le> maxDepth" by simp
  have "Number block \<le> Number accepted" using False by (simp add: not_less)
  from contains_walk_linked [OF walk this] obtain hs where
    hs: "linked (accepted # hs)" "\<forall>h \<in> set hs. \<exists>c s1 s2. gp c s1 = Some (Inr h, s2)"
    "if Number accepted = Number block then hs = [] \<and> b = EqualFold (Hash accepted) (Hash block)
        else Number (last (accepted # hs)) = Number block + 1 \<and> length hs + 1 = unat (Number accepted - Number block)
          \<and> b = EqualFold (ParentHash (last (accepted # hs))) (Hash block)" by blast
  show ?thesis
    unfolding if_not_P [OF False]
  proof (intro conjI exI [of _ hs] depth hs(1,2))
    show "if Number accepted = Number block then hs = [] \<and> (b \<longleftrightarrow> same_block accepted block)
         else length hs + 1 = unat (Number accepted - Number block) \<and> (b \<longleftrightarrow> is_parent block (last (accepted # hs)))"
    proof (cases "Number accepted = Number block")
      case True
      have h: "hs = []" "b = EqualFold (Hash accepted) (Hash block)" using hs(3) unfolding if_P [OF True] by blast+
      have "b \<longleftrightarrow> same_block accepted block" unfolding same_block_def h(2) using True by blast
      then show ?thesis unfolding if_P [OF True] using h(1) by blast
    next
      case False
      let ?l = "last (accepted # hs)"
      have l: "Number ?l = Number block + 1" "length hs + 1 = unat (Number accepted - Number block)"
        "b = EqualFold (ParentHash ?l) (Hash block)" using hs(3) unfolding if_not_P [OF False] by blast+
      have "is_parent block ?l \<longleftrightarrow> EqualFold (Hash block) (ParentHash ?l)"
        unfolding is_parent_def using l(1) by blast
      also have "\<dots> \<longleftrightarrow> b" unfolding l(3) by (rule EqualFold_sym)
      finally show ?thesis unfolding if_not_P [OF False] using l(2) by blast
    qed
  qed
qed

theorem receipt_inclusion_witness:
  "\<exists>accepted b. Get sample_snapshot Latest = Some accepted \<and>
     ContainsBlock (\<lambda>_ :: nat. None) (\<lambda>_ _. None :: ((fetch_error + head) \<times> nat) option) 64
       (zero_head\<lparr>Number := 8, Hash := sample_hash CHR ''b''\<rparr>) accepted 0 = Some (Inr b, 0) \<and>
     (b \<longleftrightarrow> is_parent (zero_head\<lparr>Number := 8, Hash := sample_hash CHR ''b''\<rparr>) accepted)"
proof -
  let ?block = "zero_head\<lparr>Number := 8, Hash := sample_hash CHR ''b''\<rparr>"
  let ?gp = "\<lambda>(_ :: head) (_ :: nat). None :: ((fetch_error + head) \<times> nat) option"
  obtain acc where acc: "Get sample_snapshot Latest = Some acc" "Number acc = 9" "IsEVMHash (Hash acc)" "\<not> ReorgPending acc"
    by (simp add: sample_snapshot_def Get_def is_hex_sample)
  have "IsEVMHash (Hash ?block)" by (simp add: is_hex_sample)
  then have run: "ContainsBlock (\<lambda>_. None) ?gp 64 ?block acc 0 = Some (Inr (EqualFold (ParentHash acc) (Hash ?block)), 0)"
    using acc by (simp add: ContainsBlock_def contains_walk.simps)
  from receipt_inclusion [OF run] acc have
    "EqualFold (ParentHash acc) (Hash ?block) \<longleftrightarrow> is_parent ?block acc" by auto
  then show ?thesis using run acc(1) by blast
qed

end
