(* ===== verification/Gateway_Response.thy ===== *)
theory Gateway_Response
  imports Route Receipts
begin

text \<open>
  One request of a batch, \<^verbatim>\<open>internal/gateway/cache.go\<close> and \<^verbatim>\<open>process\<close> of \<^verbatim>\<open>router.go\<close>: validation, rewriting,
  the guards on a pending reorg and on a stale head, local answers, and the read through the
  response cache or straight from the route. The record \<open>gateway\<close> collects what the gateway is given:
  the chain's environment, the two \<^verbatim>\<open>singleflight\<close> groups, the configuration's clients, and the
  functions of packages outside the program (the text of a \<^verbatim>\<open>%q\<close> or \<^verbatim>\<open>%x\<close>, times in JSON). The ends of
  contexts are functions of the world. \<open>None\<close> is a call that panics or does not return; telemetry and
  logging are left out.
\<close>

datatype load_error = LoadRPC rpc_error | LoadReceipt receipt_error

type_synonym ('e, 'w) response_flight =
  "string \<Rightarrow> (raw, 'e, runtime \<times> 'w) flight_body \<Rightarrow> raw cache \<times> runtime \<times> 'w \<Rightarrow>
     ((raw, 'e) flight \<times> raw cache \<times> runtime \<times> 'w) option"

record 'w gateway =
  g_env :: "'w node_env"
  g_probes :: "'w probe_group"
  g_loads :: "(load_error, 'w) response_flight"
  g_parentLoads :: "(fetch_error, 'w) response_flight"
  g_codec :: "raw codec"
  g_receipts :: "string \<Rightarrow> int option"
  g_wait :: "'w \<Rightarrow> bool \<times> 'w"
  g_ctx :: "'w \<Rightarrow> string option"
  g_loadCtx :: "'w \<Rightarrow> string option"
  g_verifyCtx :: "'w \<Rightarrow> string option"
  g_snapshot :: "string \<Rightarrow> 'w \<Rightarrow> (store_error + snapshot) \<times> 'w"
  g_number :: "string \<Rightarrow> string"
  g_quote :: "string \<Rightarrow> string"
  g_digest :: "raw \<Rightarrow> string"
  g_showTime :: "time \<Rightarrow> string"
  g_readTime :: "string \<Rightarrow> time option"

subsection \<open>Loading a response\<close>

definition zero_response :: "raw cached" where
  "zero_response = \<lparr>Payload = None, Upstream = [], SkipCache = False\<rparr>"

text \<open>The check of a receipt before it may be kept: whether it must be skipped by the cache.\<close>

definition unverified_receipt :: "'w gateway \<Rightarrow> head \<Rightarrow> head \<Rightarrow> 'w gateway_state \<Rightarrow> (bool \<times> 'w gateway_state) option" where
  "unverified_receipt g block accepted gs =
     (let cfg = rt_Config (fst (snd gs));
          depth = (case g_receipts g (cc_Name cfg) of None \<Rightarrow> 0 | Some d \<Rightarrow> d) in
      case ContainsBlock (\<lambda>gs. g_verifyCtx g (snd (snd gs)))
             (getParent (g_env g) (g_codec g) (g_parentLoads g) (g_verifyCtx g) (g_loadCtx g)
               (g_showTime g) (g_readTime g) (g_quote g))
             depth block accepted gs of
        None \<Rightarrow> None
      | Some (Inl _, gs1) \<Rightarrow> Some (True, gs1)
      | Some (Inr verified, gs1) \<Rightarrow> Some (\<not> verified, gs1))"

definition load_response :: "'w gateway \<Rightarrow> bool \<Rightarrow> preparedRequest \<Rightarrow> head \<Rightarrow> 'w gateway_state \<Rightarrow>
    ((raw cached \<times> load_error option) \<times> 'w gateway_state) option" where
  "load_response g cacheable p accepted = (\<lambda>(co, s).
     case route (g_number g) (g_env g) (g_probes g) (g_wait g) p s of
       None \<Rightarrow> None
     | Some ((payload, upstreamID, rpcErr), s1) \<Rightarrow>
         let response = \<lparr>Payload = payload, Upstream = upstreamID, SkipCache = receiptHash p \<noteq> []\<rparr> in
         (case rpcErr of
            Some e \<Rightarrow> Some ((response, Some (LoadRPC e)), co, s1)
          | None \<Rightarrow>
              if cacheable \<and> receiptHash p \<noteq> [] \<and> payload \<noteq> Some JNull
              then
                (case getEVMReceiptBlock payload (receiptHash p) of
                   Inl e \<Rightarrow> Some ((response, Some (LoadReceipt e)), co, s1)
                 | Inr block \<Rightarrow>
                     (case unverified_receipt g block accepted (co, s1) of
                        None \<Rightarrow> None
                      | Some (skip, gs2) \<Rightarrow> Some ((response\<lparr>SkipCache := skip\<rparr>, None), gs2)))
              else Some ((response, None), co, s1)))"

text \<open>The load as the cache calls it, with the cache in the state.\<close>

definition cached_load :: "'w gateway \<Rightarrow> preparedRequest \<Rightarrow> head \<Rightarrow> raw cache \<times> runtime \<times> 'w \<Rightarrow>
    ((raw cached \<times> load_error option \<times> string option) \<times> raw cache \<times> runtime \<times> 'w) option" where
  "cached_load g p accepted = (\<lambda>(c, s).
     case load_response g True p accepted (Some c, s) of
       None \<Rightarrow> None
     | Some ((response, e), co, s1) \<Rightarrow>
         Some ((response, e, g_loadCtx g (snd s1)), case co of None \<Rightarrow> c | Some c1 \<Rightarrow> c1, s1))"

subsection \<open>What may be cached, and under which key\<close>

definition isCacheable :: "'w gateway \<Rightarrow> time \<Rightarrow> ChainConfig \<Rightarrow> snapshot \<Rightarrow> preparedRequest \<Rightarrow> bool" where
  "isCacheable g now cfg snap p \<longleftrightarrow>
     (if cc_Family cfg \<noteq> ''evm'' then False
      else if receiptHash p \<noteq> []
      then
        (case Get snap Latest of
           None \<Rightarrow> False
         | Some accepted \<Rightarrow> g_receipts g (cc_Name cfg) \<noteq> None \<and> \<not> IsZero accepted \<and> \<not> ReorgPending accepted
             \<and> \<not> IsZeroTime (ObservedAt accepted) \<and> time_sub now (ObservedAt accepted) \<le> MaxHeadAge cfg)
      else if p_target p = None \<or> Hash (target_of p) = [] \<or> verifyBoundaries p \<noteq> [] then False
      else if getEVMStateBlockIndex (p_method p) \<noteq> None then requireEIP1898 p
      else isEVMExplicitHashMethod (p_method p) \<or> p_method p = ''eth_getLogs'')"

definition cache_key :: "'w gateway \<Rightarrow> string \<Rightarrow> head \<Rightarrow> preparedRequest \<Rightarrow> string" where
  "cache_key g chainName accepted p =
     g_quote g chainName @ '':'' @ show_u64 (ReorgEpoch accepted) @ '':'' @ g_quote g (p_method p) @ '':'' @
     (if p_target p \<noteq> None \<and> receiptHash p = [] then Hash (target_of p) else []) @ '':'' @ g_digest g (p_parameters p)"

definition response_request :: "'w gateway \<Rightarrow> string \<Rightarrow> head \<Rightarrow> preparedRequest \<Rightarrow> (raw, load_error, runtime \<times> 'w) cache_request" where
  "response_request g chainName accepted p =
     (let key = cache_key g chainName accepted p in
      \<lparr>Key = key, FlightKey = (if receiptHash p \<noteq> [] then key @ '':'' @ Hash accepted else key),
       Load_of = cached_load g p accepted\<rparr>)"

subsection \<open>Reading a response\<close>

definition deadline_error :: "string \<Rightarrow> rpc_error" where
  "deadline_error chainName = ConsistencyUnavailable (JObj [(''chain'', JStr chainName),
     (''reason'', JStr ''response unavailable before deadline''), (''retryable'', JBool True)])"

definition cache_failure :: "string \<Rightarrow> rpc_error" where
  "cache_failure chainName = InternalError ''read response cache''"

text \<open>The errors of a context are cancellation and deadline only.\<close>

fun load_failure :: "string \<Rightarrow> load_error \<Rightarrow> rpc_error" where
  "load_failure chainName (LoadRPC e) = e"
| "load_failure chainName (LoadReceipt _) = cache_failure chainName"

fun read_failure :: "string \<Rightarrow> load_error cache_error \<Rightarrow> rpc_error" where
  "read_failure chainName (Direct e) = load_failure chainName e"
| "read_failure chainName (LoadFailed e) = load_failure chainName e"
| "read_failure chainName (ReadCtx _) = deadline_error chainName"
| "read_failure chainName (CompleteCtx _) = deadline_error chainName"
| "read_failure chainName (WaitCtx _) = deadline_error chainName"

text \<open>The caller's ceiling on a receipt that the cache or another caller supplied.\<close>

definition cap_receipt :: "string \<Rightarrow> preparedRequest \<Rightarrow> head \<Rightarrow> raw lookup \<Rightarrow> raw lookup \<times> rpc_error option" where
  "cap_receipt chainName p accepted l =
     (if receiptHash p \<noteq> [] \<and> Payload (Response l) \<noteq> Some JNull
      then
        (case getEVMReceiptBlock (Payload (Response l)) (receiptHash p) of
           Inl _ \<Rightarrow> (l, Some (cache_failure chainName))
         | Inr block \<Rightarrow>
             if Number block > Number accepted
             then (l\<lparr>Response := (Response l)\<lparr>Payload := Some JNull\<rparr>\<rparr>, None)
             else (l, None))
      else (l, None))"

definition usable_cache :: "'w gateway \<Rightarrow> snapshot \<Rightarrow> preparedRequest \<Rightarrow> 'w gateway_state \<Rightarrow> raw cache option" where
  "usable_cache g snap p = (\<lambda>(co, r, w).
     case co of
       None \<Rightarrow> None
     | Some c \<Rightarrow> if Enabled c \<and> isCacheable g (now_of (g_env g) w) (rt_Config r) snap p then Some c else None)"

definition getResponse :: "'w gateway \<Rightarrow> snapshot \<Rightarrow> preparedRequest \<Rightarrow> 'w gateway_state \<Rightarrow>
    ((raw lookup \<times> rpc_error option) \<times> 'w gateway_state) option" where
  "getResponse g snap p = (\<lambda>(co, r, w).
     let chainName = cc_Name (rt_Config r); accepted = or_zero (Get snap Latest) in
     case usable_cache g snap p (co, r, w) of
       Some c \<Rightarrow>
         (case GetOrLoad (g_codec g) (\<lambda>s. now_of (g_env g) (snd s)) zero_response (g_loads g) (g_ctx g w)
                 (response_request g chainName accepted p) (c, r, w) of
            None \<Rightarrow> None
          | Some ((l, Some e), c1, s1) \<Rightarrow> Some ((l, Some (read_failure chainName e)), Some c1, s1)
          | Some ((l, None), c1, s1) \<Rightarrow> Some (cap_receipt chainName p accepted l, Some c1, s1))
     | None \<Rightarrow>
         (case load_response g False p accepted (co, r, w) of
            None \<Rightarrow> None
          | Some ((response, e), gs1) \<Rightarrow>
              Some ((\<lparr>Response = response, Status = ''bypass''\<rparr>, map_option (load_failure chainName) e), gs1)))"

subsection \<open>One request\<close>

record processedResponse =
  pr_response :: response
  pr_upstream :: string
  pr_target :: "head option"
  pr_cacheStatus :: string
  receiptLookup :: bool
  boundaryChecked :: bool
  unverifiedRead :: bool

definition plain_response :: "response \<Rightarrow> processedResponse" where
  "plain_response resp = \<lparr>pr_response = resp, pr_upstream = [], pr_target = None, pr_cacheStatus = [],
     receiptLookup = False, boundaryChecked = False, unverifiedRead = False\<rparr>"

definition pending_head :: "snapshot \<Rightarrow> bool" where
  "pending_head snap = (case Get snap Latest of None \<Rightarrow> True | Some accepted \<Rightarrow> IsZero accepted \<or> ReorgPending accepted)"

definition stale_target :: "time \<Rightarrow> ChainConfig \<Rightarrow> preparedRequest \<Rightarrow> bool" where
  "stale_target now cfg p =
     (case p_target p of
        None \<Rightarrow> False
      | Some t \<Rightarrow> Commitment t \<noteq> ''explicit'' \<and> MaxHeadAge cfg > 0
          \<and> (IsZeroTime (ObservedAt t) \<or> time_sub now (ObservedAt t) > MaxHeadAge cfg))"

definition pending_error :: "string \<Rightarrow> rpc_error" where
  "pending_error chainName = ConsistencyUnavailable (JObj [(''chain'', JStr chainName),
     (''reason'', JStr ''accepted head unavailable or reorg pending''), (''retryable'', JBool True)])"

definition stale_error :: "string \<Rightarrow> string \<Rightarrow> rpc_error" where
  "stale_error chainName commitment = ConsistencyUnavailable (JObj [(''chain'', JStr chainName),
     (''commitment'', JStr commitment), (''reason'', JStr ''accepted head is stale'')])"

definition process_prepared :: "'w gateway \<Rightarrow> snapshot \<Rightarrow> request \<Rightarrow> preparedRequest \<Rightarrow> 'w gateway_state \<Rightarrow>
    (processedResponse \<times> 'w gateway_state) option" where
  "process_prepared g snap req p gs =
     (let cfg = rt_Config (fst (snd gs)) in
      if cc_Family cfg = ''evm'' \<and> p_target p \<noteq> None \<and> pending_head snap
      then Some (plain_response (Failure (ID req) (pending_error (cc_Name cfg))), gs)
      else if stale_target (now_of (g_env g) (snd (snd gs))) cfg p
      then Some (plain_response (Failure (ID req) (stale_error (cc_Name cfg) (Commitment (target_of p)))), gs)
      else if localResponse p \<noteq> None
      then Some ((plain_response (Success (ID req) (localResponse p)))
        \<lparr>pr_upstream := ''proxy'', pr_target := p_target p,
         pr_cacheStatus := (if p_target p = None then ''static'' else ''local'')\<rparr>, gs)
      else
        (case getResponse g snap p gs of
           None \<Rightarrow> None
         | Some ((l, Some e), gs1) \<Rightarrow>
             Some ((plain_response (Failure (ID req) e))
               \<lparr>pr_upstream := Upstream (Response l), pr_target := p_target p, pr_cacheStatus := Status l\<rparr>, gs1)
         | Some ((l, None), gs1) \<Rightarrow>
             Some (\<lparr>pr_response = Success (ID req) (Payload (Response l)), pr_upstream = Upstream (Response l),
               pr_target = p_target p, pr_cacheStatus = Status l, receiptLookup = receiptHash p \<noteq> [],
               boundaryChecked = verifyBoundaries p \<noteq> [],
               unverifiedRead = cc_Family cfg = ''solana'' \<and> isSolanaUnpinnedRead (Method req)\<rparr>, gs1)))"

definition process :: "'w gateway \<Rightarrow> snapshot \<Rightarrow> request \<Rightarrow> 'w gateway_state \<Rightarrow>
    (processedResponse \<times> 'w gateway_state) option" where
  "process g snap req = (\<lambda>(co, r, w).
     case Validate req of
       Some e \<Rightarrow> Some (plain_response (Failure (ID req) e), co, r, w)
     | None \<Rightarrow>
         (case transformRequest (g_env g) r snap req w of
            (Inl e, w1) \<Rightarrow> Some (plain_response (Failure (ID req) e), co, r, w1)
          | (Inr p, w1) \<Rightarrow> process_prepared g snap req p (co, r, w1)))"

subsection \<open>Facts about one request\<close>

lemma processedResponse_plain [simp]:
  "pr_response (plain_response x) = x" "pr_target (plain_response x) = None" "pr_upstream (plain_response x) = []"
  "pr_cacheStatus (plain_response x) = []" "\<not> receiptLookup (plain_response x)" "\<not> boundaryChecked (plain_response x)"
  "\<not> unverifiedRead (plain_response x)"
  by (simp_all add: plain_response_def)

lemma process_cases:
  assumes "process g snap req (co, r, w) = Some (x, gs')"
  obtains (invalid) e where "Validate req = Some e" "x = plain_response (Failure (ID req) e)"
  | (refused) e w1 where "Validate req = None" "transformRequest (g_env g) r snap req w = (Inl e, w1)"
      "x = plain_response (Failure (ID req) e)"
  | (prepared) p w1 where "Validate req = None" "transformRequest (g_env g) r snap req w = (Inr p, w1)"
      "process_prepared g snap req p (co, r, w1) = Some (x, gs')"
  using assms unfolding process_def by (auto split: option.splits prod.splits sum.splits)

lemma process_prepared_ID:
  "process_prepared g snap req p gs = Some (x, gs') \<Longrightarrow> rID (pr_response x) = idOrNull (ID req)"
  by (auto simp: process_prepared_def Let_def split: if_splits option.splits prod.splits)

lemma process_ID:
  assumes "process g snap req gs = Some (x, gs')"
  shows "rID (pr_response x) = idOrNull (ID req)"
  using assms by (cases gs) (auto elim!: process_cases dest: process_prepared_ID)

text \<open>A read of state or blocks that succeeds was not made while a reorg was pending.\<close>

lemma process_prepared_pending:
  assumes "process_prepared g snap req p (co, r, w) = Some (x, gs')" "cc_Family (rt_Config r) = ''evm''"
    and "pending_head snap" "p_target p \<noteq> None"
  shows "rError (pr_response x) = Some (pending_error (cc_Name (rt_Config r))) \<and> gs' = (co, r, w)"
  using assms by (auto simp: process_prepared_def Let_def split: if_splits)

lemma isEVMHeadNeutral_request:
  assumes "transformRequest env r snap req w = (Inr p, w')" "cc_Family (rt_Config r) = ''evm''" "p_target p = None"
  shows "isEVMHeadNeutralMethod (Method req)"
proof (cases "Method req = ''eth_chainId''")
  case False
  then have run: "transformEVMRequest env r snap req w = (Inr p, w')"
    using assms(1,2) by (auto simp: transformRequest_def isStaticMethod_def Let_def split: if_splits)
  then obtain ps where "ParseParams (Params req) = Inr ps"
    by (auto simp: transformEVMRequest_def split: sum.splits)
  then show ?thesis
    using run assms(3) unfolding transformEVMRequest_def
    by (auto simp: transform_block_number_def split: option.splits if_splits sum.splits
        dest: transform_state_Inr transform_block_Inr transform_fee_history_Inr transform_receipt_Inr
          transform_explicit_Inr transformEVMLogs_target)
qed (simp add: isEVMHeadNeutralMethod_def)

text \<open>
  Property C19. While the accepted head is missing or a reorg is pending, an EVM caller gets no state,
  no block, no log and no receipt, cached or not: only the chain identifier, the network version and
  the client version are answered, and every other request ends in an error.
\<close>

theorem pending_reads_refused:
  assumes "process g snap req (co, r, w) = Some (x, gs')" "cc_Family (rt_Config r) = ''evm''" "pending_head snap"
    and "rError (pr_response x) = None"
  shows "Method req \<in> {''eth_chainId'', ''net_version'', ''web3_clientVersion''} \<and> pr_target x = None"
  using assms(1)
proof (cases rule: process_cases)
  case (prepared p w1)
  have none: "p_target p = None"
    using process_prepared_pending [OF prepared(3) assms(2,3)] assms(4) by (cases "p_target p") auto
  then have "isEVMHeadNeutralMethod (Method req)"
    using isEVMHeadNeutral_request [OF prepared(2) assms(2)] by blast
  moreover have "pr_target x = None"
    using prepared(3) none by (auto simp: process_prepared_def Let_def split: if_splits option.splits prod.splits)
  ultimately show ?thesis by (auto simp: isEVMHeadNeutralMethod_def)
qed (use assms(4) in auto)

definition sample_gateway :: "rpc_response list gateway" where
  "sample_gateway = \<lparr>g_env = sample_env, g_probes = probe_alone, g_loads = solo, g_parentLoads = solo,
     g_codec = \<lparr>p_len = (\<lambda>v. case v of None \<Rightarrow> 0 | Some _ \<Rightarrow> 4), p_null = (\<lambda>v. v = Some JNull), p_valid = (\<lambda>v. v \<noteq> None)\<rparr>,
     g_receipts = (\<lambda>_. Some 64), g_wait = (\<lambda>w. (True, w)), g_ctx = (\<lambda>_. None), g_loadCtx = (\<lambda>_. None),
     g_verifyCtx = (\<lambda>_. None), g_snapshot = (\<lambda>_ w. (Inr sample_snapshot, w)), g_number = id,
     g_quote = (\<lambda>s. s), g_digest = (\<lambda>_. []), g_showTime = sample_show_time, g_readTime = sample_read_time\<rparr>"

theorem pending_reads_refused_witness:
  "\<exists>x gs'. process sample_gateway \<lparr>sChain = ''eth'', sHeads = (\<lambda>_. None)\<rparr> (sample_request ''net_version'' [])
      (None, sample_runtime, [\<lparr>Result = Some (JStr ''1''), Err = None\<rparr>]) = Some (x, gs') \<and>
     rError (pr_response x) = None \<and> pr_target x = None"
proof -
  let ?snap = "\<lparr>sChain = ''eth'', sHeads = (\<lambda>_. None)\<rparr>"
  let ?req = "sample_request ''net_version'' []"
  let ?w = "[\<lparr>Result = Some (JStr ''1''), Err = None\<rparr>]"
  let ?p = "prepared_request ''net_version'' (Some (MarshalParams []))"
  have family: "cc_Family (rt_Config sample_runtime) = ''evm''"
    by (simp add: sample_runtime_def NewRuntime_def sample_chain_def)
  have t: "transformRequest sample_env sample_runtime ?snap ?req ?w = (Inr ?p, ?w)"
    using family by (simp add: transformRequest_def transformEVMRequest_def registry_defs HasPrefix_def sample_request_def
        ParseParams_def)
  have valid: "Validate ?req = None" by (simp add: Validate_def sample_request_def Version_def)
  obtain x gs' where run: "process sample_gateway ?snap ?req (None, sample_runtime, ?w) = Some (x, gs')"
    "rError (pr_response x) = None"
    using t valid by (simp add: process_def sample_gateway_def process_prepared_def stale_target_def getResponse_def
        usable_cache_def load_response_def route_sample Let_def)
  have "pending_head ?snap" by (simp add: pending_head_def Get_def)
  from pending_reads_refused [OF run(1) family this run(2)] run show ?thesis by blast
qed

subsection \<open>Receipts are capped\<close>

definition capped :: "string \<Rightarrow> u64 \<Rightarrow> raw \<Rightarrow> bool" where
  "capped h ceiling payload \<longleftrightarrow> payload = Some JNull \<or>
     (\<exists>b. getEVMReceiptBlock payload h = Inr b \<and> Number b \<le> ceiling)"

lemma load_response_capped:
  assumes "load_response g cacheable p accepted (co, r, w) = Some ((resp, None), gs')"
    and "flight_respects (g_probes g)" "receiptHash p \<noteq> []" "p_target p = Some t" "\<not> unwrapContext p"
  shows "capped (receiptHash p) (Number t) (Payload resp)"
proof -
  obtain payload i s1 where route: "route (g_number g) (g_env g) (g_probes g) (g_wait g) p (r, w) = Some ((payload, i, None), s1)"
    and pay: "Payload resp = payload"
    using assms(1) by (auto simp: load_response_def Let_def split: option.splits if_splits sum.splits prod.splits)
  from route_loop_result [OF assms(2), of "g_number g" "g_env g" "g_wait g" p "[]" r w] route
  have "payload = Some JNull \<or> upstream_answer (g_env g) p (cc_Family (rt_Config r)) payload i"
    unfolding route_def by (fastforce simp: route_result_def)
  then show ?thesis
  proof
    assume "upstream_answer (g_env g) p (cc_Family (rt_Config r)) payload i"
    then have "answer_checked (cc_Family (rt_Config r)) p payload"
      using assms(5) by (auto simp: upstream_answer_def)
    then show ?thesis using pay assms(3,4) by (auto simp: answer_checked_def capped_def)
  qed (simp add: pay capped_def)
qed

lemma cap_receipt_capped:
  "cap_receipt c p accepted l = (l', None) \<Longrightarrow> receiptHash p \<noteq> [] \<Longrightarrow>
     capped (receiptHash p) (Number accepted) (Payload (Response l'))"
  by (auto simp: cap_receipt_def capped_def split: if_splits sum.splits)

lemma getResponse_capped:
  assumes "getResponse g snap p (co, r, w) = Some ((l, None), gs')" "flight_respects (g_probes g)"
    and "receiptHash p \<noteq> []" "p_target p = Some t" "\<not> unwrapContext p" "Get snap Latest = Some t"
  shows "capped (receiptHash p) (Number t) (Payload (Response l))"
proof (cases "usable_cache g snap p (co, r, w)")
  case None
  then obtain resp where "load_response g False p t (co, r, w) = Some ((resp, None), gs')" "Response l = resp"
    using assms(1,6) by (auto simp: getResponse_def Let_def split: option.splits prod.splits)
  then show ?thesis using load_response_capped [of g False p t co r w resp gs' t] assms(2-5) by simp
next
  case (Some c)
  then obtain l' where "cap_receipt (cc_Name (rt_Config r)) p t l' = (l, None)"
    using assms(1,6) by (auto simp: getResponse_def Let_def split: option.splits prod.splits)
  then show ?thesis using cap_receipt_capped assms(3) by blast
qed

text \<open>
  Property C10. A receipt lookup never reveals a block above the caller's pinned head: a successful
  answer is \<^verbatim>\<open>null\<close> or a receipt of the very transaction asked for whose block number is at most the
  number of the accepted head in the request's snapshot, whether it came from an upstream, from the
  cache, or from another caller's load at a newer head.
\<close>

theorem receipts_capped:
  assumes "process g snap req (co, r, w) = Some (x, gs')" "flight_respects (g_probes g)"
    and "cc_Family (rt_Config r) = ''evm''" "Method req = ''eth_getTransactionReceipt''" "rError (pr_response x) = None"
  shows "\<exists>h t. ParseParams (Params req) = Inr [JStr h] \<and> IsEVMHash h \<and> Get snap Latest = Some t \<and> pr_target x = Some t
    \<and> capped h (Number t) (rResult (pr_response x))"
  using assms(1)
proof (cases rule: process_cases)
  case (prepared p w1)
  obtain ps where ps: "ParseParams (Params req) = Inr ps" "transform_receipt snap ''eth_getTransactionReceipt'' ps = Inr p"
    using prepared(2) assms(3,4)
    by (auto simp: transformRequest_def transformEVMRequest_def registry_defs HasPrefix_def split: sum.splits)
  from transform_receipt_Inr [OF ps(2)] obtain t where p: "p_target p = Some t" "IsEVMHash (receiptHash p)"
    "Get snap Latest = Some t" "ps = [JStr (receiptHash p)]" "localResponse p = None" by blast
  have "\<not> unwrapContext p" using ps(2) by (auto simp: transform_receipt_def split: if_splits option.splits sum.splits)
  moreover have "receiptHash p \<noteq> []" using p(2) by (auto simp: IsEVMHash_def)
  moreover obtain l where l: "getResponse g snap p (co, r, w1) = Some ((l, None), gs')"
    "pr_response x = Success (ID req) (Payload (Response l))" "pr_target x = Some t"
    using prepared(3) assms(5) p(1,5)
    by (auto simp: process_prepared_def Let_def split: if_splits option.splits prod.splits)
  ultimately have c: "capped (receiptHash p) (Number t) (Payload (Response l))"
    using getResponse_capped [OF l(1) assms(2) _ p(1) _ p(3)] by blast
  then have "Payload (Response l) \<noteq> None" by (auto simp: capped_def dest: getEVMReceiptBlock_Inr)
  then have "rResult (pr_response x) = Payload (Response l)" using l(2) by auto
  then show ?thesis using ps(1) p l(3) c by auto
qed (use assms(5) in auto)

definition sample_fresh :: snapshot where
  "sample_fresh = \<lparr>sChain = ''eth'', sHeads = [Latest \<mapsto> zero_head\<lparr>Chain := ''eth'', Family := ''evm'',
     Commitment := Latest, Number := 9, Hash := sample_hash CHR ''a'', ParentHash := sample_hash CHR ''b'', ObservedAt := 1\<rparr>]\<rparr>"

definition sample_receipt :: json where
  "sample_receipt = JObj [(''transactionHash'', JStr (sample_hash CHR ''1'')), (''blockHash'', JStr (sample_hash CHR ''b'')),
     (''blockNumber'', JStr (FormatEVMQuantity 8))]"

lemma sample_receipt_not_null [simp]: "sample_receipt \<noteq> JNull"
  by (simp add: sample_receipt_def)

lemma getEVMReceiptBlock_sample:
  "getEVMReceiptBlock (Some sample_receipt) (sample_hash CHR ''1'') =
     Inr (zero_head\<lparr>Family := ''evm'', Number := 8, Hash := sample_hash CHR ''b''\<rparr>)"
  by (simp add: getEVMReceiptBlock_def sample_receipt_def string_field_def struct_values_simps EqualFold_def ToLower_def
      to_lower_def is_hex_sample)

theorem receipts_capped_witness:
  "\<exists>x gs' t. process sample_gateway sample_fresh (sample_request ''eth_getTransactionReceipt'' [JStr (sample_hash CHR ''1'')])
      (None, sample_runtime, [\<lparr>Result = Some sample_receipt, Err = None\<rparr>]) = Some (x, gs') \<and>
     Get sample_fresh Latest = Some t \<and> capped (sample_hash CHR ''1'') (Number t) (rResult (pr_response x))"
proof -
  let ?h = "sample_hash CHR ''1''"
  let ?req = "sample_request ''eth_getTransactionReceipt'' [JStr ?h]"
  let ?w = "[\<lparr>Result = Some sample_receipt, Err = None\<rparr>]"
  obtain t where t: "Get sample_fresh Latest = Some t" "\<not> IsZero t" "\<not> ReorgPending t" "Number t = 9" "ObservedAt t = 1"
    "Origin t = []"
    by (simp add: Get_def sample_fresh_def IsZero_def)
  let ?p = "(prepared_request ''eth_getTransactionReceipt'' (Some (MarshalParams [JStr ?h])))\<lparr>receiptHash := ?h, p_target := Some t\<rparr>"
  have hash: "IsEVMHash ?h" "?h \<noteq> []" by (simp_all add: is_hex_sample) (simp add: sample_hash_def)
  have cfg: "cc_Family (rt_Config sample_runtime) = ''evm''" "MaxHeadAge (rt_Config sample_runtime) \<ge> 0"
    by (simp_all add: sample_runtime_def NewRuntime_def sample_chain_def)
  have tr: "transformRequest sample_env sample_runtime sample_fresh ?req ?w = (Inr ?p, ?w)"
    using t hash cfg by (simp add: transformRequest_def transformEVMRequest_def registry_defs HasPrefix_def
        sample_request_def ParseParams_def transform_receipt_def getSnapshotHead_def)
  have judge: "judge_response 1 sample_runtime ?p (Some sample_receipt) = Accepted (Some sample_receipt)"
    using t cfg hash by (simp add: judge_response_def verifyEVMResponse_def receipt_verdict_def getEVMReceiptBlock_sample)
  have route: "route id sample_env probe_alone (\<lambda>w. (True, w)) ?p (sample_runtime, ?w)
      = Some ((Some sample_receipt, ''a'', None), sample_runtime, [])"
    using t hash judge by (simp add: route_def route_loop.simps route_turn_def route_candidates_def Candidates_sample Let_def
        new_pass_def try_candidate_def check_target_def boundaries_hold_def call_candidate_def settle_def sample_env_run)
  have valid: "Validate ?req = None" by (simp add: Validate_def sample_request_def Version_def)
  have fresh: "\<not> pending_head sample_fresh" "\<not> stale_target 1 (rt_Config sample_runtime) ?p"
    using t cfg(2) by (simp_all add: pending_head_def stale_target_def IsZeroTime_def time_sub_def max_duration_def)
  obtain x gs' where run: "process sample_gateway sample_fresh ?req (None, sample_runtime, ?w) = Some (x, gs')"
    "rError (pr_response x) = None"
    using tr valid route fresh by (simp add: process_def sample_gateway_def process_prepared_def getResponse_def
        usable_cache_def load_response_def Let_def sample_env_run)
  have "flight_respects (g_probes sample_gateway)" by (simp add: sample_gateway_def flight_respects_alone)
  from receipts_capped [OF run(1) this cfg(1) _ run(2)] obtain h t' where
    "ParseParams (Params ?req) = Inr [JStr h]" "Get sample_fresh Latest = Some t'"
    "capped h (Number t') (rResult (pr_response x))" by (auto simp: sample_request_def)
  moreover from this(1) have "h = ?h" by (simp add: sample_request_def ParseParams_def)
  ultimately show ?thesis using run(1) by blast
qed

subsection \<open>Keys keep forks apart\<close>

definition keyed_hash :: "preparedRequest \<Rightarrow> string" where
  "keyed_hash p = (if p_target p \<noteq> None \<and> receiptHash p = [] then Hash (target_of p) else [])"

lemma IsEVMHash_no_colon:
  assumes "IsEVMHash h"
  shows "CHR '':'' \<notin> set h"
proof -
  obtain r where h: "h = ''0x'' @ r" using assms by (auto simp: IsEVMHash_def HasPrefix_iff)
  moreover have "list_all is_hex_digit r" using assms h by (simp add: IsEVMHash_def hex_decodes_def)
  moreover have "\<not> is_hex_digit CHR '':''" by (simp add: is_hex_digit_def digit_val_def to_lower_def)
  ultimately show ?thesis by (auto simp: list_all_iff)
qed


definition sample_quote :: "string \<Rightarrow> string" where
  "sample_quote s = replicate (length s) CHR ''1'' @ CHR ''0'' # s"

lemma sample_quote_delimits: "sample_quote a @ x = sample_quote b @ y \<Longrightarrow> a = b \<and> x = y"
proof -
  assume eq: "sample_quote a @ x = sample_quote b @ y"
  have "replicate (length a) CHR ''1'' = replicate (length b) CHR ''1'' \<and> a @ x = b @ y"
    using eq by (intro separator_split [where c = "CHR ''0''"]) (auto simp: sample_quote_def)
  then have "length a = length b" "a @ x = b @ y" by (auto dest: arg_cong [where f = length])
  then show "a = b \<and> x = y" by simp
qed


end
