(* ===== verification/Gateway.thy ===== *)
theory Gateway
  imports Gateway_Response
begin

text \<open>
  The HTTP side of the gateway: \<^verbatim>\<open>router.go\<close> around the single request, the final reorg fence of
  \<^verbatim>\<open>reorg.go\<close> and the client labels of \<^verbatim>\<open>clients.go\<close>. The items of a batch run concurrently in the program
  and write to their own places of the answer; here they run in the order of the batch. A body is its
  classification by the JSON scanner (\<open>None\<close> when it exceeds the limit), an answer is its status,
  headers and JSON-RPC responses.
\<close>

subsection \<open>Labels\<close>

definition getClient :: "string list \<Rightarrow> string \<Rightarrow> string \<Rightarrow> string" where
  "getClient clients header queryClient =
     (let client = (if header = [] then queryClient else header) in
      if client = [] then ''anonymous'' else if client \<in> set clients then client else ''unknown'')"

definition metricMethod :: "string \<Rightarrow> string \<Rightarrow> string" where
  "metricMethod meth family =
     (if family = ''evm'' \<and>
         (meth \<in> {''eth_subscribe'', ''eth_unsubscribe''} \<or> getEVMStateBlockIndex meth \<noteq> None \<or> getEVMBlockMethod meth \<noteq> None
          \<or> isEVMHeadNeutralMethod meth \<or> isEVMExplicitHashMethod meth
          \<or> meth \<in> {''eth_blockNumber'', ''eth_getLogs'', ''eth_feeHistory'', ''eth_getTransactionReceipt''})
      then meth
      else if family \<noteq> ''evm'' \<and> (getSolanaConfigIndex meth \<noteq> None \<or> isSolanaHeadNeutralMethod meth) then meth
      else if isWriteMethod meth family then ''write''
      else ''unknown'')"

definition client_method_label :: "request \<Rightarrow> string \<Rightarrow> string" where
  "client_method_label req family = (if Validate req \<noteq> None then ''invalid'' else metricMethod (Method req) family)"

subsection \<open>The final fence\<close>

text \<open>The failure class, empty when the answers may go out.\<close>

definition fence_failure :: "time \<Rightarrow> duration \<Rightarrow> bool \<Rightarrow> string option \<Rightarrow> head option \<Rightarrow> head option \<Rightarrow> string" where
  "fence_failure now maxAge failed ctx_err initial latest =
     (let i = or_zero initial; l = or_zero latest in
      if failed then ''reorg_check_unavailable''
      else if ctx_err \<noteq> None then ''deadline''
      else if initial = None \<or> latest = None \<or> IsZero i \<or> IsZero l then ''reorg_check_unavailable''
      else if ReorgPending i \<or> ReorgPending l then ''reorg_pending''
      else if ReorgEpoch i \<noteq> ReorgEpoch l \<or> Generation l < Generation i then ''reorg_changed''
      else if Number l \<le> Number i \<and> \<not> EqualFold (Hash l) (Hash i) then ''reorg_changed''
      else if maxAge > 0 \<and> (IsZeroTime (ObservedAt l) \<or> time_sub now (ObservedAt l) > maxAge) then ''stale_head''
      else [])"

definition fence_error :: "string \<Rightarrow> string \<Rightarrow> rpc_error" where
  "fence_error chainName failureClass = ConsistencyUnavailable (JObj [(''chain'', JStr chainName),
     (''reason'', JStr failureClass), (''retryable'', JBool True)])"

text \<open>The identifier is the one already in the response.\<close>

definition discard :: "string \<Rightarrow> string \<Rightarrow> processedResponse \<Rightarrow> processedResponse" where
  "discard chainName failureClass x =
     (if pr_target x = None then x
      else plain_response (Failure (Some (rID (pr_response x))) (fence_error chainName failureClass)))"

definition fenceEVMResponses :: "'w gateway \<Rightarrow> ChainConfig \<Rightarrow> snapshot \<Rightarrow> processedResponse list \<Rightarrow> 'w \<Rightarrow>
    processedResponse list \<times> 'w" where
  "fenceEVMResponses g cfg snap responses w =
     (if cc_Family cfg \<noteq> ''evm'' \<or> list_all (\<lambda>x. pr_target x = None) responses then (responses, w)
      else
        (case g_snapshot g (cc_Name cfg) w of
           (x, w1) \<Rightarrow>
             let latest = (case x of Inl _ \<Rightarrow> None | Inr current \<Rightarrow> Get current Latest);
                 failureClass = fence_failure (now_of (g_env g) w1) (MaxHeadAge cfg) (case x of Inl _ \<Rightarrow> True | Inr _ \<Rightarrow> False) (g_ctx g w1)
                   (Get snap Latest) latest
             in if failureClass = [] then (responses, w1)
                else (map (discard (cc_Name cfg) failureClass) responses, w1)))"

subsection \<open>Headers\<close>

record head_scan =
  acceptedHead :: "head option"
  hasReceiptLookup :: bool
  hasOtherTarget :: bool
  scanBoundary :: bool
  scanUnverified :: bool

definition same_target :: "string \<Rightarrow> head \<Rightarrow> head \<Rightarrow> bool" where
  "same_target family a t =
     (if family = ''evm'' then EqualFold (Hash a) (Hash t) else Identity a = Identity t \<and> Commitment a = Commitment t)"

text \<open>\<open>None\<close> is the early return on two targets.\<close>

fun scan_heads :: "string \<Rightarrow> processedResponse list \<Rightarrow> head_scan \<Rightarrow> head_scan option" where
  "scan_heads family [] st = Some st"
| "scan_heads family (x # xs) st =
     (let st1 = st\<lparr>scanUnverified := scanUnverified st \<or> unverifiedRead x\<rparr> in
      case pr_target x of
        None \<Rightarrow> scan_heads family xs st1
      | Some t \<Rightarrow>
          if rError (pr_response x) \<noteq> None then scan_heads family xs st1
          else
            let st2 = st1\<lparr>hasReceiptLookup := hasReceiptLookup st1 \<or> receiptLookup x,
                          hasOtherTarget := hasOtherTarget st1 \<or> \<not> receiptLookup x\<rparr> in
            if (case acceptedHead st2 of None \<Rightarrow> False | Some a \<Rightarrow> \<not> same_target family a t) then None
            else scan_heads family xs (st2\<lparr>scanBoundary := scanBoundary st2 \<or> boundaryChecked x, acceptedHead := Some t\<rparr>))"

definition consistency :: "string \<Rightarrow> (string \<times> string) list" where
  "consistency v = [(''X-RPC-Consistency'', v)]"

definition setResponseHeadHeaders :: "string \<Rightarrow> processedResponse list \<Rightarrow> (string \<times> string) list" where
  "setResponseHeadHeaders family responses =
     (case scan_heads family responses \<lparr>acceptedHead = None, hasReceiptLookup = False, hasOtherTarget = False,
             scanBoundary = False, scanUnverified = False\<rparr> of
        None \<Rightarrow> consistency ''mixed-targets''
      | Some st \<Rightarrow>
          if hasReceiptLookup st \<and> hasOtherTarget st then consistency ''mixed-targets''
          else if scanUnverified st
          then consistency (if acceptedHead st \<noteq> None then ''mixed-targets'' else ''unverified'')
          else
            (case acceptedHead st of
               None \<Rightarrow> []
             | Some a \<Rightarrow>
                 if family = ''evm''
                 then (if Commitment a \<noteq> ''explicit'' \<or> Number a \<noteq> 0 \<or> Origin a \<noteq> []
                       then [(''X-RPC-Head-Number'', FormatEVMQuantity (Number a))] else [])
                   @ [(''X-RPC-Head-Hash'', Hash a)]
                   @ consistency (if scanBoundary st then ''boundary-checked''
                       else if hasReceiptLookup st then ''pinned-head-ceiling'' else ''exact-block-hash'')
                 else [(''X-RPC-Head-Slot'', show_u64 (Number a))] @ consistency ''minimum-context-slot''))"

text \<open>One label for several: the common one, or the word for a mixture.\<close>

definition merge_label :: "string \<Rightarrow> string \<Rightarrow> string \<Rightarrow> string" where
  "merge_label mixture acc label =
     (if label = [] then acc else if acc = [] then label else if acc \<noteq> label then mixture else acc)"

definition merge_labels :: "string \<Rightarrow> string list \<Rightarrow> string" where
  "merge_labels mixture labels = fold (\<lambda>label acc. merge_label mixture acc label) labels []"

definition label_header :: "string \<Rightarrow> string \<Rightarrow> (string \<times> string) list" where
  "label_header name label = (if label = [] then [] else [(name, label)])"

subsection \<open>The HTTP request\<close>

record http_request =
  hr_method :: string
  hr_body :: "body option"

datatype reply_body = NoBody | PlainText string | OneResponse response | BatchResponses "response list"

record reply =
  rp_status :: int
  rp_headers :: "(string \<times> string) list"
  rp_body :: reply_body

definition rpc_chain :: "string \<Rightarrow> string \<Rightarrow> string" where
  "rpc_chain pathValue path =
     (if pathValue = [] then (if HasPrefix path ''/rpc/'' then drop 5 path else path) else pathValue)"

definition json_reply :: "(string \<times> string) list \<Rightarrow> bool \<Rightarrow> response list \<Rightarrow> reply" where
  "json_reply headers batch responses =
     (if responses = [] then \<lparr>rp_status = 204, rp_headers = headers, rp_body = NoBody\<rparr>
      else \<lparr>rp_status = 200, rp_headers = headers,
            rp_body = (if batch then BatchResponses responses else OneResponse (hd responses))\<rparr>)"

definition content_type :: "(string \<times> string) list" where
  "content_type = [(''Content-Type'', ''application/json'')]"

definition writeRPCError :: "rpc_error \<Rightarrow> reply" where
  "writeRPCError e = json_reply content_type False [Failure None e]"

definition included :: "request \<Rightarrow> bool" where
  "included req \<longleftrightarrow> \<not> IsNotification req \<or> Validate req \<noteq> None"

definition writeEnvelope :: "(request \<Rightarrow> response) \<Rightarrow> request list \<Rightarrow> bool \<Rightarrow> reply" where
  "writeEnvelope fn requests batch =
     json_reply content_type batch
       (map (\<lambda>req. case Validate req of Some e \<Rightarrow> Failure (ID req) e | None \<Rightarrow> fn req) (filter included requests))"

text \<open>The items of a batch; one whose snapshot is missing fails without being processed.\<close>

definition store_error_response :: "string \<Rightarrow> request \<Rightarrow> processedResponse" where
  "store_error_response chainName req = plain_response (Failure (ID req)
     (ConsistencyUnavailable (JObj [(''chain'', JStr chainName), (''reason'', JStr ''head store unavailable'')])))"

definition process_item :: "'w gateway \<Rightarrow> bool \<Rightarrow> snapshot \<Rightarrow> request \<Rightarrow> 'w gateway_state \<Rightarrow>
    (processedResponse \<times> 'w gateway_state) option" where
  "process_item g failed snap req gs =
     (let cfg = rt_Config (fst (snd gs)) in
      if failed \<and> \<not> isStaticMethod (Method req) (cc_Family cfg)
      then Some (store_error_response (cc_Name cfg) req, gs) else process g snap req gs)"

fun process_items :: "'w gateway \<Rightarrow> bool \<Rightarrow> snapshot \<Rightarrow> request list \<Rightarrow> 'w gateway_state \<Rightarrow>
    (processedResponse list \<times> 'w gateway_state) option" where
  "process_items g failed snap [] gs = Some ([], gs)"
| "process_items g failed snap (req # reqs) gs =
     (case process_item g failed snap req gs of
        None \<Rightarrow> None
      | Some (x, gs1) \<Rightarrow>
          (case process_items g failed snap reqs gs1 of
             None \<Rightarrow> None
           | Some (xs, gs2) \<Rightarrow> Some (x # xs, gs2)))"

text \<open>The snapshot of the batch: read once, and only when an item needs it.\<close>

definition batch_snapshot :: "'w gateway \<Rightarrow> ChainConfig \<Rightarrow> request list \<Rightarrow> 'w \<Rightarrow> (bool \<times> snapshot) \<times> 'w" where
  "batch_snapshot g cfg requests w =
     (if list_all (\<lambda>req. isStaticMethod (Method req) (cc_Family cfg)) requests
      then ((False, \<lparr>sChain = [], sHeads = (\<lambda>_. None)\<rparr>), w)
      else
        (case g_snapshot g (cc_Name cfg) w of
           (Inl _, w1) \<Rightarrow> ((True, \<lparr>sChain = [], sHeads = (\<lambda>_. None)\<rparr>), w1)
         | (Inr snap, w1) \<Rightarrow> ((False, snap), w1)))"

definition serve_batch :: "'w gateway \<Rightarrow> request list \<Rightarrow> 'w gateway_state \<Rightarrow>
    (processedResponse list \<times> 'w gateway_state) option" where
  "serve_batch g requests = (\<lambda>(co, r, w).
     case batch_snapshot g (rt_Config r) requests w of
       ((failed, snap), w1) \<Rightarrow>
         (case process_items g failed snap requests (co, r, w1) of
            None \<Rightarrow> None
          | Some (xs, co2, r2, w2) \<Rightarrow>
              (case fenceEVMResponses g (rt_Config r) snap xs w2 of
                 (ys, w3) \<Rightarrow> Some (ys, co2, r2, w3))))"

definition batch_reply :: "string \<Rightarrow> request list \<Rightarrow> bool \<Rightarrow> processedResponse list \<Rightarrow> reply" where
  "batch_reply family requests batch xs =
     (let kept = map snd (filter (\<lambda>(req, x). included req) (zip requests xs)) in
      json_reply
        (content_type @ label_header ''X-RPC-Upstream'' (merge_labels ''multiple'' (map pr_upstream kept))
          @ label_header ''X-RPC-Cache'' (merge_labels ''mixed'' (map pr_cacheStatus kept))
          @ setResponseHeadHeaders family xs)
        batch (map pr_response kept))"

definition ServeRPC :: "'w gateway \<Rightarrow> ServerConfig \<Rightarrow> (json \<Rightarrow> string) \<Rightarrow> http_request \<Rightarrow> string \<Rightarrow>
    raw cache option \<times> (string \<Rightarrow> runtime option) \<times> 'w \<Rightarrow>
    (reply \<times> raw cache option \<times> (string \<Rightarrow> runtime option) \<times> 'w) option" where
  "ServeRPC g server type_error req chainName = (\<lambda>(co, runtimes, w).
     if hr_method req \<noteq> ''POST''
     then Some (\<lparr>rp_status = 405, rp_headers = [(''Content-Type'', ''text/plain; charset=utf-8'')],
       rp_body = PlainText ''method not allowed''\<rparr>, co, runtimes, w)
     else
       (case hr_body req of
          None \<Rightarrow> Some (writeRPCError (InvalidRequest ''request body exceeds configured limit''), co, runtimes, w)
        | Some b \<Rightarrow>
            (case ParseEnvelope type_error b (MaxBatchSize server) of
               Inl (_, e) \<Rightarrow> Some (writeRPCError e, co, runtimes, w)
             | Inr (requests, batch) \<Rightarrow>
                 (case runtimes chainName of
                    None \<Rightarrow> Some (writeEnvelope (\<lambda>req. Failure (ID req) (ChainUnavailable chainName)) requests batch, co, runtimes, w)
                  | Some r \<Rightarrow>
                      (case serve_batch g requests (co, r, w) of
                         None \<Rightarrow> None
                       | Some (xs, co1, r1, w1) \<Rightarrow>
                           Some (batch_reply (cc_Family (rt_Config r)) requests batch xs,
                             co1, runtimes(chainName \<mapsto> r1), w1))))))"

subsection \<open>What the fence guarantees\<close>

text \<open>A later head of the store that leaves reads against the earlier one valid.\<close>

definition fence_holds :: "time \<Rightarrow> duration \<Rightarrow> head \<Rightarrow> head \<Rightarrow> bool" where
  "fence_holds now maxAge i l \<longleftrightarrow>
     \<not> IsZero i \<and> \<not> IsZero l \<and> \<not> ReorgPending i \<and> \<not> ReorgPending l \<and> ReorgEpoch l = ReorgEpoch i \<and> Generation i \<le> Generation l
     \<and> (Number l \<le> Number i \<longrightarrow> EqualFold (Hash l) (Hash i))
     \<and> (maxAge > 0 \<longrightarrow> \<not> IsZeroTime (ObservedAt l) \<and> time_sub now (ObservedAt l) \<le> maxAge)"

lemma fence_failure_Nil:
  "fence_failure now maxAge failed e initial latest = [] \<longleftrightarrow>
     \<not> failed \<and> e = None \<and> (\<exists>i l. initial = Some i \<and> latest = Some l \<and> fence_holds now maxAge i l)"
proof (cases "failed \<or> e \<noteq> None \<or> initial = None \<or> latest = None")
  case True
  then show ?thesis by (auto simp: fence_failure_def Let_def)
next
  case False
  then obtain i l where il: "initial = Some i" "latest = Some l" "\<not> failed" "e = None" by auto
  have empty: "(if P then s else t) = [] \<longleftrightarrow> \<not> P \<and> t = []" if "s \<noteq> []" for P and s t :: string
    using that by simp
  show ?thesis
    unfolding fence_failure_def fence_holds_def Let_def il
    by (simp only: empty list.distinct(2) not_False_eq_True if_False option.sel option.case option.inject
        option.distinct ex_simps simp_thms de_Morgan_disj de_Morgan_conj or_zero_def not_less not_le linorder_not_less imp_conv_disj conj_assoc eq_commute [of "ReorgEpoch l"])
qed

lemma discard_sel [simp]:
  "pr_target x = None \<Longrightarrow> discard c f x = x"
  "pr_target (discard c f x) = None"
  "validID (Some (rID (pr_response x))) \<Longrightarrow> rID (pr_response (discard c f x)) = rID (pr_response x)"
  by (auto simp: discard_def idOrNull_def)

lemma fence_cases:
  assumes "fenceEVMResponses g cfg snap xs w = (ys, w')"
  obtains (skipped) "ys = xs" "w' = w" "cc_Family cfg \<noteq> ''evm'' \<or> list_all (\<lambda>x. pr_target x = None) xs"
  | (passed) current i l where "ys = xs" "g_snapshot g (cc_Name cfg) w = (Inr current, w')" "Get snap Latest = Some i"
      "Get current Latest = Some l" "fence_holds (now_of (g_env g) w') (MaxHeadAge cfg) i l"
  | (discarded) failureClass where "failureClass \<noteq> []" "ys = map (discard (cc_Name cfg) failureClass) xs"
      "w' = snd (g_snapshot g (cc_Name cfg) w)"
proof (cases "cc_Family cfg \<noteq> ''evm'' \<or> list_all (\<lambda>x. pr_target x = None) xs")
  case True
  then have "(ys, w') = (xs, w)" using assms unfolding fenceEVMResponses_def by (simp only: if_P)
  then show thesis using True skipped by blast
next
  case False
  obtain x w1 where s: "g_snapshot g (cc_Name cfg) w = (x, w1)" by (cases "g_snapshot g (cc_Name cfg) w")
  define latest where "latest = (case x of Inl _ \<Rightarrow> None | Inr current \<Rightarrow> Get current Latest)"
  define failureClass where "failureClass = fence_failure (now_of (g_env g) w1) (MaxHeadAge cfg)
    (case x of Inl _ \<Rightarrow> True | Inr _ \<Rightarrow> False) (g_ctx g w1) (Get snap Latest) latest"
  have run: "(if failureClass = [] then (xs, w1) else (map (discard (cc_Name cfg) failureClass) xs, w1)) = (ys, w')"
    using assms False unfolding fenceEVMResponses_def failureClass_def latest_def by (simp add: s Let_def)
  show thesis
  proof (cases "failureClass = []")
    case True
    then obtain i l where "Get snap Latest = Some i" "latest = Some l" "fence_holds (now_of (g_env g) w1) (MaxHeadAge cfg) i l"
      unfolding failureClass_def fence_failure_Nil by blast
    moreover then obtain current where "x = Inr current" "Get current Latest = Some l"
      by (auto simp: latest_def split: sum.splits)
    ultimately show thesis using passed run True s by auto
  qed (use discarded run s in auto)
qed

lemma fence_length: "fenceEVMResponses g cfg snap xs w = (ys, w') \<Longrightarrow> length ys = length xs"
  by (erule fence_cases) auto

text \<open>
  Property C5. The final fence is all or nothing. If any answer that was read at a head leaves the
  gateway, all answers leave unchanged, and the store was read once more after them: both that
  snapshot and the one of the request hold an accepted head, neither is under a pending reorg, the
  epoch is the same, the generation did not go back, a head at no greater height has the same hash,
  and the head is fresh. Otherwise every answer read at a head is replaced by a retryable
  consistency error under the same identifier with nothing of the read left, and the others stay.
\<close>

theorem fence_all_or_nothing:
  assumes "fenceEVMResponses g cfg snap xs w = (ys, w')" "cc_Family cfg = ''evm''" "x \<in> set xs" "pr_target x \<noteq> None"
  shows "(ys = xs \<and> (\<exists>current i l. g_snapshot g (cc_Name cfg) w = (Inr current, w') \<and> Get snap Latest = Some i
        \<and> Get current Latest = Some l \<and> fence_holds (now_of (g_env g) w') (MaxHeadAge cfg) i l))
    \<or> (length ys = length xs \<and> (\<exists>reason. reason \<noteq> [] \<and> (\<forall>k < length xs. ys ! k =
         (if pr_target (xs ! k) = None then xs ! k
          else plain_response (Failure (Some (rID (pr_response (xs ! k)))) (fence_error (cc_Name cfg) reason))))))"
  using assms(1)
proof (cases rule: fence_cases)
  case skipped
  then show ?thesis using assms(2-4) by (auto simp: list_all_iff)
qed (auto simp: discard_def)

theorem fence_all_or_nothing_witness:
  "fence_holds 1 0 (zero_head\<lparr>Number := 9, Hash := ''x''\<rparr>) (zero_head\<lparr>Number := 9, Hash := ''x''\<rparr>) \<and>
   (\<exists>x ys w'. fenceEVMResponses sample_gateway (sample_chain\<lparr>MaxHeadAge := 0\<rparr>) sample_fresh [x] [] = (ys, w') \<and>
      pr_target x \<noteq> None \<and> length ys = 1)"
proof -
  let ?x = "plain_response (Success None None)\<lparr>pr_target := Some zero_head\<rparr>"
  obtain ys w' where run: "fenceEVMResponses sample_gateway (sample_chain\<lparr>MaxHeadAge := 0\<rparr>) sample_fresh [?x] [] = (ys, w')"
    by fastforce
  have "cc_Family (sample_chain\<lparr>MaxHeadAge := 0\<rparr>) = ''evm''" by (simp add: sample_chain_def)
  from fence_all_or_nothing [OF run this, of ?x] have "length ys = 1" by auto
  then show ?thesis using run by (intro conjI exI [of _ ?x] exI [of _ ys] exI [of _ w']) (simp_all add: fence_holds_def IsZero_def)
qed

subsection \<open>The shape of the answers\<close>

text \<open>A response of the protocol: its version, a valid identifier, and a result or an error but not both.\<close>

definition well_formed :: "response \<Rightarrow> bool" where
  "well_formed resp \<longleftrightarrow> rJSONRPC resp = Version \<and> validID (Some (rID resp)) \<and> (rResult resp = None \<longleftrightarrow> rError resp \<noteq> None)"

lemma well_formed_simps [simp]: "well_formed (Success i p)" "well_formed (Failure i e)"
  by (auto simp: well_formed_def Success_def Failure_def split: option.splits)

lemma process_prepared_well_formed:
  "process_prepared g snap req p gs = Some (x, gs') \<Longrightarrow> well_formed (pr_response x)"
  by (auto simp: process_prepared_def Let_def split: if_splits option.splits prod.splits)

lemma process_well_formed:
  assumes "process g snap req gs = Some (x, gs')"
  shows "well_formed (pr_response x)"
  using assms by (cases gs) (auto elim!: process_cases dest: process_prepared_well_formed)

definition answers :: "request \<Rightarrow> processedResponse \<Rightarrow> bool" where
  "answers req x \<longleftrightarrow> well_formed (pr_response x) \<and> rID (pr_response x) = idOrNull (ID req)"

lemma idOrNull_idOrNull: "idOrNull (Some (idOrNull i)) = idOrNull i"
  using validID_idOrNull [of i] by (simp add: idOrNull_def)

lemma discard_answers: "answers req x \<Longrightarrow> answers req (discard c f x)"
  by (simp add: answers_def discard_def idOrNull_idOrNull)

lemma process_items_Cons:
  "process_items g failed snap (req # reqs) gs = Some (xs, gs') \<longleftrightarrow>
     (\<exists>x gs1 ys. process_item g failed snap req gs = Some (x, gs1)
        \<and> process_items g failed snap reqs gs1 = Some (ys, gs') \<and> xs = x # ys)"
  by (auto split: option.splits prod.splits)

lemma process_item_answers:
  assumes "process_item g failed snap req gs = Some (x, gs')"
  shows "answers req x"
proof (cases "process g snap req gs = Some (x, gs')")
  case True
  then show ?thesis by (simp add: answers_def process_well_formed process_ID)
next
  case False
  then have "x = store_error_response (cc_Name (rt_Config (fst (snd gs)))) req"
    using assms by (auto simp: process_item_def Let_def split: if_splits)
  then show ?thesis by (simp add: answers_def store_error_response_def)
qed

lemma process_items_answers:
  "process_items g failed snap reqs gs = Some (xs, gs') \<Longrightarrow> list_all2 answers reqs xs"
proof (induction reqs arbitrary: gs xs)
  case (Cons req reqs)
  then show ?case unfolding process_items_Cons by (auto intro: process_item_answers)
qed simp

lemma fence_answers:
  assumes "fenceEVMResponses g cfg snap xs w = (ys, w')" "list_all2 answers reqs xs"
  shows "list_all2 answers reqs ys"
  using assms(1)
proof (cases rule: fence_cases)
  case (discarded failureClass)
  have "list_all2 answers reqs (map (discard (cc_Name cfg) failureClass) xs)"
    using assms(2) by (auto simp: list_all2_conv_all_nth intro: discard_answers)
  then show ?thesis using discarded by simp
qed (use assms(2) in auto)

lemma serve_batch_cases:
  assumes "serve_batch g reqs (co, r, w) = Some (ys, gs')"
  obtains failed snap w1 xs co2 r2 w2 w3 where "batch_snapshot g (rt_Config r) reqs w = ((failed, snap), w1)"
    "process_items g failed snap reqs (co, r, w1) = Some (xs, co2, r2, w2)"
    "fenceEVMResponses g (rt_Config r) snap xs w2 = (ys, w3)" "gs' = (co2, r2, w3)"
  using assms unfolding serve_batch_def by (auto split: prod.splits option.splits)

lemma serve_batch_answers:
  "serve_batch g reqs gs = Some (ys, gs') \<Longrightarrow> list_all2 answers reqs ys"
  by (cases gs) (auto elim!: serve_batch_cases dest: process_items_answers fence_answers)

definition reply_responses :: "reply \<Rightarrow> response list" where
  "reply_responses rep = (case rp_body rep of OneResponse x \<Rightarrow> [x] | BatchResponses xs \<Rightarrow> xs | _ \<Rightarrow> [])"

lemma kept_answers:
  assumes "list_all2 answers reqs ys"
  shows "list_all2 (\<lambda>req resp. well_formed resp \<and> rID resp = idOrNull (ID req)) (filter included reqs)
    (map pr_response (map snd (filter (\<lambda>(req, x). included req) (zip reqs ys))))"
  using assms by (induction rule: list_all2_induct) (auto simp: answers_def)

lemma json_reply_responses:
  assumes "batch \<or> length xs \<le> 1"
  shows "reply_responses (json_reply hs batch xs) = xs \<and> rp_status (json_reply hs batch xs) = (if xs = [] then 204 else 200)"
  using assms by (cases xs) (auto simp: json_reply_def reply_responses_def)

text \<open>
  Property C13. The answer to an accepted body: one well-formed response per request that is not a valid
  notification, in the order of the requests and under the identifiers they carried, and nothing else;
  the status is 204 without a body exactly when the body held nothing but valid notifications. The
  number of responses is at most the batch limit, and 1 for a single request.
\<close>

theorem one_response_per_request:
  assumes "ServeRPC g server te (\<lparr>hr_method = ''POST'', hr_body = Some b\<rparr>) c (co, rts, w) = Some (rep, s')"
    and "ParseEnvelope te b (MaxBatchSize server) = Inr (reqs, batch)"
  shows "list_all2 (\<lambda>req resp. well_formed resp \<and> rID resp = idOrNull (ID req)) (filter included reqs) (reply_responses rep)
    \<and> rp_status rep = (if filter included reqs = [] then 204 else 200)
    \<and> length (reply_responses rep) \<le> (if batch then nat (MaxBatchSize server) else 1)"
proof -
  have size: "if batch then int (length reqs) \<le> MaxBatchSize server else length reqs = 1"
    using ParseEnvelope_Inr_cases [OF assms(2)] by auto
  obtain hs xs where rep: "rep = json_reply hs batch xs"
    and xs: "list_all2 (\<lambda>req resp. well_formed resp \<and> rID resp = idOrNull (ID req)) (filter included reqs) xs"
  proof (cases "rts c")
    case None
    then have "rep = json_reply content_type batch (map (\<lambda>req. case Validate req of Some e \<Rightarrow> Failure (ID req) e
        | None \<Rightarrow> Failure (ID req) (ChainUnavailable c)) (filter included reqs))"
      using assms by (simp add: ServeRPC_def writeEnvelope_def)
    then show thesis using that by (auto simp: list_all2_conv_all_nth split: option.splits)
  next
    case (Some r)
    then obtain ys gs' where "serve_batch g reqs (co, r, w) = Some (ys, gs')"
      "rep = batch_reply (cc_Family (rt_Config r)) reqs batch ys"
      using assms by (auto simp: ServeRPC_def split: option.splits prod.splits)
    moreover from this(1) have "list_all2 answers reqs ys" by (rule serve_batch_answers)
    ultimately show thesis using that [OF _ kept_answers] by (simp only: batch_reply_def Let_def)
  qed
  have len: "length xs = length (filter included reqs)" by (rule list_all2_lengthD [OF xs, symmetric])
  have few: "length xs \<le> length reqs" unfolding len by (rule length_filter_le)
  have one: "batch \<or> length xs \<le> 1" using few size by (auto split: if_splits)
  have "xs = [] \<longleftrightarrow> filter included reqs = []" using len by (metis length_0_conv)
  then show ?thesis using rep xs few size json_reply_responses [OF one, of hs] by (auto split: if_splits)
qed

definition sample_server :: ServerConfig where
  "sample_server = \<lparr>ListenAddress = [], AdminAddress = [], RequestTimeout = 1, MaxBodyBytes = 99, MaxBatchSize = 2,
     WebsocketQueueSize = 1\<rparr>"

theorem one_response_per_request_witness:
  "\<exists>rep s'. ServeRPC sample_gateway sample_server (\<lambda>_. [])
      \<lparr>hr_method = ''POST'', hr_body = Some (Text (JArr [JNum ''1'', JNull]))\<rparr> ''eth'' (None, (\<lambda>_. None), []) = Some (rep, s')
     \<and> rp_status rep = 200 \<and> length (reply_responses rep) \<le> 2"
proof -
  have parse: "ParseEnvelope (\<lambda>_. []) (Text (JArr [JNum ''1'', JNull])) (MaxBatchSize sample_server) =
      Inr (map batch_item [JNum ''1'', JNull], True)"
    by (simp add: sample_server_def)
  obtain rep s' where run: "ServeRPC sample_gateway sample_server (\<lambda>_. [])
      \<lparr>hr_method = ''POST'', hr_body = Some (Text (JArr [JNum ''1'', JNull]))\<rparr> ''eth'' (None, (\<lambda>_. None), []) = Some (rep, s')"
    using parse by (simp add: ServeRPC_def)
  have "included (batch_item (JNum ''1''))"
    by (simp add: included_def batch_item_def unmarshal_request_def)
  then have "filter included (map batch_item [JNum ''1'', JNull]) \<noteq> []" by simp
  then have "rp_status rep = 200 \<and> length (reply_responses rep) \<le> 2"
    using one_response_per_request [OF run parse] by (simp add: sample_server_def)
  with run show ?thesis by blast
qed

subsection \<open>What the headers say\<close>

definition counted :: "processedResponse \<Rightarrow> bool" where
  "counted x \<longleftrightarrow> pr_target x \<noteq> None \<and> rError (pr_response x) = None"

lemma same_target_refl [simp]: "same_target family a a"
  by (simp add: same_target_def)

lemma same_target_trans: "same_target family a b \<Longrightarrow> same_target family b c \<Longrightarrow> same_target family a c"
  by (auto simp: same_target_def intro: EqualFold_trans split: if_splits)

lemma same_target_sym: "same_target family a b \<Longrightarrow> same_target family b a"
  by (auto simp: same_target_def EqualFold_sym split: if_splits)

lemma scan_heads_flags:
  assumes "scan_heads family xs st = Some st'"
  shows "(hasReceiptLookup st' \<longleftrightarrow> hasReceiptLookup st \<or> (\<exists>x \<in> set xs. counted x \<and> receiptLookup x))
    \<and> (hasOtherTarget st' \<longleftrightarrow> hasOtherTarget st \<or> (\<exists>x \<in> set xs. counted x \<and> \<not> receiptLookup x))
    \<and> (scanBoundary st' \<longleftrightarrow> scanBoundary st \<or> (\<exists>x \<in> set xs. counted x \<and> boundaryChecked x))
    \<and> (scanUnverified st' \<longleftrightarrow> scanUnverified st \<or> (\<exists>x \<in> set xs. unverifiedRead x))"
  using assms
  by (induction family xs st rule: scan_heads.induct)
    (auto simp: counted_def Let_def split: option.splits if_splits)

lemma scan_heads_head:
  assumes "scan_heads family xs st = Some st'"
  shows "(\<forall>t. acceptedHead st = Some t \<or> (\<exists>x \<in> set xs. counted x \<and> pr_target x = Some t) \<longrightarrow>
      (\<exists>a. acceptedHead st' = Some a \<and> same_target family a t))
    \<and> (acceptedHead st' = acceptedHead st \<or> (\<exists>x \<in> set xs. counted x \<and> pr_target x = acceptedHead st'))"
  using assms
proof (induction family xs st rule: scan_heads.induct)
  case (2 family x xs st)
  let ?st1 = "st\<lparr>scanUnverified := scanUnverified st \<or> unverifiedRead x\<rparr>"
  let ?st2 = "?st1\<lparr>hasReceiptLookup := hasReceiptLookup ?st1 \<or> receiptLookup x, hasOtherTarget := hasOtherTarget ?st1 \<or> \<not> receiptLookup x\<rparr>"
  show ?case
  proof (cases "counted x")
    case False
    then have "scan_heads family xs ?st1 = Some st'"
      using 2(4) by (auto simp: counted_def Let_def split: option.splits if_splits)
    then show ?thesis using False 2(1,2) by (cases "pr_target x") (auto simp: counted_def)
  next
    case True
    then obtain t where t: "pr_target x = Some t" "rError (pr_response x) = None" by (auto simp: counted_def)
    then have run: "scan_heads family xs (?st2\<lparr>scanBoundary := scanBoundary ?st2 \<or> boundaryChecked x, acceptedHead := Some t\<rparr>) = Some st'"
      and same: "\<And>a. acceptedHead st = Some a \<Longrightarrow> same_target family a t"
      using 2(4) by (auto simp: Let_def split: option.splits if_splits)
    have IH: "(\<forall>u. u = t \<or> (\<exists>x \<in> set xs. counted x \<and> pr_target x = Some u) \<longrightarrow>
        (\<exists>a. acceptedHead st' = Some a \<and> same_target family a u))
      \<and> (acceptedHead st' = Some t \<or> (\<exists>x \<in> set xs. counted x \<and> pr_target x = acceptedHead st'))"
      using 2(3) [OF refl t(1) _ refl _ run] t same by (auto split: option.splits)
    then obtain a where a: "acceptedHead st' = Some a" "same_target family a t" by blast
    have "same_target family a u" if "acceptedHead st = Some u" for u
      using same_target_trans [OF a(2) same_target_sym [OF same [OF that]]] .
    then show ?thesis using IH a t True by auto
  qed
qed simp

lemma headers_cases:
  assumes "map_of (setResponseHeadHeaders family xs) ''X-RPC-Consistency'' = Some v" "v \<notin> {''mixed-targets'', ''unverified''}"
  obtains st a where "scan_heads family xs \<lparr>acceptedHead = None, hasReceiptLookup = False, hasOtherTarget = False,
        scanBoundary = False, scanUnverified = False\<rparr> = Some st"
    "acceptedHead st = Some a" "\<not> scanUnverified st" "\<not> (hasReceiptLookup st \<and> hasOtherTarget st)"
    "family = ''evm'' \<Longrightarrow> map_of (setResponseHeadHeaders family xs) ''X-RPC-Head-Hash'' = Some (Hash a)
       \<and> v = (if scanBoundary st then ''boundary-checked'' else if hasReceiptLookup st then ''pinned-head-ceiling''
              else ''exact-block-hash'')"
    "family \<noteq> ''evm'' \<Longrightarrow> map_of (setResponseHeadHeaders family xs) ''X-RPC-Head-Slot'' = Some (show_u64 (Number a))"
  using assms unfolding setResponseHeadHeaders_def
  by (auto simp: consistency_def split: option.splits if_splits)

text \<open>
  Property C25. The consistency headers are true of the whole answer. When they claim more than
  \<^verbatim>\<open>mixed-targets\<close> or \<^verbatim>\<open>unverified\<close>, some successful answer was read at the head they name, every
  successful answer with a head was read at that same head, and no answer is an unverified read;
  \<^verbatim>\<open>exact-block-hash\<close> is claimed only when none of them is a receipt lookup or was checked at its
  boundaries only, and \<^verbatim>\<open>pinned-head-ceiling\<close> only when all of them are receipt lookups.
\<close>

theorem headers_truthful:
  assumes "map_of (setResponseHeadHeaders family xs) ''X-RPC-Consistency'' = Some v" "v \<notin> {''mixed-targets'', ''unverified''}"
  shows "\<exists>a. (\<exists>x \<in> set xs. counted x \<and> pr_target x = Some a)
    \<and> (\<forall>x \<in> set xs. \<not> unverifiedRead x \<and> (counted x \<longrightarrow> same_target family a (the (pr_target x))))
    \<and> (if family = ''evm'' then map_of (setResponseHeadHeaders family xs) ''X-RPC-Head-Hash'' = Some (Hash a)
       else map_of (setResponseHeadHeaders family xs) ''X-RPC-Head-Slot'' = Some (show_u64 (Number a)))
    \<and> (family = ''evm'' \<and> v = ''exact-block-hash'' \<longrightarrow> (\<forall>x \<in> set xs. counted x \<longrightarrow> \<not> receiptLookup x \<and> \<not> boundaryChecked x))
    \<and> (family = ''evm'' \<and> v = ''pinned-head-ceiling'' \<longrightarrow> (\<forall>x \<in> set xs. counted x \<longrightarrow> receiptLookup x \<and> \<not> boundaryChecked x))"
  using assms
proof (cases rule: headers_cases)
  case (1 st a)
  note flags = scan_heads_flags [OF 1(1), simplified] and heads = scan_heads_head [OF 1(1), simplified]
  have "\<exists>x \<in> set xs. counted x \<and> pr_target x = Some a" using heads 1(2) by auto
  moreover have "same_target family a (the (pr_target x))" if x: "x \<in> set xs" "counted x" for x
  proof -
    obtain t where t: "pr_target x = Some t" using x(2) by (auto simp: counted_def)
    then show ?thesis using heads [THEN conjunct1, THEN spec, of t] x 1(2) by auto
  qed
  ultimately show ?thesis
    using flags 1(3-6) by (intro exI [of _ a]) (auto split: if_splits)
qed

theorem headers_truthful_witness:
  "map_of (setResponseHeadHeaders ''evm'' [(plain_response (Success None None))\<lparr>pr_target := Some (zero_head\<lparr>Hash := ''x''\<rparr>)\<rparr>])
     ''X-RPC-Consistency'' = Some ''exact-block-hash'' \<and>
   map_of (setResponseHeadHeaders ''evm'' [(plain_response (Success None None))\<lparr>pr_target := Some (zero_head\<lparr>Hash := ''x''\<rparr>)\<rparr>])
     ''X-RPC-Head-Hash'' = Some ''x''"
proof -
  let ?xs = "[(plain_response (Success None None))\<lparr>pr_target := Some (zero_head\<lparr>Hash := ''x''\<rparr>)\<rparr>]"
  have v: "map_of (setResponseHeadHeaders ''evm'' ?xs) ''X-RPC-Consistency'' = Some ''exact-block-hash''"
    by (simp add: setResponseHeadHeaders_def consistency_def)
  from headers_truthful [OF v] show ?thesis using v by auto
qed

subsection \<open>Construction\<close>

text \<open>The receipt verifiers: their depth for each EVM chain.\<close>

definition receipt_verifiers :: "(string \<Rightarrow> runtime option) \<Rightarrow> string \<Rightarrow> int option" where
  "receipt_verifiers runtimes chainName =
     (case runtimes chainName of
        None \<Rightarrow> None
      | Some r \<Rightarrow> if cc_Family (rt_Config r) = ''evm'' then Some (ReorgDepth (rt_Config r)) else None)"

end
