(* ===== verification/Upstream.thy ===== *)
theory Upstream
  imports Runtime Complex_Main
begin

text \<open>
  The client of one upstream node, \<^verbatim>\<open>internal/upstream/client.go\<close>: the call with its circuit breaker, the
  checks of the reply's envelope, the health record and the redaction of error texts. The HTTP
  transport is a parameter: what a POST comes to, as a function of the world. A \<^verbatim>\<open>float64\<close> is a rational
  number, and every arithmetic operation on it is the exact result under the rounding \<open>rnd\<close>. The
  header map is a list in the order of its iteration. Metrics and spans are left out.
\<close>

subsection \<open>State\<close>

record client =
  c_ID :: string
  HTTPURL :: string
  WebsocketURL :: string
  c_Headers :: "(string \<times> string) list"
  c_Family :: string
  c_Chain :: string

definition NewClient :: "UpstreamConfig \<Rightarrow> string \<Rightarrow> string \<Rightarrow> client" where
  "NewClient cfg chain family = \<lparr>c_ID = up_ID cfg, HTTPURL = up_HTTPURL cfg, WebsocketURL = up_WebsocketURL cfg,
     c_Headers = up_Headers cfg, c_Family = family, c_Chain = chain\<rparr>"

record health_state =
  latencyEWMA :: duration
  successEWMA :: rat
  failures :: nat
  openUntil :: time
  lastError :: string

record client_state =
  health :: health_state
  requestID :: u64
  eip1898 :: bool
  unsupported :: "string list"
  pinnedMethods :: "(string \<times> bool) list"

definition new_client_state :: client_state where
  "new_client_state = \<lparr>health = \<lparr>latencyEWMA = 0, successEWMA = 0, failures = 0, openUntil = 0, lastError = []\<rparr>,
     requestID = 0, eip1898 = False, unsupported = [], pinnedMethods = []\<rparr>"

definition SupportsEIP1898 :: "client_state \<Rightarrow> bool" where
  "SupportsEIP1898 st = eip1898 st"

definition SetEIP1898 :: "bool \<Rightarrow> client_state \<Rightarrow> client_state" where
  "SetEIP1898 b st = st\<lparr>eip1898 := b\<rparr>"

definition SetPinnedMethod :: "string \<Rightarrow> bool \<Rightarrow> client_state \<Rightarrow> client_state" where
  "SetPinnedMethod meth b st = st\<lparr>pinnedMethods := map_set meth b (pinnedMethods st)\<rparr>"

definition SupportsPinnedMethod :: "string \<Rightarrow> client_state \<Rightarrow> bool" where
  "SupportsPinnedMethod meth st \<longleftrightarrow> map_of (pinnedMethods st) meth = Some True"

definition SupportsMethod :: "string \<Rightarrow> client_state \<Rightarrow> bool" where
  "SupportsMethod meth st \<longleftrightarrow> meth \<notin> set (unsupported st)"

definition MarkMethodUnsupported :: "string \<Rightarrow> client_state \<Rightarrow> client_state" where
  "MarkMethodUnsupported meth st = st\<lparr>unsupported := List.insert meth (unsupported st)\<rparr>"

subsection \<open>Health\<close>

definition Healthy :: "time \<Rightarrow> health_state \<Rightarrow> bool" where
  "Healthy now hs \<longleftrightarrow> now > openUntil hs"

text \<open>The conversion of a float to an integer drops the fraction.\<close>

definition float_to_int :: "rat \<Rightarrow> int" where
  "float_to_int x = (if x < 0 then \<lceil>x\<rceil> else \<lfloor>x\<rfloor>)"

definition Score :: "(rat \<Rightarrow> rat) \<Rightarrow> health_state \<Rightarrow> duration" where
  "Score rnd hs =
     (let latency = (if latencyEWMA hs = 0 then Second else latencyEWMA hs);
          successRate = (if successEWMA hs < rnd (1 / 10) then rnd (1 / 10) else successEWMA hs)
      in float_to_int (rnd (rnd (of_int latency) / successRate)))"

definition recordSuccess :: "(rat \<Rightarrow> rat) \<Rightarrow> duration \<Rightarrow> health_state \<Rightarrow> health_state" where
  "recordSuccess rnd elapsed hs =
     hs\<lparr>latencyEWMA := (if latencyEWMA hs = 0 then elapsed
          else go_quot (int64 (int64 (latencyEWMA hs * 8) + int64 (elapsed * 2))) 10),
        successEWMA := (if successEWMA hs = 0 then 1 else rnd (rnd (successEWMA hs * rnd (9 / 10)) + rnd (1 / 10))),
        failures := 0, lastError := [], openUntil := 0\<rparr>"

subsection \<open>Redaction\<close>

text \<open>\<^verbatim>\<open>strings.ReplaceAll\<close>; an empty pattern matches before every byte and at the end.\<close>

function ReplaceAll :: "string \<Rightarrow> string \<Rightarrow> string \<Rightarrow> string" where
  "ReplaceAll old new s =
     (if old = [] then new @ concat (map (\<lambda>c. c # new) s)
      else if s = [] then []
      else if HasPrefix s old then new @ ReplaceAll old new (drop (length old) s)
      else hd s # ReplaceAll old new (tl s))"
  by pat_completeness auto
termination by (relation "measure (\<lambda>(old, new, s). length s)") auto

declare ReplaceAll.simps [simp del]

text \<open>\<^verbatim>\<open>strings.Index\<close>.\<close>

fun index_of :: "string \<Rightarrow> string \<Rightarrow> nat option" where
  "index_of sub [] = (if sub = [] then Some 0 else None)"
| "index_of sub (c # s) = (if HasPrefix (c # s) sub then Some 0 else map_option Suc (index_of sub s))"

definition markers :: "string list" where
  "markers = [''api_key='', ''apikey='', ''token='', ''key='']"

fun cut_marker :: "string list \<Rightarrow> string \<Rightarrow> string" where
  "cut_marker [] msg = msg"
| "cut_marker (marker # rest) msg =
     (case index_of marker (ToLower msg) of
        Some i \<Rightarrow> take i msg @ marker @ ''[REDACTED]''
      | None \<Rightarrow> cut_marker rest msg)"

definition redact_headers :: "(string \<times> string) list \<Rightarrow> string \<Rightarrow> string" where
  "redact_headers headers msg =
     fold (\<lambda>(_, credential) m. if credential \<noteq> [] then ReplaceAll credential ''[REDACTED]'' m else m) headers msg"

definition sanitizeError :: "client \<Rightarrow> string \<Rightarrow> string" where
  "sanitizeError c msg = cut_marker markers (redact_headers (c_Headers c) (ReplaceAll (HTTPURL c) ''[REDACTED_URL]'' msg))"

definition recordFailure :: "(rat \<Rightarrow> rat) \<Rightarrow> client \<Rightarrow> time \<Rightarrow> string \<Rightarrow> health_state \<Rightarrow> health_state" where
  "recordFailure rnd c now err hs =
     (let hs1 = hs\<lparr>failures := failures hs + 1,
            successEWMA := (if successEWMA hs = 0 then 1 / 2 else rnd (successEWMA hs * rnd (9 / 10))),
            lastError := sanitizeError c err\<rparr>
      in if failures hs1 \<ge> 5 then hs1\<lparr>openUntil := now + 10 * Second, failures := 0\<rparr> else hs1)"

record client_status =
  st_ID :: string
  st_Healthy :: bool
  st_LatencyEWMA :: duration
  st_LastError :: string
  st_EIP1898 :: bool
  st_SuccessRate :: rat
  st_Unsupported :: "string list"
  st_PinnedMethods :: "string list"

definition Status :: "client \<Rightarrow> time \<Rightarrow> client_state \<Rightarrow> client_status" where
  "Status c now st = \<lparr>st_ID = c_ID c, st_Healthy = Healthy now (health st), st_LatencyEWMA = latencyEWMA (health st),
     st_LastError = lastError (health st), st_EIP1898 = eip1898 st, st_SuccessRate = successEWMA (health st),
     st_Unsupported = sort (unsupported st), st_PinnedMethods = sort (map fst (filter snd (pinnedMethods st)))\<rparr>"

subsection \<open>The reply's envelope\<close>

text \<open>An \<^verbatim>\<open>int\<close> member: the literal of an integer that fits in 64 bits.\<close>

definition ParseInt :: "string \<Rightarrow> int option" where
  "ParseInt t =
     (case t of
        [] \<Rightarrow> None
      | c # ds \<Rightarrow>
          (let negative = c = CHR ''-''; digits = (if negative then ds else t) in
           case ParseUint 10 digits of
             Inl _ \<Rightarrow> None
           | Inr n \<Rightarrow>
               if negative then (if unat n \<le> 2 ^ 63 then Some (- int (unat n)) else None)
               else if unat n < 2 ^ 63 then Some (int (unat n)) else None))"

fun decode_int :: "int \<Rightarrow> json \<Rightarrow> int option" where
  "decode_int n JNull = Some n"
| "decode_int n (JNum t) = ParseInt t"
| "decode_int n _ = None"

text \<open>Decoding into \<^verbatim>\<open>any\<close> fails on a number beyond the range of a float only.\<close>

fun any_ok :: "(string \<Rightarrow> bool) \<Rightarrow> json \<Rightarrow> bool" where
  "any_ok in_range (JNum t) \<longleftrightarrow> in_range t"
| "any_ok in_range (JArr vs) \<longleftrightarrow> list_all (any_ok in_range) vs"
| "any_ok in_range (JObj ms) \<longleftrightarrow> list_all (\<lambda>m. any_ok in_range (snd m)) ms"
| "any_ok in_range _ \<longleftrightarrow> True"

definition decode_any :: "(string \<Rightarrow> bool) \<Rightarrow> raw \<Rightarrow> json \<Rightarrow> raw option" where
  "decode_any in_range d v = (if \<not> any_ok in_range v then None else if v = JNull then Some None else Some (Some v))"

definition zero_error :: rpc_error where
  "zero_error = \<lparr>Code = 0, Message = [], Data = None\<rparr>"

fun decode_error :: "(string \<Rightarrow> bool) \<Rightarrow> rpc_error option \<Rightarrow> json \<Rightarrow> rpc_error option option" where
  "decode_error in_range e JNull = Some None"
| "decode_error in_range e (JObj ms) =
     (let base = (case e of None \<Rightarrow> zero_error | Some b \<Rightarrow> b) in
      Option.bind (fold_field decode_int (Code base) (struct_values ''code'' ms)) (\<lambda>code.
      Option.bind (fold_field decode_string (Message base) (struct_values ''message'' ms)) (\<lambda>msg.
      Option.bind (fold_field (decode_any in_range) (Data base) (struct_values ''data'' ms)) (\<lambda>d.
        Some (Some \<lparr>Code = code, Message = msg, Data = d\<rparr>)))))"
| "decode_error in_range e _ = None"

record reply_envelope =
  re_JSONRPC :: string
  re_ID :: raw
  re_Result :: raw
  re_Error :: "rpc_error option"

definition unmarshal_reply :: "(string \<Rightarrow> bool) \<Rightarrow> json \<Rightarrow> reply_envelope option" where
  "unmarshal_reply in_range v =
     Option.bind (struct_members v) (\<lambda>ms.
     Option.bind (string_field ''jsonrpc'' ms) (\<lambda>version.
     Option.bind (raw_field ''id'' ms) (\<lambda>i.
     Option.bind (raw_field ''result'' ms) (\<lambda>res.
     Option.bind (fold_field (decode_error in_range) None (struct_values ''error'' ms)) (\<lambda>e.
       Some \<lparr>re_JSONRPC = version, re_ID = i, re_Result = res, re_Error = e\<rparr>)))))"

subsection \<open>The call\<close>

datatype http_body = ReadError string | Oversized | Unparsable string | Parsed json

datatype http_outcome = InvalidEndpoint | SendError string | HTTPAnswer int http_body

record 'w net =
  net_now :: "'w \<Rightarrow> time"
  net_slot :: "string \<Rightarrow> 'w \<Rightarrow> string option \<times> 'w"
  net_post :: "string \<Rightarrow> (string \<times> string) list \<Rightarrow> json \<Rightarrow> 'w \<Rightarrow> http_outcome \<times> 'w"
  net_type_error :: "json \<Rightarrow> string"
  net_in_range :: "string \<Rightarrow> bool"

definition show_int :: "int \<Rightarrow> string" where
  "show_int n = (if n < 0 then CHR ''-'' # format_uint 10 (nat (- n)) else format_uint 10 (nat n))"

text \<open>An error is the text recorded in the health state and the text returned.\<close>

definition check_reply :: "u64 \<Rightarrow> reply_envelope \<Rightarrow> string option" where
  "check_reply i e =
     (if re_JSONRPC e \<noteq> Version then Some ''invalid jsonrpc version from upstream''
      else if re_ID e \<noteq> Some (JNum (show_u64 i)) then Some ''upstream returned a mismatched jsonrpc id''
      else if (re_Result e \<noteq> None) = (re_Error e \<noteq> None)
        \<or> (case re_Error e of None \<Rightarrow> False | Some x \<Rightarrow> Message x = [])
      then Some ''upstream must return exactly one result or valid error''
      else None)"

definition read_reply :: "'w net \<Rightarrow> u64 \<Rightarrow> int \<Rightarrow> http_body \<Rightarrow> (string \<times> string) + rpc_response" where
  "read_reply net i status body =
     (if status < 200 \<or> status \<ge> 300
      then (let t = ''upstream http status '' @ show_int status in Inl (t, t))
      else
        (case body of
           ReadError e \<Rightarrow> (let t = ''read upstream response: '' @ e in Inl (t, t))
         | Oversized \<Rightarrow> Inl (''upstream response exceeds limit'', ''upstream response exceeds limit'')
         | Unparsable e \<Rightarrow> Inl (e, ''decode upstream response: '' @ e)
         | Parsed v \<Rightarrow>
             (case unmarshal_reply (net_in_range net) v of
                None \<Rightarrow> Inl (net_type_error net v, ''decode upstream response: '' @ net_type_error net v)
              | Some e \<Rightarrow>
                  (case check_reply i e of
                     Some t \<Rightarrow> Inl (t, t)
                   | None \<Rightarrow> Inr \<lparr>Result = re_Result e, Err = re_Error e\<rparr>))))"

definition request_body :: "u64 \<Rightarrow> string \<Rightarrow> raw \<Rightarrow> json" where
  "request_body i meth parameters = JObj [(''jsonrpc'', JStr Version), (''id'', JNum (show_u64 i)), (''method'', JStr meth),
     (''params'', case parameters of None \<Rightarrow> JArr [] | Some v \<Rightarrow> v)]"

definition request_headers :: "client \<Rightarrow> (string \<times> string) list" where
  "request_headers c = (''Content-Type'', ''application/json'') # c_Headers c"

definition Call :: "(rat \<Rightarrow> rat) \<Rightarrow> 'w net \<Rightarrow> client \<Rightarrow> string \<Rightarrow> raw \<Rightarrow> client_state \<times> 'w \<Rightarrow>
    (string + rpc_response) \<times> client_state \<times> 'w" where
  "Call rnd net c meth parameters = (\<lambda>(st, w).
     if \<not> Healthy (net_now net w) (health st) then (Inl ''upstream circuit is open'', st, w)
     else
       (case net_slot net (c_ID c) w of
          (Some e, w1) \<Rightarrow> (Inl e, st, w1)
        | (None, w1) \<Rightarrow>
            let i = requestID st + 1; st1 = st\<lparr>requestID := i\<rparr> in
            (case net_post net (HTTPURL c) (request_headers c) (request_body i meth parameters) w1 of
               (InvalidEndpoint, w2) \<Rightarrow> (Inl ''create upstream request: invalid endpoint'', st1, w2)
             | (SendError e, w2) \<Rightarrow>
                 let t = ''send upstream request: '' @ e in
                 (Inl t, st1\<lparr>health := recordFailure rnd c (net_now net w2) t (health st1)\<rparr>, w2)
             | (HTTPAnswer status body, w2) \<Rightarrow>
                 (case read_reply net i status body of
                    Inl (recorded, returned) \<Rightarrow>
                      (Inl returned, st1\<lparr>health := recordFailure rnd c (net_now net w2) recorded (health st1)\<rparr>, w2)
                  | Inr resp \<Rightarrow>
                      (Inr resp, st1\<lparr>health := recordSuccess rnd (time_sub (net_now net w2) (net_now net w1)) (health st1)\<rparr>, w2)))))"

subsection \<open>The clients of a chain as the environment of its runtime\<close>

definition client_env :: "(rat \<Rightarrow> rat) \<Rightarrow> 'w net \<Rightarrow> (string \<Rightarrow> client) \<Rightarrow> ((string \<Rightarrow> client_state) \<times> 'w) node_env" where
  "client_env rnd net clients =
     \<lparr>now_of = (\<lambda>(sts, w). net_now net w),
      node_call = (\<lambda>i meth ps (sts, w).
        case Call rnd net (clients i) meth (Some ps) (sts i, w) of (x, st, w1) \<Rightarrow> (x, sts(i := st), w1)),
      node_healthy = (\<lambda>i (sts, w). Healthy (net_now net w) (health (sts i))),
      node_score = (\<lambda>i (sts, w). Score rnd (health (sts i))),
      node_eip1898 = (\<lambda>i (sts, w). SupportsEIP1898 (sts i)),
      node_pinned = (\<lambda>i meth (sts, w). SupportsPinnedMethod meth (sts i)),
      set_eip1898 = (\<lambda>i b (sts, w). (sts(i := SetEIP1898 b (sts i)), w)),
      set_pinned = (\<lambda>i meth b (sts, w). (sts(i := SetPinnedMethod meth b (sts i)), w)),
      node_supports = (\<lambda>i meth (sts, w). SupportsMethod meth (sts i)),
      mark_unsupported = (\<lambda>i meth (sts, w). (sts(i := MarkMethodUnsupported meth (sts i)), w))\<rparr>"

subsection \<open>What a call returns\<close>

lemma check_reply_None:
  "check_reply i e = None \<longleftrightarrow> re_JSONRPC e = Version \<and> re_ID e = Some (JNum (show_u64 i))
     \<and> (re_Result e = None \<longleftrightarrow> re_Error e \<noteq> None) \<and> (\<forall>x. re_Error e = Some x \<longrightarrow> Message x \<noteq> [])"
  by (auto simp: check_reply_def split: option.splits)

lemma read_reply_Inr:
  assumes "read_reply net i status body = Inr resp"
  shows "\<exists>v e. body = Parsed v \<and> 200 \<le> status \<and> status < 300 \<and> unmarshal_reply (net_in_range net) v = Some e
    \<and> check_reply i e = None \<and> resp = \<lparr>Result = re_Result e, Err = re_Error e\<rparr>"
  using assms by (auto simp: read_reply_def Let_def split: if_splits http_body.splits option.splits)

text \<open>A call ends before the request, fails, or succeeds.\<close>

lemma Call_cases:
  assumes "Call rnd net c meth ps (st, w) = (x, st', w')"
  obtains (unsent) e where "x = Inl e" "health st' = health st" "requestID st' = requestID st \<or> requestID st' = requestID st + 1"
  | (failed) e t now where "x = Inl e" "health st' = recordFailure rnd c now t (health st)" "requestID st' = requestID st + 1"
      "Healthy (net_now net w) (health st)"
  | (answered) resp status v e w1 d where "x = Inr resp"
      "net_post net (HTTPURL c) (request_headers c) (request_body (requestID st + 1) meth ps) w1 = (HTTPAnswer status (Parsed v), w')"
      "200 \<le> status" "status < 300" "unmarshal_reply (net_in_range net) v = Some e" "check_reply (requestID st + 1) e = None"
      "resp = \<lparr>Result = re_Result e, Err = re_Error e\<rparr>" "health st' = recordSuccess rnd d (health st)"
      "requestID st' = requestID st + 1" "Healthy (net_now net w) (health st)"
proof (cases "Healthy (net_now net w) (health st)")
  case False
  then show thesis using assms unsent by (auto simp: Call_def)
next
  case up: True
  obtain slot w1 where slot: "net_slot net (c_ID c) w = (slot, w1)" by (cases "net_slot net (c_ID c) w")
  show thesis
  proof (cases slot)
    case (Some e)
    then show thesis using assms up slot unsent by (auto simp: Call_def)
  next
    case None
    obtain out w2 where out: "net_post net (HTTPURL c) (request_headers c) (request_body (requestID st + 1) meth ps) w1 = (out, w2)"
      by (cases "net_post net (HTTPURL c) (request_headers c) (request_body (requestID st + 1) meth ps) w1")
    show thesis
    proof (cases out)
      case InvalidEndpoint
      then show thesis using assms up slot None out unsent by (auto simp: Call_def Let_def)
    next
      case (SendError e)
      then show thesis using assms up slot None out failed by (auto simp: Call_def Let_def)
    next
      case (HTTPAnswer status body)
      show thesis
      proof (cases "read_reply net (requestID st + 1) status body")
        case (Inl p)
        then show thesis using assms up slot None out HTTPAnswer failed by (cases p) (auto simp: Call_def Let_def)
      next
        case (Inr resp)
        from read_reply_Inr [OF this] obtain v e where "body = Parsed v" "200 \<le> status" "status < 300"
          "unmarshal_reply (net_in_range net) v = Some e" "check_reply (requestID st + 1) e = None"
          "resp = \<lparr>Result = re_Result e, Err = re_Error e\<rparr>" by blast
        then show thesis using assms up slot None out HTTPAnswer Inr answered
          by (auto simp: Call_def Let_def)
      qed
    qed
  qed
qed

text \<open>
  A call that returns an answer returns exactly one of a result and an error with a
  message; the answer is the body of a successful HTTP reply to this call's own request: protocol
  version 2.0, under the identifier that the request carried; and the call closes the circuit.
\<close>

theorem call_answers_own_request:
  assumes "Call rnd net c meth ps (st, w) = (Inr resp, st', w')"
  shows "(Result resp = None \<longleftrightarrow> Err resp \<noteq> None) \<and> (\<forall>x. Err resp = Some x \<longrightarrow> Message x \<noteq> [])
    \<and> (\<exists>status v e w1. net_post net (HTTPURL c) (request_headers c) (request_body (requestID st + 1) meth ps) w1 =
          (HTTPAnswer status (Parsed v), w')
        \<and> 200 \<le> status \<and> status < 300 \<and> unmarshal_reply (net_in_range net) v = Some e \<and> re_JSONRPC e = Version
        \<and> re_ID e = Some (JNum (show_u64 (requestID st + 1))) \<and> Result resp = re_Result e \<and> Err resp = re_Error e)
    \<and> requestID st' = requestID st + 1 \<and> failures (health st') = 0 \<and> openUntil (health st') = 0"
  using assms
proof (cases rule: Call_cases)
  case (answered resp' status v e w1 d)
  then show ?thesis unfolding check_reply_None by (auto simp: recordSuccess_def)
qed auto

definition sample_client :: client where
  "sample_client = \<lparr>c_ID = ''a'', HTTPURL = ''u'', WebsocketURL = [], c_Headers = [], c_Family = ''evm'', c_Chain = ''eth''\<rparr>"

definition sample_net :: "unit net" where
  "sample_net = \<lparr>net_now = (\<lambda>_. 1), net_slot = (\<lambda>_ w. (None, w)),
     net_post = (\<lambda>_ _ req w. (HTTPAnswer 200 (Parsed (JObj [(''jsonrpc'', JStr Version), (''id'', JNum (show_u64 1)),
       (''result'', JStr ''0x1'')])), w)), net_type_error = (\<lambda>_. []), net_in_range = (\<lambda>_. True)\<rparr>"

lemma sample_call:
  "Call rnd sample_net sample_client ''m'' ps (new_client_state, ()) =
     (Inr \<lparr>Result = Some (JStr ''0x1''), Err = None\<rparr>,
      new_client_state\<lparr>requestID := 1, health := recordSuccess rnd 0 (health new_client_state)\<rparr>, ())"
  by (simp add: Call_def sample_net_def new_client_state_def Healthy_def read_reply_def unmarshal_reply_def string_field_def
      raw_field_def struct_values_def EqualFold_def ToLower_def to_lower_def decode_raw_def check_reply_def time_sub_def
      max_duration_def Let_def)

theorem call_answers_own_request_witness:
  "\<exists>resp st'. Call id sample_net sample_client ''m'' None (new_client_state, ()) = (Inr resp, st', ()) \<and>
     Err resp = None \<and> Result resp \<noteq> None \<and> failures (health st') = 0"
  using call_answers_own_request [OF sample_call [of id None]] sample_call [of id None] by simp

subsection \<open>The circuit breaker\<close>

text \<open>What a client records, and the failures since the last success.\<close>

datatype outcome = Good duration | Bad time string

fun record_outcome :: "(rat \<Rightarrow> rat) \<Rightarrow> client \<Rightarrow> outcome \<Rightarrow> health_state \<Rightarrow> health_state" where
  "record_outcome rnd c (Good d) hs = recordSuccess rnd d hs"
| "record_outcome rnd c (Bad t e) hs = recordFailure rnd c t e hs"

definition record_outcomes :: "(rat \<Rightarrow> rat) \<Rightarrow> client \<Rightarrow> outcome list \<Rightarrow> health_state \<Rightarrow> health_state" where
  "record_outcomes rnd c outs hs = fold (record_outcome rnd c) outs hs"

fun failed_at :: "outcome \<Rightarrow> time list \<Rightarrow> time list" where
  "failed_at (Good d) ts = []"
| "failed_at (Bad t e) ts = ts @ [t]"

definition failures_since :: "outcome list \<Rightarrow> time list" where
  "failures_since outs = fold failed_at outs []"

lemma record_failure_count:
  "failures (recordFailure rnd c t e hs) = (if failures hs \<ge> 4 then 0 else failures hs + 1)"
  "openUntil (recordFailure rnd c t e hs) = (if failures hs \<ge> 4 then t + 10 * Second else openUntil hs)"
  by (auto simp: recordFailure_def Let_def)

lemma record_success_count:
  "failures (recordSuccess rnd d hs) = 0" "openUntil (recordSuccess rnd d hs) = 0"
  by (simp_all add: recordSuccess_def)

definition circuit :: "time list \<Rightarrow> nat \<times> time" where
  "circuit ts = (length ts mod 5, if length ts < 5 then 0 else ts ! (5 * (length ts div 5) - 1) + 10 * Second)"

lemma circuit_snoc:
  "circuit (ts @ [t]) = (if fst (circuit ts) \<ge> 4 then (0, t + 10 * Second) else (fst (circuit ts) + 1, snd (circuit ts)))"
proof -
  define n where "n = length ts"
  define q where "q = n div 5"
  define m where "m = n mod 5"
  have n: "n = 5 * q + m" "m < 5" by (simp_all add: q_def m_def)
  show ?thesis
  proof (cases "m = 4")
    case True
    then have "(n + 1) mod 5 = 0" "(n + 1) div 5 = q + 1" using n by simp_all
    then show ?thesis using True n
      by (simp add: circuit_def nth_append flip: n_def m_def)
  next
    case False
    then have "(n + 1) mod 5 = m + 1" "(n + 1) div 5 = q" using n by simp_all
    moreover have "n \<ge> 5 \<Longrightarrow> 5 * q - 1 < n" using n by simp
    moreover have "n + 1 < 5 \<longleftrightarrow> n < 5" using False n by (cases q) auto
    ultimately show ?thesis using False n
      by (simp add: circuit_def nth_append flip: n_def m_def q_def)
  qed
qed

lemma record_outcomes_circuit:
  "(failures (record_outcomes rnd c outs (health new_client_state)), openUntil (record_outcomes rnd c outs (health new_client_state)))
     = circuit (failures_since outs)"
proof (induction outs rule: rev_induct)
  case Nil
  then show ?case by (simp add: record_outcomes_def failures_since_def circuit_def new_client_state_def)
next
  case (snoc out outs)
  let ?hs = "record_outcomes rnd c outs (health new_client_state)"
  from snoc have IH: "fst (circuit (failures_since outs)) = failures ?hs" "snd (circuit (failures_since outs)) = openUntil ?hs"
    by (metis fst_conv, metis snd_conv)
  show ?case
  proof (cases out)
    case (Good d)
    then show ?thesis
      by (simp add: record_outcomes_def failures_since_def record_success_count circuit_def)
  next
    case (Bad t e)
    have "failures_since (outs @ [out]) = failures_since outs @ [t]" by (simp add: Bad failures_since_def)
    moreover have "record_outcomes rnd c (outs @ [out]) (health new_client_state) = recordFailure rnd c t e ?hs"
      by (simp add: Bad record_outcomes_def)
    ultimately show ?thesis by (simp only: circuit_snoc IH record_failure_count split: if_split) simp
  qed
qed

lemma Call_records:
  assumes "Call rnd net c meth ps (st, w) = (x, st', w')"
  shows "\<exists>outs. length outs \<le> 1 \<and> health st' = record_outcomes rnd c outs (health st)"
  using assms
proof (cases rule: Call_cases)
  case (unsent e)
  then show ?thesis by (intro exI [of _ "[]"]) (simp add: record_outcomes_def)
next
  case (failed e t now)
  then show ?thesis by (intro exI [of _ "[Bad now t]"]) (simp add: record_outcomes_def)
next
  case (answered resp status v e w1 d)
  then show ?thesis by (intro exI [of _ "[Good d]"]) (simp add: record_outcomes_def)
qed

text \<open>
  Property C39. The circuit breaker. Whatever outcomes a client recorded, its counter is the number of
  failures since the last success modulo 5, and the circuit is open for 10 seconds from the last
  failure in that row whose position is a multiple of 5, and closed without such a failure. Every call
  records at most one outcome, and while the circuit is open a call fails without sending anything and
  without changing any state.
\<close>

theorem circuit_breaker:
  assumes "health st = record_outcomes rnd c outs (health new_client_state)"
  shows "(let ts = failures_since outs in failures (health st) = length ts mod 5 \<and>
      openUntil (health st) = (if length ts < 5 then 0 else ts ! (5 * (length ts div 5) - 1) + 10 * Second))
    \<and> (\<exists>more. length more \<le> 1 \<and>
        health (fst (snd (Call rnd net c meth ps (st, w)))) = record_outcomes rnd c (outs @ more) (health new_client_state))
    \<and> (net_now net w \<le> openUntil (health st) \<longrightarrow>
        Call rnd net c meth ps (st, w) = (Inl ''upstream circuit is open'', st, w))"
proof -
  obtain x st' w' where call: "Call rnd net c meth ps (st, w) = (x, st', w')" by (cases "Call rnd net c meth ps (st, w)")
  from Call_records [OF call] obtain more where "length more \<le> 1" "health st' = record_outcomes rnd c more (health st)" by blast
  then have "\<exists>more. length more \<le> 1 \<and> health st' = record_outcomes rnd c (outs @ more) (health new_client_state)"
    using assms by (intro exI [of _ more]) (simp add: record_outcomes_def)
  moreover have "net_now net w \<le> openUntil (health st) \<Longrightarrow> Call rnd net c meth ps (st, w) = (Inl ''upstream circuit is open'', st, w)"
    by (simp add: Call_def Healthy_def)
  ultimately show ?thesis
    using record_outcomes_circuit [of rnd c outs] call by (simp add: assms circuit_def Let_def)
qed

theorem circuit_breaker_witness:
  "Call id sample_net sample_client ''m'' None
     (new_client_state\<lparr>health := record_outcomes id sample_client (replicate 5 (Bad 1 [])) (health new_client_state)\<rparr>, ())
   = (Inl ''upstream circuit is open'',
      new_client_state\<lparr>health := record_outcomes id sample_client (replicate 5 (Bad 1 [])) (health new_client_state)\<rparr>, ())"
proof -
  let ?st = "new_client_state\<lparr>health := record_outcomes id sample_client (replicate 5 (Bad 1 [])) (health new_client_state)\<rparr>"
  have st: "health ?st = record_outcomes id sample_client (replicate 5 (Bad 1 [])) (health new_client_state)" by simp
  have since: "failures_since (replicate 5 (Bad 1 [])) = replicate 5 1"
    by (simp add: failures_since_def eval_nat_numeral)
  note breaker = circuit_breaker [OF st, where net = sample_net and meth = "''m''" and ps = None and w = "()"]
  have "openUntil (health ?st) = 1 + 10 * Second" using breaker [THEN conjunct1] unfolding since by (simp add: Let_def)
  moreover have "net_now sample_net () = 1" by (simp add: sample_net_def)
  ultimately show ?thesis using breaker by (simp add: duration_defs)
qed

subsection \<open>Redaction stops at one marker\<close>

lemma ReplaceAll_absent: "old \<noteq> [] \<Longrightarrow> hd old \<notin> set s \<Longrightarrow> ReplaceAll old new s = s"
proof (induction s)
  case (Cons c s)
  then have "\<not> HasPrefix (c # s) old" by (cases old) (auto simp: HasPrefix_def)
  then show ?case using Cons by (simp add: ReplaceAll.simps [of old new "c # s"])
qed (simp add: ReplaceAll.simps)

text \<open>
  The markers are tried in the order of the list, not of the text, and the text before the first one
  found is kept, so a secret after another marker stays in the recorded error.
\<close>

lemma sanitize_keeps_earlier_secret:
  "sanitizeError sample_client ''token=s api_key=k'' = ''token=s api_key=[REDACTED]''"
proof -
  have "ReplaceAll (HTTPURL sample_client) ''[REDACTED_URL]'' ''token=s api_key=k'' = ''token=s api_key=k''"
    by (rule ReplaceAll_absent) (simp_all add: sample_client_def)
  then show ?thesis
    by (simp add: sanitizeError_def redact_headers_def sample_client_def markers_def ToLower_def to_lower_def HasPrefix_def)
qed

end
