(* ===== verification/Memory_Store.thy ===== *)
theory Memory_Store
  imports Head_Store
begin

text \<open>
  The memory store as a provider of the store's contract: the steps of its operations, the
  interpretation of \<open>fenced_store\<close>, the invariant on generations and events, the fencing of
  leases, and the completeness of the event stream.
\<close>

fun mem_step :: "time \<Rightarrow> store_op \<Rightarrow> mem_store \<Rightarrow> mem_store" where
  "mem_step now (OpAcquire chain owner ttl) m = snd (Acquire now chain owner ttl m)"
| "mem_step now (OpRenew chain tok ttl) m = snd (Renew now chain tok ttl m)"
| "mem_step now (OpRelease chain tok) m = Release chain tok m"
| "mem_step now (OpPublish tok h) m = snd (Publish now tok h m)"
| "mem_step now (OpBeginReorg chain tok) m = snd (BeginReorg now chain tok m)"

abbreviation mem_run :: "(time \<times> store_op) list \<Rightarrow> mem_store \<Rightarrow> mem_store" where
  "mem_run \<equiv> store_run mem_step"

abbreviation mem_accepted :: "mem_store \<Rightarrow> string \<Rightarrow> head option" where
  "mem_accepted m c \<equiv> m_heads m c Latest"

subsection \<open>The reorg fence\<close>

lemma Publish_cases:
  assumes "Publish now tok h m = (r, m')"
  obtains (lost) "r = Inl ErrLeadershipLost" "m' = m"
    "token (leader_of m (Chain h)) \<noteq> tok \<or> now > expires (leader_of m (Chain h))"
  | (fenced) "r = Inl ErrReorgFence" "m' = m" "Family h = ''evm''" "Commitment h = Latest"
    "ReorgPending h \<or> ReorgEpoch h \<noteq> ReorgEpoch (or_zero (m_heads m (Chain h) Latest))"
  | (same) p h' where "r = Inr h'" "m' = put_head h' m" "m_heads m (Chain h) (Commitment h) = Some p"
    "Identity p = Identity h" "h' = h\<lparr>Generation := Generation p, ChangedAt := ChangedAt p\<rparr>"
    "Family h = ''evm'' \<and> Commitment h = Latest \<longrightarrow> \<not> ReorgPending h \<and> ReorgEpoch h = ReorgEpoch p"
  | (fresh) h' where "r = Inr h'"
    "m' = put_head h' (add_event h' (m\<lparr>m_gen := (m_gen m)(Chain h := m_gen m (Chain h) + 1)\<rparr>))"
    "h' = h\<lparr>ChangedAt := (if IsZeroTime (ChangedAt h) then ObservedAt h else ChangedAt h),
            Generation := m_gen m (Chain h) + 1\<rparr>"
    "Family h = ''evm'' \<and> Commitment h = Latest \<longrightarrow>
       \<not> ReorgPending h \<and> ReorgEpoch h = ReorgEpoch (or_zero (m_heads m (Chain h) Latest))"
proof -
  let ?e = "m_heads m (Chain h) (Commitment h)"
  let ?same = "h\<lparr>Generation := Generation (or_zero ?e), ChangedAt := ChangedAt (or_zero ?e)\<rparr>"
  let ?new = "h\<lparr>ChangedAt := (if IsZeroTime (ChangedAt h) then ObservedAt h else ChangedAt h),
            Generation := m_gen m (Chain h) + 1\<rparr>"
  have new: "(if IsZeroTime (ChangedAt h) then h\<lparr>ChangedAt := ObservedAt h\<rparr> else h)
      \<lparr>Generation := m_gen m (Chain h) + 1\<rparr> = ?new"
    by simp
  consider (a) "token (leader_of m (Chain h)) \<noteq> tok \<or> now > expires (leader_of m (Chain h))"
    | (b) "\<not> (token (leader_of m (Chain h)) \<noteq> tok \<or> now > expires (leader_of m (Chain h)))"
      "Family h = ''evm'' \<and> Commitment h = Latest \<and> (ReorgPending h \<or> ReorgEpoch h \<noteq> ReorgEpoch (or_zero ?e))"
    | (c) "\<not> (token (leader_of m (Chain h)) \<noteq> tok \<or> now > expires (leader_of m (Chain h)))"
      "\<not> (Family h = ''evm'' \<and> Commitment h = Latest \<and> (ReorgPending h \<or> ReorgEpoch h \<noteq> ReorgEpoch (or_zero ?e)))"
      "?e \<noteq> None \<and> Identity (or_zero ?e) = Identity h"
    | (d) "\<not> (token (leader_of m (Chain h)) \<noteq> tok \<or> now > expires (leader_of m (Chain h)))"
      "\<not> (Family h = ''evm'' \<and> Commitment h = Latest \<and> (ReorgPending h \<or> ReorgEpoch h \<noteq> ReorgEpoch (or_zero ?e)))"
      "\<not> (?e \<noteq> None \<and> Identity (or_zero ?e) = Identity h)"
    by blast
  then show thesis
  proof cases
    case a
    have "(r, m') = (Inl ErrLeadershipLost, m)"
      using assms by (simp only: Publish_def Let_def if_P [OF a])
    with a show thesis by (intro lost) auto
  next
    case b
    have "(r, m') = (Inl ErrReorgFence, m)"
      using assms by (simp only: Publish_def Let_def if_not_P [OF b(1)] if_P [OF b(2)])
    with b show thesis by (intro fenced) auto
  next
    case c
    have "(r, m') = (Inr ?same, put_head ?same m)"
      using assms
      by (simp only: Publish_def Let_def if_not_P [OF c(1)] if_not_P [OF c(2)] if_P [OF c(3)])
    with c show thesis by (intro same [of ?same "or_zero ?e"]) auto
  next
    case d
    have "(r, m') = (Inr ?new, put_head ?new (add_event ?new
        (m\<lparr>m_gen := (m_gen m)(Chain h := m_gen m (Chain h) + 1)\<rparr>)))"
      using assms
      by (simp only: Publish_def Let_def if_not_P [OF d(1)] if_not_P [OF d(2)] if_not_P [OF d(3)] new)
    with d show thesis by (intro fresh [of ?new]) auto
  qed
qed

lemma BeginReorg_cases:
  assumes "BeginReorg now chain tok m = (r, m')"
  obtains (lost) "r = Inl ErrLeadershipLost" "m' = m"
  | (none) "r = Inl ErrReorgFence" "m' = m"
  | (raise) h h' where "m_heads m chain Latest = Some h" "\<not> ReorgPending h"
    "h' = h\<lparr>ReorgEpoch := ReorgEpoch h + 1, ReorgPending := True\<rparr>" "r = Inr h'"
    "m' = m\<lparr>m_heads := (m_heads m)(chain := (m_heads m chain)(Latest \<mapsto> h'))\<rparr>"
  | (pending) h where "m_heads m chain Latest = Some h" "ReorgPending h" "r = Inr h" "m' = m"
proof (cases "token (leader_of m chain) \<noteq> tok \<or> \<not> now < expires (leader_of m chain)")
  case True
  then show thesis using assms lost by (auto simp: BeginReorg_def Let_def)
next
  case leads: False
  show thesis
  proof (cases "m_heads m chain Latest")
    case None
    then show thesis using assms leads none by (auto simp: BeginReorg_def Let_def)
  next
    case (Some h)
    show thesis
    proof (cases "Family h \<noteq> ''evm'' \<or> IsZero h")
      case True
      then show thesis using assms leads none Some by (auto simp: BeginReorg_def Let_def)
    next
      case False
      then show thesis using assms leads Some raise pending
        by (cases "ReorgPending h") (auto simp: BeginReorg_def Let_def)
    qed
  qed
qed

lemma m_heads_add_event [simp]: "m_heads (add_event h m) = m_heads m"
  by (simp add: add_event_def)

lemma mem_accepted_step_other [simp]:
  "m_heads (snd (Acquire now c o' ttl m)) = m_heads m"
  "m_heads (snd (Renew now c tok ttl m)) = m_heads m"
  "m_heads (Release c tok m) = m_heads m"
  by (simp_all add: Acquire_def Renew_def Release_def Let_def)

lemma mem_step_fenced:
  assumes "mem_accepted m c = Some h" "evm_op c op"
  shows "\<exists>h'. mem_accepted (mem_step t op m) c = Some h' \<and> fence_step h h'"
proof (cases op)
  case (OpPublish tok x)
  obtain r m' where pub: "Publish t tok x m = (r, m')" by (cases "Publish t tok x m")
  then show ?thesis
    by (cases rule: Publish_cases)
      (use assms OpPublish pub in \<open>auto simp: put_head_def fence_step_def\<close>)
next
  case (OpBeginReorg chain tok)
  obtain r m' where pub: "BeginReorg t chain tok m = (r, m')" by (cases "BeginReorg t chain tok m")
  then show ?thesis
    by (cases rule: BeginReorg_cases) (use assms OpBeginReorg pub in \<open>auto simp: fence_step_def\<close>)
qed (use assms in \<open>auto simp: fence_step_def\<close>)

interpretation mem: fenced_store mem_step mem_accepted evm_op "\<lambda>_. True"
  by unfold_locales (simp, rule mem_step_fenced)

subsection \<open>Leases\<close>

text \<open>A token is its owner, a colon and the number of its grant.\<close>

lemma token_inj: "o1 @ '':'' @ show_u64 g1 = o2 @ '':'' @ show_u64 g2 \<Longrightarrow> g1 = g2"
proof -
  assume eq: "o1 @ '':'' @ show_u64 g1 = o2 @ '':'' @ show_u64 g2"
  note nc = show_u64_no_colon
  from eq have "o1 @ CHR '':'' # show_u64 g1 = o2 @ CHR '':'' # show_u64 g2"
    by (simp only: append.simps)
  then have "show_u64 g1 = show_u64 g2" by (rule colon_suffix_inj [OF _ nc nc])
  then show "g1 = g2" by (simp only: show_u64_inj)
qed

text \<open>The grants counted so far bound the counter, and the current token was granted after
  grant number \<open>g\<close>.\<close>

definition granted_after :: "nat \<Rightarrow> string \<Rightarrow> mem_store \<Rightarrow> bool" where
  "granted_after g c m \<longleftrightarrow> g \<le> unat (m_gen m c) \<and>
     (\<forall>l. m_leaders m c = Some l \<longrightarrow> (\<exists>o' k. token l = o' @ '':'' @ show_u64 k \<and> g < unat k))"

lemma m_leaders_put [simp]:
  "m_leaders (put_head h m) = m_leaders m" "m_leaders (add_event h m) = m_leaders m"
  "m_gen (put_head h m) = m_gen m" "m_gen (add_event h m) = m_gen m"
  by (simp_all add: put_head_def add_event_def)

lemma mem_step_gen:
  assumes "unat (m_gen m c) < max_uint64"
  shows "unat (m_gen m c) \<le> unat (m_gen (mem_step t op m) c) \<and>
         unat (m_gen (mem_step t op m) c) \<le> unat (m_gen m c) + 1"
proof (cases op)
  case (OpAcquire ch o' ttl)
  then show ?thesis using assms by (auto simp: Acquire_def Let_def unat_Suc_u64)
next
  case (OpPublish tok h)
  obtain r m' where pub: "Publish t tok h m = (r, m')" by (cases "Publish t tok h m")
  then show ?thesis
    by (cases rule: Publish_cases) (use assms OpPublish pub in \<open>auto simp: unat_Suc_u64\<close>)
next
  case (OpBeginReorg ch tok)
  obtain r m' where beg: "BeginReorg t ch tok m = (r, m')" by (cases "BeginReorg t ch tok m")
  then show ?thesis by (cases rule: BeginReorg_cases) (use OpBeginReorg beg in auto)
qed (auto simp: Renew_def Release_def Let_def)

lemma mem_run_gen:
  "unat (m_gen m c) + length ops \<le> max_uint64 \<Longrightarrow>
     unat (m_gen m c) \<le> unat (m_gen (mem_run ops m) c) \<and>
     unat (m_gen (mem_run ops m) c) \<le> unat (m_gen m c) + length ops"
proof (induction ops arbitrary: m)
  case (Cons p ops)
  obtain t op where p: "p = (t, op)" by (cases p)
  have "unat (m_gen m c) < max_uint64" using Cons.prems by simp
  from mem_step_gen [OF this, of t op] have s: "unat (m_gen m c) \<le> unat (m_gen (mem_step t op m) c)"
    "unat (m_gen (mem_step t op m) c) \<le> unat (m_gen m c) + 1" by auto
  then have "unat (m_gen (mem_step t op m) c) + length ops \<le> max_uint64" using Cons.prems by simp
  from Cons.IH [OF this] s p show ?case by simp
qed simp

lemma granted_after_step:
  assumes "granted_after g c m" "unat (m_gen m c) < max_uint64" "0 < t"
  shows "granted_after g c (mem_step t op m)"
proof (cases op)
  case (OpAcquire ch o' ttl)
  have "\<exists>o1 k. o' @ '':'' @ show_u64 (m_gen m ch + 1) = o1 @ '':'' @ show_u64 k \<and> g < unat k" if "c = ch"
    using that assms unat_Suc_u64 [of "m_gen m c"]
    by (intro exI [of _ o'] exI [of _ "m_gen m ch + 1"]) (auto simp: granted_after_def)
  then show ?thesis using assms OpAcquire
    by (auto simp: Acquire_def Let_def granted_after_def unat_Suc_u64)
next
  case (OpRenew ch tok ttl)
  have renew: "\<exists>o' k. token (leader_of m c) = o' @ '':'' @ show_u64 k \<and> g < unat k" if "m_leaders m c \<noteq> None"
    using that assms(1) by (auto simp: granted_after_def leader_of_def split: option.splits)
  show ?thesis
  proof (cases "m_leaders m ch")
    case None
    then show ?thesis using assms OpRenew
      by (auto simp: Renew_def Let_def granted_after_def leader_of_def)
  qed (use assms OpRenew renew in \<open>auto simp: Renew_def Let_def granted_after_def\<close>)
next
  case (OpPublish tok h)
  obtain r m' where pub: "Publish t tok h m = (r, m')" by (cases "Publish t tok h m")
  then show ?thesis
    by (cases rule: Publish_cases)
      (use assms OpPublish pub in \<open>auto simp: granted_after_def unat_Suc_u64\<close>)
next
  case (OpBeginReorg ch tok)
  obtain r m' where beg: "BeginReorg t ch tok m = (r, m')" by (cases "BeginReorg t ch tok m")
  then show ?thesis
    by (cases rule: BeginReorg_cases) (use OpBeginReorg beg assms in \<open>auto simp: granted_after_def\<close>)
qed (use assms in \<open>auto simp: Release_def granted_after_def\<close>)


lemma granted_after_run:
  "granted_after g c m \<Longrightarrow> list_all (\<lambda>p. 0 < fst p) ops \<Longrightarrow> unat (m_gen m c) + length ops \<le> max_uint64 \<Longrightarrow>
     granted_after g c (mem_run ops m)"
proof (induction ops arbitrary: m)
  case (Cons p ops)
  obtain t op where p: "p = (t, op)" by (cases p)
  have lt: "unat (m_gen m c) < max_uint64" and t: "0 < t" using Cons.prems p by auto
  have "granted_after g c (mem_step t op m)" using Cons.prems(1) lt t by (rule granted_after_step)
  moreover have "unat (m_gen (mem_step t op m) c) + length ops \<le> max_uint64"
    using mem_step_gen [OF lt, of t op] Cons.prems(3) by simp
  ultimately show ?case using Cons.IH Cons.prems(2) p by simp
qed simp

lemma Acquire_True:
  assumes "Acquire now c o' ttl m = ((tok, True), m')"
  shows "tok = o' @ '':'' @ show_u64 (m_gen m c + 1)" "m_gen m' c = m_gen m c + 1"
    "m_leaders m' c = Some \<lparr>token = tok, expires = now + ttl\<rparr>"
  using assms by (auto simp: Acquire_def Let_def split: if_splits)

lemma granted_after_Acquire:
  assumes "Acquire now c o' ttl m = ((tok, True), m')" "g \<le> unat (m_gen m c)"
    "unat (m_gen m c) < max_uint64"
  shows "granted_after g c m'"
  using Acquire_True [OF assms(1)] assms(2,3) unat_Suc_u64 [of "m_gen m c"]
  unfolding granted_after_def by (auto intro!: exI [of _ o'] exI [of _ "m_gen m c + 1"])

lemma granted_after_token:
  assumes "granted_after (unat g) c m"
  shows "token (leader_of m c) \<noteq> o' @ '':'' @ show_u64 g"
proof (cases "m_leaders m c")
  case (Some l)
  then obtain o1 k where "token l = o1 @ '':'' @ show_u64 k" "unat g < unat k"
    using assms by (auto simp: granted_after_def)
  then show ?thesis using Some token_inj [of o1 k o' g] by (auto simp: leader_of_def)
qed (simp add: leader_of_def)

text \<open>
  Property C17. A lease that has been taken over is fenced for good: once another token was
  granted for the chain, the earlier token can neither publish, begin a reorg nor renew, in
  every later state, whatever operations ran in between (clocks positive, and fewer than
  $2^{64}$ grants and publications).
\<close>

theorem stale_token_fenced:
  assumes first: "Acquire t1 c o1 ttl1 m0 = ((tok1, True), m1)"
    and second: "Acquire t2 c o2 ttl2 (mem_run xs m1) = ((tok2, True), m2)"
    and clock: "list_all (\<lambda>p. 0 < fst p) ys"
    and few: "unat (m_gen m0 c) + length xs + length ys + 2 \<le> max_uint64"
  shows "Publish t tok1 (h\<lparr>Chain := c\<rparr>) (mem_run ys m2) = (Inl ErrLeadershipLost, mem_run ys m2)
    \<and> BeginReorg t c tok1 (mem_run ys m2) = (Inl ErrLeadershipLost, mem_run ys m2)
    \<and> Renew t c tok1 ttl (mem_run ys m2) = (False, mem_run ys m2)"
proof -
  have g1: "unat (m_gen m1 c) = unat (m_gen m0 c) + 1"
    using Acquire_True(2) [OF first] few by (simp add: unat_Suc_u64)
  have mid: "unat (m_gen m1 c) \<le> unat (m_gen (mem_run xs m1) c)"
    "unat (m_gen (mem_run xs m1) c) \<le> unat (m_gen m1 c) + length xs"
    using mem_run_gen [of m1 c xs] g1 few by auto
  have "granted_after (unat (m_gen m1 c)) c m2"
    using second mid(1) by (rule granted_after_Acquire) (use mid g1 few in simp)
  moreover have "unat (m_gen m2 c) + length ys \<le> max_uint64"
    using Acquire_True(2) [OF second] mid g1 few by (simp add: unat_Suc_u64)
  ultimately have "granted_after (unat (m_gen m1 c)) c (mem_run ys m2)"
    using clock by (intro granted_after_run)
  from granted_after_token [OF this, of o1] have "token (leader_of (mem_run ys m2) c) \<noteq> tok1"
    using Acquire_True(1,2) [OF first] by simp
  then show ?thesis by (simp add: Publish_def BeginReorg_def Renew_def Let_def)
qed

theorem stale_token_fenced_witness:
  "let m1 = snd (Acquire 10 ''eth'' ''a'' 5 NewMemoryStore);
       m2 = snd (Acquire 20 ''eth'' ''b'' 5 (mem_run [] m1))
   in Publish 21 (''a:'' @ show_u64 1) (zero_head\<lparr>Chain := ''eth''\<rparr>) (mem_run [] m2) = (Inl ErrLeadershipLost, mem_run [] m2)"
  using stale_token_fenced [of 10 "''eth''" "''a''" 5 NewMemoryStore "''a:'' @ show_u64 1" _ 20 "''b''"
      5 "[]" "''b:'' @ show_u64 2" _ "[]" 21 zero_head]
  by (simp add: Acquire_def Let_def leader_of_def NewMemoryStore_def max_uint64_def)

subsection \<open>Heads, generations and events\<close>

definition head_ok :: "string \<Rightarrow> u64 \<Rightarrow> head \<Rightarrow> bool" where
  "head_ok c g h \<longleftrightarrow> Chain h = c \<and> 0 < Generation h \<and> Generation h \<le> g"

definition event_ok :: "string \<Rightarrow> u64 \<Rightarrow> event \<Rightarrow> bool" where
  "event_ok c g e \<longleftrightarrow> head_ok c g (eHead e) \<and> Commitment (eHead e) = Latest \<and> Family (eHead e) = ''evm''
     \<and> eID e = show_u64 (Generation (eHead e)) @ ''-0''"

definition mem_inv :: "string \<Rightarrow> mem_store \<Rightarrow> bool" where
  "mem_inv c m \<longleftrightarrow>
     (\<forall>k h. m_heads m c k = Some h \<longrightarrow> head_ok c (m_gen m c) h \<and> Commitment h = k) \<and>
     (\<forall>e \<in> set (m_events m c). event_ok c (m_gen m c) e) \<and>
     sorted_wrt (\<lambda>a b. Generation (eHead a) < Generation (eHead b)) (m_events m c) \<and>
     (\<forall>h. mem_accepted m c = Some h \<longrightarrow> m_events m c \<noteq> [] \<and>
        Identity (eHead (last (m_events m c))) = Identity h \<and>
        Generation (eHead (last (m_events m c))) = Generation h)"

lemma mem_inv_New [simp]: "mem_inv c NewMemoryStore"
  by (simp add: mem_inv_def NewMemoryStore_def)

lemma Identity_upd [simp]:
  "Identity (h\<lparr>Generation := g\<rparr>) = Identity h" "Identity (h\<lparr>ChangedAt := t\<rparr>) = Identity h"
  "Identity (h\<lparr>ReorgEpoch := g\<rparr>) = Identity h" "Identity (h\<lparr>ReorgPending := b\<rparr>) = Identity h"
  by (simp_all add: Identity_def)

lemma head_ok_mono: "head_ok c g h \<Longrightarrow> g \<le> g' \<Longrightarrow> head_ok c g' h"
  by (auto simp: head_ok_def)

lemma event_ok_mono: "event_ok c g e \<Longrightarrow> g \<le> g' \<Longrightarrow> event_ok c g' e"
  by (auto simp: event_ok_def intro: head_ok_mono)

lemma mem_inv_frame:
  "mem_inv c m \<Longrightarrow> m_heads m' c = m_heads m c \<Longrightarrow> m_events m' c = m_events m c \<Longrightarrow>
     m_gen m c \<le> m_gen m' c \<Longrightarrow> mem_inv c m'"
  unfolding mem_inv_def by (auto intro: head_ok_mono event_ok_mono)

lemma mem_inv_refresh:
  assumes "mem_inv c m" "m_heads m c (Commitment h) = Some p" "Chain h = c" "Identity p = Identity h"
    "Generation h = Generation p"
  shows "mem_inv c (put_head h m)"
proof -
  have "head_ok c (m_gen m c) p" using assms(1,2) by (auto simp: mem_inv_def)
  then have "head_ok c (m_gen m c) h" using assms(3,5) by (simp add: head_ok_def)
  then show ?thesis using assms unfolding mem_inv_def put_head_def by auto
qed

lemma mem_inv_fresh:
  assumes inv: "mem_inv c m" and gen: "unat (m_gen m c) < max_uint64"
    and h: "Chain h = c" "Generation h = m_gen m c + 1" "Commitment h = Latest \<longrightarrow> Family h = ''evm''"
  shows "mem_inv c (put_head h (add_event h (m\<lparr>m_gen := (m_gen m)(c := m_gen m c + 1)\<rparr>)))"
proof -
  note up = less_Suc_u64 [OF gen]
  have heads: "head_ok c (m_gen m c + 1) x \<and> Commitment x = k" if "m_heads m c k = Some x" for k x
    using inv that up by (auto simp: mem_inv_def intro: head_ok_mono)
  have events: "event_ok c (m_gen m c + 1) e" "Generation (eHead e) < m_gen m c + 1"
    if "e \<in> set (m_events m c)" for e
    using inv that up by (auto simp: mem_inv_def event_ok_def head_ok_def)
  have sorted: "sorted_wrt (\<lambda>a b. Generation (eHead a) < Generation (eHead b)) (m_events m c)"
    using inv by (simp add: mem_inv_def)
  have new: "head_ok c (m_gen m c + 1) h" using h up [of 0] by (simp add: head_ok_def)
  show ?thesis
  proof (cases "Commitment h = Latest")
    case True
    then show ?thesis
      using heads events sorted new h
      by (auto simp: mem_inv_def put_head_def add_event_def event_ok_def sorted_wrt_append)
  next
    case False
    then have "mem_accepted m c = Some x \<Longrightarrow> m_events m c \<noteq> [] \<and>
        Identity (eHead (last (m_events m c))) = Identity x \<and>
        Generation (eHead (last (m_events m c))) = Generation x" for x
      using inv by (auto simp: mem_inv_def)
    then show ?thesis
      using False heads events sorted new h by (auto simp: mem_inv_def put_head_def add_event_def)
  qed
qed

lemma m_events_step_other [simp]:
  "m_events (snd (Acquire now c o' ttl m)) = m_events m"
  "m_events (snd (Renew now c tok ttl m)) = m_events m"
  "m_events (Release c tok m) = m_events m"
  by (simp_all add: Acquire_def Renew_def Release_def Let_def)

lemma Publish_other_chain:
  assumes "Publish now tok h m = (r, m')" "Chain h \<noteq> c"
  shows "m_heads m' c = m_heads m c" "m_events m' c = m_events m c" "m_gen m' c = m_gen m c"
  using assms by (cases rule: Publish_cases; auto simp: put_head_def add_event_def)+

text \<open>Every operation keeps the invariant while the chain's counter is below its limit.\<close>

lemma mem_inv_step:
  assumes inv: "mem_inv c m" and gen: "unat (m_gen m c) < max_uint64" and op: "evm_op c op"
  shows "mem_inv c (mem_step t op m)"
proof (cases op)
  case (OpAcquire ch o' ttl)
  have "m_gen m c \<le> m_gen (mem_step t op m) c"
    using mem_step_gen [OF gen, of t op] by (simp add: word_le_nat_alt)
  then show ?thesis using OpAcquire by (intro mem_inv_frame [OF inv]) auto
next
  case (OpRenew ch tok ttl)
  then show ?thesis by (intro mem_inv_frame [OF inv]) (auto simp: Renew_def Let_def)
next
  case (OpRelease ch tok)
  then show ?thesis by (intro mem_inv_frame [OF inv]) (auto simp: Release_def)
next
  case (OpPublish tok h)
  obtain r m' where pub: "Publish t tok h m = (r, m')" by (cases "Publish t tok h m")
  show ?thesis
  proof (cases "Chain h = c")
    case False
    then show ?thesis using Publish_other_chain [OF pub] OpPublish pub
      by (intro mem_inv_frame [OF inv]) auto
  next
    case True
    from pub show ?thesis
    proof (cases rule: Publish_cases)
      case (same p h')
      have "mem_inv c (put_head h' m)"
        by (rule mem_inv_refresh [OF inv, of _ p]) (use same True in simp_all)
      then show ?thesis using same OpPublish pub by simp
    next
      case (fresh h')
      then show ?thesis using True OpPublish pub op mem_inv_fresh [OF inv gen, of h'] by auto
    qed (use inv OpPublish pub in auto)
  qed
next
  case (OpBeginReorg ch tok)
  obtain r m' where beg: "BeginReorg t ch tok m = (r, m')" by (cases "BeginReorg t ch tok m")
  from beg show ?thesis
  proof (cases rule: BeginReorg_cases)
    case (raise h h')
    show ?thesis
    proof (cases "ch = c")
      case True
      then have "Chain h = c" "Commitment h = Latest" using inv raise(1) by (auto simp: mem_inv_def head_ok_def)
      then have "m' = put_head h' m" using raise True by (simp add: put_head_def)
      have "mem_inv c (put_head h' m)"
        by (rule mem_inv_refresh [OF inv, of _ h])
          (use raise True \<open>Chain h = c\<close> \<open>Commitment h = Latest\<close> in simp_all)
      then show ?thesis using \<open>m' = put_head h' m\<close> OpBeginReorg beg by simp
    next
      case False
      then show ?thesis using raise OpBeginReorg beg by (intro mem_inv_frame [OF inv]) auto
    qed
  qed (use inv OpBeginReorg beg in auto)
qed

lemma mem_inv_run:
  "mem_inv c m \<Longrightarrow> list_all (\<lambda>p. evm_op c (snd p)) ops \<Longrightarrow> unat (m_gen m c) + length ops \<le> max_uint64 \<Longrightarrow>
     mem_inv c (mem_run ops m)"
proof (induction ops arbitrary: m)
  case (Cons p ops)
  obtain t op where p: "p = (t, op)" by (cases p)
  have lt: "unat (m_gen m c) < max_uint64" using Cons.prems by simp
  have "mem_inv c (mem_step t op m)" using Cons.prems(1) lt by (rule mem_inv_step) (use Cons.prems p in simp)
  moreover have "unat (m_gen (mem_step t op m) c) + length ops \<le> max_uint64"
    using mem_step_gen [OF lt, of t op] Cons.prems(3) by simp
  ultimately show ?case using Cons.IH Cons.prems(2) p by simp
qed simp

subsection \<open>The event stream\<close>

lemma events_grow_step: "\<exists>new. m_events (mem_step t op m) c = m_events m c @ new"
proof (cases op)
  case (OpPublish tok h)
  obtain r m' where pub: "Publish t tok h m = (r, m')" by (cases "Publish t tok h m")
  then show ?thesis
    by (cases rule: Publish_cases) (use OpPublish pub in \<open>auto simp: put_head_def add_event_def\<close>)
next
  case (OpBeginReorg ch tok)
  obtain r m' where beg: "BeginReorg t ch tok m = (r, m')" by (cases "BeginReorg t ch tok m")
  then show ?thesis by (cases rule: BeginReorg_cases) (use OpBeginReorg beg in auto)
qed auto

lemma events_grow: "\<exists>new. m_events (mem_run ops m) c = m_events m c @ new"
proof (induction ops arbitrary: m)
  case (Cons p ops)
  obtain t op where p: "p = (t, op)" by (cases p)
  show ?case using Cons.IH [of "mem_step t op m"] events_grow_step [of t op m c] p by auto
qed simp

lemma find_cursor_nth:
  "distinct (map eID es) \<Longrightarrow> i < length es \<Longrightarrow> find_cursor (eID (es ! i)) es k = Some (k + i + 1)"
  by (induction es arbitrary: i k) (auto simp: nth_Cons split: nat.splits)

lemma find_cursor_None: "c \<notin> eID ` set es \<Longrightarrow> find_cursor c es k = None"
  by (induction es arbitrary: k) auto

lemma show_u64_0: "show_u64 0 = ''0''"
  by code_simp

text \<open>A cursor's position: how many events it has consumed.\<close>

definition at_position :: "string \<Rightarrow> nat \<Rightarrow> event list \<Rightarrow> bool" where
  "at_position cur i es \<longleftrightarrow> i \<le> length es \<and> (if i = 0 then cur = ''0-0'' else cur = eID (es ! (i - 1)))"

lemma event_ids:
  assumes "mem_inv c m"
  shows "distinct (map eID (m_events m c))" "''0-0'' \<notin> eID ` set (m_events m c)"
proof -
  let ?es = "m_events m c"
  have sorted: "sorted_wrt (\<lambda>a b. Generation (eHead a) < Generation (eHead b)) ?es"
    and ids: "e \<in> set ?es \<Longrightarrow> eID e = show_u64 (Generation (eHead e)) @ ''-0'' \<and> 0 < Generation (eHead e)" for e
    using assms by (auto simp: mem_inv_def event_ok_def head_ok_def)
  have "distinct (map (\<lambda>e. Generation (eHead e)) ?es)"
    using sorted by (rule distinct_map_strict)
  moreover have "map eID ?es = map ((\<lambda>g. show_u64 g @ ''-0'') \<circ> (\<lambda>e. Generation (eHead e))) ?es"
    using ids by (auto intro: map_cong)
  ultimately show "distinct (map eID ?es)"
    by (simp add: distinct_map inj_on_def)
  show "''0-0'' \<notin> eID ` set ?es"
  proof
    assume "''0-0'' \<in> eID ` set ?es"
    then obtain e where e: "e \<in> set ?es" "eID e = ''0'' @ ''-0''" by auto
    then have "show_u64 (Generation (eHead e)) = show_u64 0" using ids show_u64_0 by auto
    then show False using ids [OF e(1)] by simp
  qed
qed

lemma read_once_at:
  assumes "mem_inv c m" "at_position cur i (m_events m c)"
  shows "read_once c cur count m =
    (if i < length (m_events m c)
     then Ready (let rest = drop i (m_events m c) in
                 if count > 0 \<and> int (length rest) > count then take (nat count) rest else rest)
     else Waiting)"
proof (cases i)
  case 0
  then have "cur = ''0-0''" "find_cursor cur (m_events m c) 0 = None"
    using assms event_ids(2) [OF assms(1)] find_cursor_None by (auto simp: at_position_def)
  then show ?thesis using 0 by (simp add: read_once_def Let_def)
next
  case (Suc j)
  then have "find_cursor cur (m_events m c) 0 = Some i"
    using assms find_cursor_nth [OF event_ids(1) [OF assms(1)], of j 0] by (auto simp: at_position_def)
  then show ?thesis by (simp add: read_once_def Let_def)
qed

text \<open>A subscriber that reads again from the last identifier it saw, \<open>n\<close> times.\<close>

fun drain :: "nat \<Rightarrow> string \<Rightarrow> string \<Rightarrow> int \<Rightarrow> mem_store \<Rightarrow> event list" where
  "drain 0 chain cur count m = []"
| "drain (Suc n) chain cur count m =
     (case ReadEvents chain cur count m [] of
        Some (Inr es) \<Rightarrow> es @ drain n chain (eID (last es)) count m
      | _ \<Rightarrow> [])"

lemma drain_at:
  assumes "mem_inv c m"
  shows "at_position cur i (m_events m c) \<Longrightarrow> length (m_events m c) - i \<le> n \<Longrightarrow>
    drain n c cur count m = drop i (m_events m c)"
proof (induction n arbitrary: cur i)
  case (Suc n)
  let ?es = "m_events m c"
  note once = read_once_at [OF assms Suc.prems(1), of count]
  show ?case
  proof (cases "i < length ?es")
    case False
    then show ?thesis using once by (simp add: ReadEvents.simps)
  next
    case True
    define k where "k = (if count > 0 \<and> int (length ?es - i) > count then nat count else length ?es - i)"
    have k: "0 < k" "i + k \<le> length ?es" using True by (auto simp: k_def)
    have ready: "read_once c cur count m = Ready (take k (drop i ?es))"
      using once True by (auto simp: k_def Let_def)
    have "last (take k (drop i ?es)) = ?es ! (i + k - 1)"
      using k True by (simp add: last_conv_nth)
    then have "at_position (eID (last (take k (drop i ?es)))) (i + k) ?es"
      using k by (simp add: at_position_def)
    then have "drain n c (eID (last (take k (drop i ?es)))) count m = drop (i + k) ?es"
      by (rule Suc.IH) (use k Suc.prems(2) in simp)
    then show ?thesis using ready
      by (simp add: ReadEvents.simps add.commute [of i] drop_drop [symmetric] del: drop_drop)
  qed
qed simp

lemma at_position_StreamCursor:
  "m_events m' c = m_events m c @ new \<Longrightarrow>
     at_position (StreamCursor c m) (length (m_events m c)) (m_events m' c)"
  by (auto simp: at_position_def StreamCursor_def StreamStart_def Let_def last_conv_nth nth_append)

text \<open>
  Property C23. A subscriber that takes its checkpoint from the stream and later reads from it, in
  chunks of any size, gets exactly the events published since: none is lost, repeated or
  reordered, and its last event has the identity and generation of the accepted head.
\<close>

theorem stream_resume_complete:
  assumes inv: "mem_inv c m" and ops: "list_all (\<lambda>p. evm_op c (snd p)) ops"
    and few: "unat (m_gen m c) + length ops \<le> max_uint64"
  shows "\<exists>new. m_events (mem_run ops m) c = m_events m c @ new \<and>
    drain (length new) c (StreamCursor c m) count (mem_run ops m) = new \<and>
    distinct (map eID (m_events m c @ new)) \<and>
    (\<forall>h. mem_accepted (mem_run ops m) c = Some h \<longrightarrow>
       Identity (eHead (StreamStart c (mem_run ops m))) = Identity h \<and>
       Generation (eHead (StreamStart c (mem_run ops m))) = Generation h)"
proof -
  obtain new where new: "m_events (mem_run ops m) c = m_events m c @ new" using events_grow by blast
  have inv': "mem_inv c (mem_run ops m)" using assms by (rule mem_inv_run)
  have "drain (length new) c (StreamCursor c m) count (mem_run ops m) = new"
    using drain_at [OF inv' at_position_StreamCursor [OF new]] new by simp
  moreover have "distinct (map eID (m_events m c @ new))" using event_ids(1) [OF inv'] new by simp
  ultimately show ?thesis using new inv' by (auto simp: mem_inv_def StreamStart_def Let_def)
qed

text \<open>A first head: the chain's coordinator takes the lease and publishes block 7.\<close>

definition sample_head :: head where
  "sample_head = zero_head\<lparr>Chain := ''c'', Family := ''evm'', Commitment := Latest, Number := 7, Hash := ''0xa''\<rparr>"

definition sample_store :: mem_store where
  "sample_store = mem_run [(1, OpAcquire ''c'' ''o'' 9), (2, OpPublish (''o:'' @ show_u64 1) sample_head)] NewMemoryStore"

lemma sample_store_run:
  "sample_store = put_head (sample_head\<lparr>Generation := 2\<rparr>) (add_event (sample_head\<lparr>Generation := 2\<rparr>)
     (NewMemoryStore\<lparr>m_gen := (\<lambda>_. 0)(''c'' := 2),
        m_leaders := [''c'' \<mapsto> \<lparr>token = ''o:'' @ show_u64 1, expires = 10\<rparr>]\<rparr>))"
  by (simp add: sample_store_def Acquire_def Publish_def leader_of_def NewMemoryStore_def Let_def
      sample_head_def IsZeroTime_def commitment_defs zero_head_def put_head_def add_event_def)

theorem stream_resume_complete_witness:
  "\<exists>new. m_events (mem_run [(3, OpAcquire ''c'' ''o'' 9), (4, OpPublish (''o:'' @ show_u64 1) sample_head)]
        NewMemoryStore) ''c'' = m_events NewMemoryStore ''c'' @ new \<and>
    drain (length new) ''c'' (StreamCursor ''c'' NewMemoryStore) 1
      (mem_run [(3, OpAcquire ''c'' ''o'' 9), (4, OpPublish (''o:'' @ show_u64 1) sample_head)] NewMemoryStore) = new"
proof -
  let ?ops = "[(3, OpAcquire ''c'' ''o'' 9), (4, OpPublish (''o:'' @ show_u64 1) sample_head)]"
  have "list_all (\<lambda>p. evm_op ''c'' (snd p)) ?ops" by (simp add: sample_head_def)
  moreover have "unat (m_gen NewMemoryStore ''c'') + length ?ops \<le> max_uint64"
    by (simp add: NewMemoryStore_def max_uint64_def)
  ultimately show ?thesis using stream_resume_complete [OF mem_inv_New, of "''c''" ?ops 1] by blast
qed

subsection \<open>Properties of the fence and of leases\<close>

text \<open>
  The reorg fence: when a chain's accepted head showed no pending reorg before a run
  of store operations and the accepted head after the run has the same epoch, then no head
  accepted at any moment in between was pending or had another epoch. A response read from an
  upstream between two such snapshots was therefore not read across a reorg.
\<close>

theorem fence_encloses_no_reorg:
  assumes "mem_accepted m c = Some h" "\<not> ReorgPending h"
    and "list_all (\<lambda>p. evm_op c (snd p)) (xs @ ys)" "length (xs @ ys) < 2 ^ 64"
    and "mem_accepted (mem_run (xs @ ys) m) c = Some h'" "ReorgEpoch h' = ReorgEpoch h"
  shows "\<exists>x. mem_accepted (mem_run xs m) c = Some x \<and> ReorgEpoch x = ReorgEpoch h \<and> \<not> ReorgPending x"
  using assms mem.equal_epochs_no_reorg by blast

lemma sample_store_accepted: "mem_accepted sample_store ''c'' = Some (sample_head\<lparr>Generation := 2\<rparr>)"
  by (simp add: sample_store_run put_head_def sample_head_def)

lemma sample_store_leader: "leader_of sample_store ''c'' = \<lparr>token = ''o:'' @ show_u64 1, expires = 10\<rparr>"
  by (simp add: sample_store_run leader_of_def)

theorem fence_encloses_no_reorg_witness:
  "\<exists>x. mem_accepted (mem_run [(3, OpRenew ''c'' (''o:'' @ show_u64 1) 9)] sample_store) ''c'' = Some x \<and>
     ReorgEpoch x = 0 \<and> \<not> ReorgPending x"
  using fence_encloses_no_reorg [OF sample_store_accepted, of "[(3, OpRenew ''c'' (''o:'' @ show_u64 1) 9)]"
      "[(4, OpRelease ''c'' (''o:'' @ show_u64 1))]" "sample_head\<lparr>Generation := 2\<rparr>"]
  by (simp add: sample_store_accepted sample_head_def zero_head_def)



text \<open>
  Property C22. A lease is exclusive while it lasts: until the instant it was granted to, no other
  lease of the chain is granted, whatever operations run, unless its holder releases it or renews
  it to an earlier instant.
\<close>

theorem lease_exclusive:
  assumes grant: "Acquire t1 c o1 ttl m = ((tok, True), m1)"
    and ops: "list_all (\<lambda>(s, op). s < t1 + ttl \<and> op \<noteq> OpRelease c tok \<and>
        (\<forall>d. op = OpRenew c tok d \<longrightarrow> t1 + ttl \<le> s + d)) xs"
    and t: "t < t1 + ttl"
  shows "Acquire t c o2 ttl2 (mem_run xs m1) = (([], False), mem_run xs m1)"
proof -
  let ?held = "\<lambda>s. \<exists>e. m_leaders s c = Some \<lparr>token = tok, expires = e\<rparr> \<and> t1 + ttl \<le> e"
  have ne: "tok \<noteq> []" using Acquire_True(1) [OF grant] by simp
  have step: "?held (mem_step s op n)" if "?held n" "s < t1 + ttl" "op \<noteq> OpRelease c tok"
    "\<forall>d. op = OpRenew c tok d \<longrightarrow> t1 + ttl \<le> s + d" for s op n
  proof (cases op)
    case (OpPublish tk h)
    obtain r n' where pub: "Publish s tk h n = (r, n')" by (cases "Publish s tk h n")
    then show ?thesis by (cases rule: Publish_cases) (use OpPublish pub that in auto)
  next
    case (OpBeginReorg ch tk)
    obtain r n' where beg: "BeginReorg s ch tk n = (r, n')" by (cases "BeginReorg s ch tk n")
    then show ?thesis by (cases rule: BeginReorg_cases) (use OpBeginReorg beg that in auto)
  qed (use that ne in \<open>auto simp: Acquire_def Renew_def Release_def Let_def leader_of_def\<close>)
  have "?held n \<Longrightarrow> ?held (mem_run xs n)" for n
    using ops
  proof (induction xs arbitrary: n)
    case (Cons a ys)
    obtain s op where a: "a = (s, op)" by (cases a)
    have "?held (mem_step s op n)" using Cons.prems a by (intro step) auto
    then show ?case using Cons.IH [of "mem_step s op n"] Cons.prems(2) a by simp
  qed simp
  moreover have "?held m1" using Acquire_True(3) [OF grant] by simp
  ultimately obtain e where "m_leaders (mem_run xs m1) c = Some \<lparr>token = tok, expires = e\<rparr>" "t1 + ttl \<le> e"
    by blast
  then show ?thesis using t ne by (simp add: Acquire_def leader_of_def)
qed

theorem lease_exclusive_witness:
  "Acquire 8 ''c'' ''q'' 5 (mem_run [(4, OpAcquire ''c'' ''q'' 5)]
      (snd (Acquire 1 ''c'' ''o'' 9 NewMemoryStore))) =
    (([], False), mem_run [(4, OpAcquire ''c'' ''q'' 5)] (snd (Acquire 1 ''c'' ''o'' 9 NewMemoryStore)))"
proof -
  have "Acquire 1 ''c'' ''o'' 9 NewMemoryStore =
      ((''o:'' @ show_u64 1, True), snd (Acquire 1 ''c'' ''o'' 9 NewMemoryStore))"
    by (simp add: Acquire_def leader_of_def NewMemoryStore_def Let_def)
  from lease_exclusive [OF this, of "[(4, OpAcquire ''c'' ''q'' 5)]" 8 "''q''" 5] show ?thesis by simp
qed

end
