(* ===== verification/Coordinator.thy ===== *)
theory Coordinator
  imports Runtime Memory_Store
begin

text \<open>
  The head coordinator of one chain, \<^verbatim>\<open>internal/coordinator\<close>: observation of heads by polling and
  subscription, selection among observations, the proof that a candidate continues the accepted
  head or forks from it, the evidence that the accepted head was displaced, and the decision to
  publish. The store is the record \<open>store_api\<close> of the operations the coordinator calls. Loops over a
  bounded depth recurse on the steps left.

  The lemmas say what each answer proves about parent links, and that a head off the accepted
  branch is published only behind a raised reorg fence.
\<close>

record 'w store_api =
  st_Snapshot :: "string \<Rightarrow> 'w \<Rightarrow> (store_error + snapshot) \<times> 'w"
  st_BeginReorg :: "string \<Rightarrow> string \<Rightarrow> 'w \<Rightarrow> (store_error + head) \<times> 'w"
  st_Publish :: "string \<Rightarrow> head \<Rightarrow> 'w \<Rightarrow> (store_error + head) \<times> 'w"

datatype coord_error =
    StoreFailed store_error
  | InitialParent fetch_error
  | InitialLinkage
  | DepthNotPositive
  | CandidateParent fetch_error
  | CandidateLinkage
  | GapTooLong
  | Continuity fetch_error
  | ChainLinkage
  | CurrentLinkage
  | Ancestry fetch_error
  | AncestryLinkage
  | NoCommonAncestor
  | NotDisplaced
  | PollCall string
  | PollRejected rpc_error
  | PollHead head_error
  | PollMismatch
  | PollSlot

subsection \<open>Observation\<close>

definition pollOne :: "'w node_env \<Rightarrow> runtime \<Rightarrow> string \<Rightarrow> string \<Rightarrow> 'w \<Rightarrow> (coord_error + head) \<times> 'w" where
  "pollOne env r i commitment w =
     (if cc_Family (rt_Config r) = ''evm''
      then
        (case node_call env i ''eth_getBlockByNumber'' (MarshalParams [JStr commitment, JBool False]) w of
           (Inl e, w1) \<Rightarrow> (Inl (PollCall e), w1)
         | (Inr resp, w1) \<Rightarrow>
             (case Err resp of
                Some e \<Rightarrow> (Inl (PollRejected e), w1)
              | None \<Rightarrow>
                  (case ParseEVMHead (now_of env w1) r commitment i (Result resp) of
                     Inl e \<Rightarrow> (Inl (PollHead e), w1)
                   | Inr observed \<Rightarrow>
                       (case node_call env i ''eth_getBlockByHash'' (with_hash_params (Hash observed)) w1 of
                          (Inl e, w2) \<Rightarrow> (Inl (PollCall e), w2)
                        | (Inr resp2, w2) \<Rightarrow>
                            (case Err resp2 of
                               Some e \<Rightarrow> (Inl (PollRejected e), w2)
                             | None \<Rightarrow>
                                 (case ParseEVMHead (now_of env w2) r commitment i (Result resp2) of
                                    Inl e \<Rightarrow> (Inl PollMismatch, w2)
                                  | Inr confirmed \<Rightarrow>
                                      if \<not> EqualFold (Hash confirmed) (Hash observed) \<or> Number confirmed \<noteq> Number observed
                                         \<or> \<not> EqualFold (ParentHash confirmed) (ParentHash observed)
                                      then (Inl PollMismatch, w2) else (Inr observed, w2)))))))
      else
        (case node_call env i ''getSlot'' (MarshalParams [JObj [(''commitment'', JStr commitment)]]) w of
           (Inl e, w1) \<Rightarrow> (Inl (PollCall e), w1)
         | (Inr resp, w1) \<Rightarrow>
             (case Err resp of
                Some e \<Rightarrow> (Inl (PollRejected e), w1)
              | None \<Rightarrow>
                  (case unmarshal_uint (Result resp) of
                     None \<Rightarrow> (Inl PollSlot, w1)
                   | Some slot \<Rightarrow>
                       (Inr (zero_head\<lparr>Chain := cc_Name (rt_Config r), Family := ''solana'', Commitment := commitment,
                               Number := slot, Origin := i, ObservedAt := now_of env w1\<rparr>), w1)))))"

text \<open>\<open>find\<close> and \<open>fold\<close> are the loops over the candidates, which are not empty.\<close>

definition freshest :: "head list \<Rightarrow> head" where
  "freshest candidates =
     fold (\<lambda>candidate selected. if Number candidate > Number selected then candidate else selected)
       (tl candidates) (hd candidates)"

definition selectFreshest :: "head \<Rightarrow> head list \<Rightarrow> head" where
  "selectFreshest current candidates =
     (let selected = freshest candidates in
      if IsZero current then selected
      else
        (case find (\<lambda>c. Identity c = Identity current \<and> Number c = Number selected) candidates of
           Some c \<Rightarrow> c
         | None \<Rightarrow>
             if Number selected < Number current
             then (case find (\<lambda>c. Identity c = Identity current) candidates of Some c \<Rightarrow> c | None \<Rightarrow> selected)
             else selected))"

text \<open>What a poll hands to fork detection: the selected head, then for EVM each other identity once.\<close>

fun distinct_heads :: "string list \<Rightarrow> head list \<Rightarrow> head list" where
  "distinct_heads seen [] = []"
| "distinct_heads seen (h # hs) =
     (if Identity h \<in> set seen then distinct_heads seen hs else h # distinct_heads (Identity h # seen) hs)"

definition poll_output :: "string \<Rightarrow> head \<Rightarrow> head list \<Rightarrow> head list" where
  "poll_output family current candidates =
     (if candidates = [] then []
      else let selected = selectFreshest current candidates in
        selected # (if family = ''evm'' then distinct_heads [Identity selected] candidates else []))"

subsection \<open>Fork detection\<close>

definition parent_of :: "'w node_env \<Rightarrow> runtime \<Rightarrow> head \<Rightarrow> head \<Rightarrow> 'w \<Rightarrow> (fetch_error + head) \<times> 'w" where
  "parent_of env r branch cursor w = EVMBlockByHash env r (ParentHash cursor) (Commitment branch) (Origin branch) w"

text \<open>The candidate's ancestor at the accepted height, within the depth.\<close>

fun climb_down :: "'w node_env \<Rightarrow> runtime \<Rightarrow> head \<Rightarrow> u64 \<Rightarrow> nat \<Rightarrow> head \<Rightarrow> 'w \<Rightarrow> (coord_error + head) \<times> 'w" where
  "climb_down env r candidate floor left cursor w =
     (if Number cursor \<le> floor then (Inr cursor, w)
      else
        (case left of
           0 \<Rightarrow> (Inl GapTooLong, w)
         | Suc n \<Rightarrow>
             (case parent_of env r candidate cursor w of
                (Inl e, w1) \<Rightarrow> (Inl (Continuity e), w1)
              | (Inr parent, w1) \<Rightarrow>
                  if Number parent \<ge> Number cursor \<or> Number parent + 1 \<noteq> Number cursor then (Inl ChainLinkage, w1)
                  else climb_down env r candidate floor n parent w1)))"

declare climb_down.simps [simp del]

datatype ancestors = Lagging | Collected "(string \<times> u64) list"

fun current_ancestors :: "'w node_env \<Rightarrow> runtime \<Rightarrow> head \<Rightarrow> head \<Rightarrow> nat \<Rightarrow> head \<Rightarrow> (string \<times> u64) list \<Rightarrow> 'w \<Rightarrow>
    (coord_error + ancestors) \<times> 'w" where
  "current_ancestors env r current candidate left cursor acc w =
     (case left of
        0 \<Rightarrow> (Inr (Collected acc), w)
      | Suc n \<Rightarrow>
          if Number cursor = 0 \<or> ParentHash cursor = [] then (Inr (Collected acc), w)
          else
            (case parent_of env r current cursor w of
               (Inl _, w1) \<Rightarrow> (Inr (Collected acc), w1)
             | (Inr parent, w1) \<Rightarrow>
                 if Number parent + 1 \<noteq> Number cursor \<or> \<not> EqualFold (Hash parent) (ParentHash cursor)
                 then (Inl CurrentLinkage, w1)
                 else if Number parent = Number candidate \<and> EqualFold (Hash parent) (Hash candidate)
                 then (Inr Lagging, w1)
                 else current_ancestors env r current candidate n parent (map_set (Hash parent) (Number parent) acc) w1))"

declare current_ancestors.simps [simp del]

definition getAncestorNumber :: "(string \<times> u64) list \<Rightarrow> string \<Rightarrow> u64 option" where
  "getAncestorNumber ancestors hashValue = map_option snd (find (\<lambda>p. EqualFold (fst p) hashValue) ancestors)"

fun common_ancestor :: "'w node_env \<Rightarrow> runtime \<Rightarrow> head \<Rightarrow> (string \<times> u64) list \<Rightarrow> nat \<Rightarrow> head \<Rightarrow> 'w \<Rightarrow>
    coord_error option \<times> 'w" where
  "common_ancestor env r candidate ancestors left cursor w =
     (if getAncestorNumber ancestors (Hash cursor) = Some (Number cursor) then (None, w)
      else if Number cursor = 0 \<or> ParentHash cursor = [] then (Some NoCommonAncestor, w)
      else
        (case left of
           0 \<Rightarrow> (Some NoCommonAncestor, w)
         | Suc n \<Rightarrow>
             (case parent_of env r candidate cursor w of
                (Inl e, w1) \<Rightarrow> (Some (Ancestry e), w1)
              | (Inr parent, w1) \<Rightarrow>
                  if Number parent + 1 \<noteq> Number cursor \<or> \<not> EqualFold (Hash parent) (ParentHash cursor)
                  then (Some AncestryLinkage, w1)
                  else common_ancestor env r candidate ancestors n parent w1)))"

declare common_ancestor.simps [simp del]

text \<open>The state of one transition: whether the divergence was reported, and the head the fence
  returned (initially the snapshot's).\<close>

record divergence =
  reported :: bool
  guarded :: head

definition reportDivergence :: "'w store_api \<Rightarrow> string \<Rightarrow> head \<Rightarrow> divergence \<Rightarrow> 'w \<Rightarrow> (coord_error option \<times> divergence) \<times> 'w" where
  "reportDivergence st tok candidate d w =
     (if reported d then ((None, d), w)
      else if ReorgPending (guarded d) then ((None, d\<lparr>reported := True\<rparr>), w)
      else
        (case st_BeginReorg st (Chain candidate) tok w of
           (Inl e, w1) \<Rightarrow> ((Some (StoreFailed e), d\<lparr>reported := True\<rparr>), w1)
         | (Inr g, w1) \<Rightarrow> ((None, \<lparr>reported = True, guarded = g\<rparr>), w1)))"

definition immediate_child :: "head \<Rightarrow> head \<Rightarrow> bool" where
  "immediate_child parent child \<longleftrightarrow>
     Number child > Number parent \<and> Number child - Number parent = 1 \<and> EqualFold (ParentHash child) (Hash parent)"

definition candidate_parent_problem :: "'w node_env \<Rightarrow> runtime \<Rightarrow> head \<Rightarrow> 'w \<Rightarrow> coord_error option \<times> 'w" where
  "candidate_parent_problem env r candidate w =
     (if Number candidate > 0
      then (case parent_of env r candidate candidate w of
              (Inl e, w1) \<Rightarrow> (Some (CandidateParent e), w1)
            | (Inr parent, w1) \<Rightarrow>
                if Number parent + 1 \<noteq> Number candidate \<or> \<not> EqualFold (Hash parent) (ParentHash candidate)
                then (Some CandidateLinkage, w1) else (None, w1))
      else (None, w))"

text \<open>The last part: the accepted branch's ancestors, the report, the common ancestor.\<close>

definition fork_point :: "'w node_env \<Rightarrow> 'w store_api \<Rightarrow> runtime \<Rightarrow> string \<Rightarrow> head \<Rightarrow> head \<Rightarrow> nat \<Rightarrow> head \<Rightarrow> divergence \<Rightarrow> 'w \<Rightarrow>
    ((coord_error + bool) \<times> divergence) \<times> 'w" where
  "fork_point env st r tok current candidate depth cursor d w =
     (case current_ancestors env r current candidate depth current [(Hash current, Number current)] w of
        (Inl e, w1) \<Rightarrow> ((Inl e, d), w1)
      | (Inr Lagging, w1) \<Rightarrow> ((Inr False, d), w1)
      | (Inr (Collected ancestors), w1) \<Rightarrow>
          (case reportDivergence st tok candidate d w1 of
             ((Some e, d1), w2) \<Rightarrow> ((Inl e, d1), w2)
           | ((None, d1), w2) \<Rightarrow>
               (case common_ancestor env r candidate ancestors depth cursor w2 of
                  (Some e, w3) \<Rightarrow> ((Inl e, d1), w3)
                | (None, w3) \<Rightarrow> ((Inr True, d1), w3))))"

definition report_if :: "bool \<Rightarrow> 'w store_api \<Rightarrow> string \<Rightarrow> head \<Rightarrow> divergence \<Rightarrow> 'w \<Rightarrow> (coord_error option \<times> divergence) \<times> 'w" where
  "report_if b st tok candidate d w = (if b then reportDivergence st tok candidate d w else ((None, d), w))"

definition validateEVMTransition :: "'w node_env \<Rightarrow> 'w store_api \<Rightarrow> runtime \<Rightarrow> string \<Rightarrow> head \<Rightarrow> head \<Rightarrow> 'w \<Rightarrow>
    ((coord_error + bool) \<times> divergence) \<times> 'w" where
  "validateEVMTransition env st r tok current candidate w =
     (let d = \<lparr>reported = False, guarded = current\<rparr>; depth = ReorgDepth (rt_Config r) in
      if immediate_child current candidate then ((Inr False, d), w)
      else if immediate_child candidate current then ((Inr False, d), w)
      else
        (case report_if ((Number candidate = Number current \<or>
                Number candidate > Number current \<and> Number candidate - Number current = 1)
               \<and> \<not> EqualFold (Hash candidate) (Hash current)) st tok candidate d w of
           ((Some e, d1), w1) \<Rightarrow> ((Inl e, d1), w1)
         | ((None, d1), w1) \<Rightarrow>
             if depth < 1 then ((Inl DepthNotPositive, d1), w1)
             else
               (case candidate_parent_problem env r candidate w1 of
                  (Some e, w2) \<Rightarrow> ((Inl e, d1), w2)
                | (None, w2) \<Rightarrow>
                    (case climb_down env r candidate (Number current) (nat depth) candidate w2 of
                       (Inl e, w3) \<Rightarrow> ((Inl e, d1), w3)
                     | (Inr cursor, w3) \<Rightarrow>
                         if Number cursor = Number current \<and> EqualFold (Hash cursor) (Hash current)
                         then ((Inr False, d1), w3)
                         else
                           (case report_if (Number cursor = Number current) st tok candidate d1 w3 of
                              ((Some e, d2), w4) \<Rightarrow> ((Inl e, d2), w4)
                            | ((None, d2), w4) \<Rightarrow> fork_point env st r tok current candidate (nat depth) cursor d2 w4)))))"

subsection \<open>Evidence and decision\<close>

record canonicalEvidence =
  observed :: bool
  allCurrent :: bool

text \<open>One upstream's block at the accepted height; \<open>None\<close> when it gives no usable answer.\<close>

definition block_at_height :: "'w node_env \<Rightarrow> runtime \<Rightarrow> head \<Rightarrow> string \<Rightarrow> 'w \<Rightarrow> head option \<times> 'w" where
  "block_at_height env r current i w =
     (case node_call env i ''eth_getBlockByNumber'' (MarshalParams [JStr (FormatEVMQuantity (Number current)), JBool False]) w of
        (Inl _, w1) \<Rightarrow> (None, w1)
      | (Inr resp, w1) \<Rightarrow>
          if Err resp \<noteq> None then (None, w1)
          else
            (case ParseEVMHead (now_of env w1) r (Commitment current) i (Result resp) of
               Inl _ \<Rightarrow> (None, w1)
             | Inr h \<Rightarrow> if Number h \<noteq> Number current then (None, w1) else (Some h, w1)))"

fun count_evidence :: "'w node_env \<Rightarrow> runtime \<Rightarrow> head \<Rightarrow> string list \<Rightarrow> bool \<Rightarrow> nat \<Rightarrow> nat \<Rightarrow> 'w \<Rightarrow>
    (bool \<times> nat \<times> nat) \<times> 'w" where
  "count_evidence env r current [] uncertain checked matching w = ((uncertain, checked, matching), w)"
| "count_evidence env r current (i # is) uncertain checked matching w =
     (case block_at_height env r current i w of
        (None, w1) \<Rightarrow> count_evidence env r current is True checked matching w1
      | (Some h, w1) \<Rightarrow>
          count_evidence env r current is uncertain (checked + 1)
            (if EqualFold (Hash h) (Hash current) then matching + 1 else matching) w1)"

definition getCanonicalEvidence :: "'w node_env \<Rightarrow> runtime \<Rightarrow> head \<Rightarrow> 'w \<Rightarrow> (coord_error + canonicalEvidence) \<times> 'w" where
  "getCanonicalEvidence env r current w =
     (case count_evidence env r current (Candidates env r False w) False 0 0 w of
        ((uncertain, checked, matching), w1) \<Rightarrow>
          if matching > 0
          then (Inr \<lparr>observed = True, allCurrent = (\<not> uncertain \<and> matching = checked)\<rparr>, w1)
          else if uncertain \<or> checked = 0 then (Inl NotDisplaced, w1)
          else (Inr \<lparr>observed = False, allCurrent = False\<rparr>, w1))"

text \<open>What is to be done with an observed head: an error, nothing, or its publication.\<close>

datatype decision = Rejected coord_error | Ignored | Publishing head

definition acknowledged :: "head \<Rightarrow> head \<Rightarrow> head" where
  "acknowledged current candidate = candidate\<lparr>ReorgEpoch := ReorgEpoch current, ReorgPending := False\<rparr>"

definition decide_transition :: "'w node_env \<Rightarrow> 'w store_api \<Rightarrow> runtime \<Rightarrow> string \<Rightarrow> head \<Rightarrow> head \<Rightarrow> 'w \<Rightarrow> decision \<times> 'w" where
  "decide_transition env st r tok snap_current candidate w =
     (case validateEVMTransition env st r tok snap_current candidate w of
        ((Inl e, d), w1) \<Rightarrow> (Rejected e, w1)
      | ((Inr reorg, d), w1) \<Rightarrow>
          let current = guarded d in
          if Number candidate \<le> Number current
          then
            (if \<not> reorg then (Ignored, w1)
             else
               (case getCanonicalEvidence env r current w1 of
                  (Inl e, w2) \<Rightarrow> (Rejected e, w2)
                | (Inr ev, w2) \<Rightarrow>
                    if observed ev
                    then (if \<not> allCurrent ev then (Ignored, w2)
                          else (Publishing (acknowledged current (current\<lparr>ObservedAt := now_of env w2\<rparr>)), w2))
                    else (Publishing (acknowledged current candidate), w2)))
          else (Publishing (acknowledged current candidate), w1))"

definition decide_evm :: "'w node_env \<Rightarrow> 'w store_api \<Rightarrow> runtime \<Rightarrow> string \<Rightarrow> head \<Rightarrow> head \<Rightarrow> 'w \<Rightarrow> decision \<times> 'w" where
  "decide_evm env st r tok current candidate w =
     (if EqualFold (Hash candidate) (Hash current)
      then
        (if ReorgPending current
         then (case getCanonicalEvidence env r current w of
                 (Inl e, w1) \<Rightarrow> (Rejected e, w1)
               | (Inr ev, w1) \<Rightarrow>
                   if \<not> allCurrent ev then (Ignored, w1) else (Publishing (acknowledged current candidate), w1))
         else (Publishing (acknowledged current candidate), w))
      else decide_transition env st r tok current candidate w)"

definition decide_initial :: "'w node_env \<Rightarrow> runtime \<Rightarrow> head \<Rightarrow> 'w \<Rightarrow> decision \<times> 'w" where
  "decide_initial env r candidate w =
     (if Family candidate = ''evm'' \<and> Number candidate > 0
      then (case parent_of env r candidate candidate w of
              (Inl e, w1) \<Rightarrow> (Rejected (InitialParent e), w1)
            | (Inr parent, w1) \<Rightarrow>
                if Number parent \<ge> Number candidate \<or> Number candidate - Number parent \<noteq> 1
                then (Rejected InitialLinkage, w1) else (Publishing candidate, w1))
      else (Publishing candidate, w))"

definition decide :: "'w node_env \<Rightarrow> 'w store_api \<Rightarrow> runtime \<Rightarrow> string \<Rightarrow> snapshot \<Rightarrow> head \<Rightarrow> 'w \<Rightarrow> decision \<times> 'w" where
  "decide env st r tok snap candidate w =
     (case Get snap (Commitment candidate) of
        None \<Rightarrow> decide_initial env r candidate w
      | Some current \<Rightarrow>
          if Family candidate = ''solana'' \<and> Number candidate < Number current then (Ignored, w)
          else if Family candidate = ''evm'' then decide_evm env st r tok current candidate w
          else (Publishing candidate, w))"

definition consider_head :: "'w node_env \<Rightarrow> 'w store_api \<Rightarrow> runtime \<Rightarrow> string \<Rightarrow> head \<Rightarrow> 'w \<Rightarrow> coord_error option \<times> 'w" where
  "consider_head env st r tok candidate w =
     (case st_Snapshot st (Chain candidate) w of
        (Inl e, w1) \<Rightarrow> (Some (StoreFailed e), w1)
      | (Inr snap, w1) \<Rightarrow>
          (case decide env st r tok snap candidate w1 of
             (Rejected e, w2) \<Rightarrow> (Some e, w2)
           | (Ignored, w2) \<Rightarrow> (None, w2)
           | (Publishing h, w2) \<Rightarrow>
               (case st_Publish st tok h w2 of
                  (Inl e, w3) \<Rightarrow> (Some (StoreFailed e), w3)
                | (Inr published, w3) \<Rightarrow> (None, w3))))"

subsection \<open>What a walk proves\<close>

lemma parent_of_hash: "parent_of env r b cursor w = (Inr p, w') \<Longrightarrow> EqualFold (Hash p) (ParentHash cursor)"
  unfolding parent_of_def by (drule EVMBlockByHash_Inr) (simp add: block_for_def)

lemma climb_down_reaches:
  "climb_down env r cand fl k cursor w = (Inr x, w') \<Longrightarrow> reaches cursor x k \<and> Number x \<le> fl"
proof (induction env r cand fl k cursor w rule: climb_down.induct)
  case (1 env r cand fl k cursor w)
  show ?case
  proof (cases "Number cursor \<le> fl")
    case True
    then show ?thesis using 1(2) by (simp add: climb_down.simps [of env r cand fl k cursor w])
  next
    case False
    obtain n p w1 where p: "k = Suc n" "parent_of env r cand cursor w = (Inr p, w1)" "\<not> Number p \<ge> Number cursor"
      "Number p + 1 = Number cursor" "climb_down env r cand fl n p w1 = (Inr x, w')"
      using 1(2) False
      by (auto simp: climb_down.simps [of env r cand fl k cursor w] split: nat.splits prod.splits sum.splits if_splits)
    have "reaches p x n \<and> Number x \<le> fl"
      using 1(1) [OF False p(1) p(2) [symmetric] refl _ p(5)] p(3,4) by simp
    moreover have "is_parent p cursor" using parent_of_hash [OF p(2)] p(4) by (simp add: is_parent_def)
    ultimately show ?thesis using reaches_front p(1) by blast
  qed
qed

text \<open>The collected pairs are blocks on the accepted branch.\<close>

definition on_branch :: "head \<Rightarrow> nat \<Rightarrow> string \<times> u64 \<Rightarrow> bool" where
  "on_branch current k p \<longleftrightarrow> (\<exists>a. reaches current a k \<and> Hash a = fst p \<and> Number a = snd p)"

lemma on_branch_mono: "on_branch c k p \<Longrightarrow> k \<le> n \<Longrightarrow> on_branch c n p"
  unfolding on_branch_def using reaches_mono by blast

lemma current_ancestors_sound:
  "current_ancestors env r current cand k cursor acc w = (Inr res, w') \<Longrightarrow> reaches current cursor j \<Longrightarrow>
   \<forall>p \<in> set acc. on_branch current (j + k) p \<Longrightarrow>
   (case res of
      Lagging \<Rightarrow> \<exists>a. reaches current a (j + k) \<and> same_block a cand
    | Collected acc' \<Rightarrow> \<forall>p \<in> set acc'. on_branch current (j + k) p)"
proof (induction env r current cand k cursor acc w arbitrary: j rule: current_ancestors.induct)
  case (1 env r current cand k cursor acc w)
  note step = current_ancestors.simps [of env r current cand k cursor acc w]
  show ?case
  proof (cases k)
    case 0
    then show ?thesis using 1(2,4) step by auto
  next
    case (Suc n)
    show ?thesis
    proof (cases "Number cursor = 0 \<or> ParentHash cursor = []")
      case True
      then show ?thesis using 1(2,4) step Suc by auto
    next
      case False
      obtain x w1 where call: "parent_of env r current cursor w = (x, w1)" by (cases "parent_of env r current cursor w")
      show ?thesis
      proof (cases x)
        case (Inl e)
        then show ?thesis using 1(2,4) step Suc False call by auto
      next
        case (Inr p)
        have link: "Number p + 1 = Number cursor" "EqualFold (Hash p) (ParentHash cursor)"
          using 1(2) step Suc False call Inr by (auto split: if_splits)
        have "is_parent p cursor" using link by (simp add: is_parent_def)
        then have p: "reaches current p (Suc j)" using reaches_snoc 1(3) by blast
        show ?thesis
        proof (cases "Number p = Number cand \<and> EqualFold (Hash p) (Hash cand)")
          case True
          have "reaches current p (j + k)" using p Suc by (auto intro: reaches_mono)
          then show ?thesis using 1(2) step Suc False call Inr link True by (auto simp: same_block_def)
        next
          case no: False
          have rec: "current_ancestors env r current cand n p (map_set (Hash p) (Number p) acc) w1 = (Inr res, w')"
            using 1(2) step Suc False call Inr link no by simp
          have acc: "\<forall>q \<in> set (map_set (Hash p) (Number p) acc). on_branch current (Suc j + n) q"
            using 1(4) Suc p reaches_mono [OF p, of "Suc j + n"]
            by (auto simp: map_set_def map_delete_def on_branch_def)
          have guard: "\<not> (Number p + 1 \<noteq> Number cursor \<or> \<not> EqualFold (Hash p) (ParentHash cursor))"
            using link by simp
          show ?thesis
            using 1(1) [OF Suc False call [symmetric] Inr guard no rec p acc]
            by (simp only: Suc add_Suc_shift)
        qed
      qed
    qed
  qed
qed

lemma getAncestorNumber_Some:
  "getAncestorNumber acc h = Some n \<Longrightarrow> \<exists>p \<in> set acc. EqualFold (fst p) h \<and> snd p = n"
  by (induction acc) (auto simp: getAncestorNumber_def split: if_splits)

lemma common_ancestor_sound:
  "common_ancestor env r cand acc k cursor w = (None, w') \<Longrightarrow>
   \<exists>a. reaches cursor a k \<and> (\<exists>p \<in> set acc. EqualFold (fst p) (Hash a) \<and> snd p = Number a)"
proof (induction env r cand acc k cursor w rule: common_ancestor.induct)
  case (1 env r cand acc k cursor w)
  note step = common_ancestor.simps [of env r cand acc k cursor w]
  show ?case
  proof (cases "getAncestorNumber acc (Hash cursor) = Some (Number cursor)")
    case True
    then show ?thesis using getAncestorNumber_Some by blast
  next
    case False
    obtain n p w1 where p: "k = Suc n" "\<not> (Number cursor = 0 \<or> ParentHash cursor = [])"
      "parent_of env r cand cursor w = (Inr p, w1)"
      "\<not> (Number p + 1 \<noteq> Number cursor \<or> \<not> EqualFold (Hash p) (ParentHash cursor))"
      "common_ancestor env r cand acc n p w1 = (None, w')"
      using 1(2) step False by (auto split: nat.splits prod.splits sum.splits if_splits)
    obtain a where a: "reaches p a n" "\<exists>q \<in> set acc. EqualFold (fst q) (Hash a) \<and> snd q = Number a"
      using 1(1) [OF False p(2,1) p(3) [symmetric] refl p(4,5)] by blast
    have "is_parent p cursor" using p(4) by (simp add: is_parent_def)
    then have "reaches cursor a k" using reaches_front a(1) p(1) by blast
    then show ?thesis using a(2) by blast
  qed
qed

subsection \<open>The fence on the way\<close>

text \<open>The fence is up: the head was pending already, or the store returned it when it began the
  reorg.\<close>

definition fenced :: "'w store_api \<Rightarrow> string \<Rightarrow> head \<Rightarrow> head \<Rightarrow> head \<Rightarrow> bool" where
  "fenced st tok candidate current g \<longleftrightarrow>
     (ReorgPending current \<and> g = current) \<or> (\<exists>w1 w2. st_BeginReorg st (Chain candidate) tok w1 = (Inr g, w2))"

definition fence_state :: "'w store_api \<Rightarrow> string \<Rightarrow> head \<Rightarrow> head \<Rightarrow> divergence \<Rightarrow> bool" where
  "fence_state st tok candidate current d \<longleftrightarrow>
     (if reported d then fenced st tok candidate current (guarded d) else guarded d = current)"

lemma report_None:
  assumes "reportDivergence st tok cand d w = ((None, d'), w')" "fence_state st tok cand cur d"
  shows "fence_state st tok cand cur d' \<and> reported d'"
proof -
  consider (again) "reported d" "d' = d"
    | (pending) "\<not> reported d" "ReorgPending (guarded d)" "d' = d\<lparr>reported := True\<rparr>"
    | (begun) g w1 where "st_BeginReorg st (Chain cand) tok w = (Inr g, w1)" "d' = \<lparr>reported = True, guarded = g\<rparr>"
    using assms(1) by (auto simp: reportDivergence_def split: if_splits prod.splits sum.splits)
  then show ?thesis
  proof cases
    case begun
    then show ?thesis by (auto simp: fence_state_def fenced_def)
  qed (use assms(2) in \<open>auto simp: fence_state_def fenced_def\<close>)
qed

lemma report_if_None:
  assumes "report_if b st tok cand d w = ((None, d'), w')" "fence_state st tok cand cur d"
  shows "fence_state st tok cand cur d'"
  using assms report_None by (cases b) (fastforce simp: report_if_def)+

lemma immediate_child_parent: "immediate_child p c \<Longrightarrow> is_parent p c"
proof -
  assume a: "immediate_child p c"
  then have "Number c - Number p = 1" by (simp add: immediate_child_def)
  then have "Number c = Number p + 1" by (simp add: diff_eq_eq add.commute)
  then show ?thesis using a by (simp add: immediate_child_def is_parent_def EqualFold_sym)
qed

text \<open>What the answer of the transition check proves, with the depth as number of links.\<close>

definition continues :: "nat \<Rightarrow> head \<Rightarrow> head \<Rightarrow> bool" where
  "continues k current candidate \<longleftrightarrow>
     (\<exists>a. reaches candidate a k \<and> same_block a current) \<or> (\<exists>a. reaches current a k \<and> same_block a candidate)"

definition forks :: "nat \<Rightarrow> head \<Rightarrow> head \<Rightarrow> bool" where
  "forks k current candidate \<longleftrightarrow> (\<exists>a b. reaches candidate a (2 * k) \<and> reaches current b k \<and> same_block b a)"

lemma fork_point_sound:
  assumes "fork_point env st r tok cur cand k cursor d w = ((Inr reorg, d'), w')"
    and "fence_state st tok cand cur d" "reaches cand cursor k"
  shows "fence_state st tok cand cur d'"
    "reorg \<Longrightarrow> fenced st tok cand cur (guarded d') \<and> forks k cur cand"
    "\<not> reorg \<Longrightarrow> continues k cur cand"
proof -
  obtain x w1 where anc: "current_ancestors env r cur cand k cur [(Hash cur, Number cur)] w = (x, w1)"
    by (cases "current_ancestors env r cur cand k cur [(Hash cur, Number cur)] w")
  have base: "\<forall>p \<in> set [(Hash cur, Number cur)]. on_branch cur (0 + k) p" by (auto simp: on_branch_def)
  show "fence_state st tok cand cur d'"
    "reorg \<Longrightarrow> fenced st tok cand cur (guarded d') \<and> forks k cur cand"
    "\<not> reorg \<Longrightarrow> continues k cur cand"
  proof -
    obtain res where Inr: "x = Inr res" using assms(1) anc by (cases x) (auto simp: fork_point_def)
    note sound = current_ancestors_sound [OF anc [unfolded Inr] reaches_refl base]
    have "fence_state st tok cand cur d' \<and>
      (if reorg then fenced st tok cand cur (guarded d') \<and> forks k cur cand else continues k cur cand)"
    proof (cases res)
      case Lagging
      then show ?thesis using assms(1,2) anc Inr sound by (auto simp: fork_point_def continues_def)
    next
      case (Collected acc)
      obtain d1 w2 w3 where rep: "reportDivergence st tok cand d w1 = ((None, d1), w2)"
        "common_ancestor env r cand acc k cursor w2 = (None, w3)" "reorg" "d' = d1"
        using assms(1) anc Inr Collected by (auto simp: fork_point_def split: prod.splits option.splits)
      obtain a p where a: "reaches cursor a k" "p \<in> set acc" "EqualFold (fst p) (Hash a)" "snd p = Number a"
        using common_ancestor_sound [OF rep(2)] by blast
      obtain b where b: "reaches cur b k" "Hash b = fst p" "Number b = snd p"
        using sound a(2) Collected by (auto simp: on_branch_def)
      have "reaches cand a (2 * k)" using reaches_trans [OF assms(3) a(1)] by (simp add: mult_2)
      then have "forks k cur cand" using a b unfolding forks_def same_block_def by metis
      then show ?thesis using report_None [OF rep(1) assms(2)] rep(3,4) by (simp add: fence_state_def)
    qed
    then show "fence_state st tok cand cur d'"
      "reorg \<Longrightarrow> fenced st tok cand cur (guarded d') \<and> forks k cur cand"
      "\<not> reorg \<Longrightarrow> continues k cur cand" by auto
  qed
qed

lemma transition_sound:
  assumes "validateEVMTransition env st r tok cur cand w = ((Inr reorg, d), w')"
  defines "k \<equiv> max 1 (nat (ReorgDepth (rt_Config r)))"
  shows "fence_state st tok cand cur d
    \<and> (if reorg then fenced st tok cand cur (guarded d) \<and> forks k cur cand else continues k cur cand)"
proof -
  let ?d = "\<lparr>reported = False, guarded = cur\<rparr>"
  have start: "fence_state st tok cand cur ?d" by (simp add: fence_state_def)
  consider (child) "immediate_child cur cand" "\<not> reorg" "d = ?d"
    | (parent) "immediate_child cand cur" "\<not> reorg" "d = ?d"
    | (walk) d1 d2 w1 w2 w3 w4 cursor b1 b2 where
      "report_if b1 st tok cand ?d w = ((None, d1), w1)" "\<not> ReorgDepth (rt_Config r) < 1"
      "climb_down env r cand (Number cur) (nat (ReorgDepth (rt_Config r))) cand w2 = (Inr cursor, w3)"
      "Number cursor = Number cur \<and> EqualFold (Hash cursor) (Hash cur) \<and> \<not> reorg \<and> d = d1
       \<or> report_if b2 st tok cand d1 w3 = ((None, d2), w4) \<and>
         fork_point env st r tok cur cand (nat (ReorgDepth (rt_Config r))) cursor d2 w4 = ((Inr reorg, d), w')"
    using assms(1)
    by (auto simp: validateEVMTransition_def Let_def split: prod.splits option.splits sum.splits if_splits)
  then show ?thesis
  proof cases
    case child
    have "reaches cand cur k" using reaches_front [OF immediate_child_parent [OF child(1)] reaches_refl [of cur 0]]
      by (rule reaches_mono) (simp add: k_def)
    then show ?thesis using child start by (auto simp: continues_def same_block_def)
  next
    case parent
    have "reaches cur cand k" using reaches_front [OF immediate_child_parent [OF parent(1)] reaches_refl [of cand 0]]
      by (rule reaches_mono) (simp add: k_def)
    then show ?thesis using parent start by (auto simp: continues_def same_block_def)
  next
    case walk
    let ?k = "nat (ReorgDepth (rt_Config r))"
    have k: "k = ?k" using walk(2) by (simp add: k_def)
    have d1: "fence_state st tok cand cur d1" using report_if_None [OF walk(1) start] .
    have cursor: "reaches cand cursor ?k" using climb_down_reaches [OF walk(3)] by simp
    from walk(4) show ?thesis
    proof
      assume "Number cursor = Number cur \<and> EqualFold (Hash cursor) (Hash cur) \<and> \<not> reorg \<and> d = d1"
      then show ?thesis using d1 cursor k by (auto simp: continues_def same_block_def)
    next
      assume f: "report_if b2 st tok cand d1 w3 = ((None, d2), w4) \<and>
         fork_point env st r tok cur cand ?k cursor d2 w4 = ((Inr reorg, d), w')"
      then have r: "report_if b2 st tok cand d1 w3 = ((None, d2), w4)"
        and fp: "fork_point env st r tok cur cand ?k cursor d2 w4 = ((Inr reorg, d), w')" by simp_all
      have "fence_state st tok cand cur d2" using r d1 by (rule report_if_None)
      note sound = fork_point_sound [OF fp this cursor]
      show ?thesis using sound k by auto
    qed
  qed
qed

subsection \<open>What the evidence proves\<close>

lemma block_at_height_Some:
  "block_at_height env r cur i w = (Some h, w') \<Longrightarrow> Origin h = i \<and> Number h = Number cur"
  by (auto simp: block_at_height_def dest: ParseEVMHead_Inr split: prod.splits sum.splits if_splits)

lemma count_evidence_uncertain:
  "count_evidence env r cur is u c m w = ((u', c', m'), w') \<Longrightarrow> u \<Longrightarrow> u'"
  by (induction env r cur "is" u c m w rule: count_evidence.induct) (auto split: prod.splits option.splits)

lemma count_evidence_certain:
  "count_evidence env r cur is u c m w = ((False, c', m'), w') \<Longrightarrow>
   \<exists>hs :: head list. list_all2 (\<lambda>i h. Origin h = i \<and> Number h = Number cur) is hs \<and> c' = c + length hs
     \<and> m' = m + length (filter (\<lambda>h. EqualFold (Hash h) (Hash cur)) hs)"
proof (induction env r cur "is" u c m w rule: count_evidence.induct)
  case (2 env r cur i js u c m w)
  obtain x w1 where call: "block_at_height env r cur i w = (x, w1)" by (cases "block_at_height env r cur i w")
  show ?case
  proof (cases x)
    case None
    then have "count_evidence env r cur js True c m w1 = ((False, c', m'), w')" using 2(3) call by simp
    then show ?thesis using count_evidence_uncertain [of env r cur js True c m w1 False c' m' w'] by simp
  next
    case (Some h)
    let ?m = "if EqualFold (Hash h) (Hash cur) then m + 1 else m"
    have "count_evidence env r cur js u (c + 1) ?m w1 = ((False, c', m'), w')" using 2(3) call Some by simp
    from 2(2) [OF call [symmetric] Some this] obtain hs :: "head list" where
      "list_all2 (\<lambda>i h. Origin h = i \<and> Number h = Number cur) js hs" "c' = c + 1 + length hs"
      "m' = ?m + length (filter (\<lambda>h. EqualFold (Hash h) (Hash cur)) hs)" by blast
    then show ?thesis using block_at_height_Some [OF call [unfolded Some]]
      by (intro exI [of _ "h # hs"]) auto
  qed
qed auto



subsection \<open>Selection\<close>

lemma fold_max_Number:
  "let s = fold (\<lambda>c s. if Number c > Number s then c else s) hs h in
   s \<in> set (h # hs) \<and> (\<forall>x \<in> set (h # hs). Number x \<le> Number s)"
proof (induction hs arbitrary: h)
  case (Cons c hs)
  show ?case
    using Cons.IH [of "if Number c > Number h then c else h"]
    by (auto simp: Let_def split: if_splits)
qed simp

lemma freshest_max:
  "cs \<noteq> [] \<Longrightarrow> freshest cs \<in> set cs \<and> (\<forall>x \<in> set cs. Number x \<le> Number (freshest cs))"
  using fold_max_Number [of "tl cs" "hd cs"] by (cases cs) (auto simp: freshest_def Let_def)

text \<open>
  Selection picks one of the observed heads of the greatest number, the accepted
  identity among them when there is one; it picks a lower head only to observe the accepted head
  again while no observation reaches its number.
\<close>

theorem selection_is_freshest:
  assumes "cs \<noteq> []"
  shows "selectFreshest cur cs \<in> set cs
    \<and> (Number (selectFreshest cur cs) = Max (Number ` set cs)
       \<or> \<not> IsZero cur \<and> Identity (selectFreshest cur cs) = Identity cur \<and> Max (Number ` set cs) < Number cur)
    \<and> (\<not> IsZero cur \<and> (\<exists>c \<in> set cs. Identity c = Identity cur \<and> Number c = Max (Number ` set cs)) \<longrightarrow>
         Identity (selectFreshest cur cs) = Identity cur)"
proof -
  note f = freshest_max [OF assms]
  have max: "Max (Number ` set cs) = Number (freshest cs)"
    using f by (intro Max_eqI) auto
  show ?thesis
  proof (cases "IsZero cur")
    case True
    then show ?thesis using f max by (simp add: selectFreshest_def)
  next
    case False
    show ?thesis
    proof (cases "find (\<lambda>c. Identity c = Identity cur \<and> Number c = Number (freshest cs)) cs")
      case (Some c)
      then have "c \<in> set cs" "Identity c = Identity cur" "Number c = Number (freshest cs)"
        by (auto simp: find_Some_iff)
      then show ?thesis using Some False max by (simp add: selectFreshest_def Let_def)
    next
      case None
      then have none: "\<not> (\<exists>c \<in> set cs. Identity c = Identity cur \<and> Number c = Number (freshest cs))"
        by (auto simp: find_None_iff)
      show ?thesis
      proof (cases "Number (freshest cs) < Number cur \<and> (\<exists>c. find (\<lambda>c. Identity c = Identity cur) cs = Some c)")
        case True
        then obtain c where c: "find (\<lambda>c. Identity c = Identity cur) cs = Some c" by blast
        then have "c \<in> set cs" "Identity c = Identity cur" by (auto simp: find_Some_iff)
        then show ?thesis using c True None False max none by (simp add: selectFreshest_def Let_def)
      next
        case no: False
        then have "selectFreshest cur cs = freshest cs"
          using None False by (auto simp: selectFreshest_def Let_def split: option.splits)
        then show ?thesis using f max none by auto
      qed
    qed
  qed
qed

theorem selection_is_freshest_witness:
  "selectFreshest zero_head [zero_head\<lparr>Number := 3\<rparr>] \<in> set [zero_head\<lparr>Number := 3\<rparr>]"
  using selection_is_freshest [of "[zero_head\<lparr>Number := 3\<rparr>]" zero_head] by blast

subsection \<open>Publication behind the fence\<close>

text \<open>What the coordinator needs of the store: a reorg that began left the returned head pending.\<close>

locale reorg_store =
  fixes st :: "'w store_api"
  assumes begin_pending: "st_BeginReorg st chain tok w = (Inr g, w') \<Longrightarrow> ReorgPending g"
begin

lemma fenced_pending: "fenced st tok cand cur g \<Longrightarrow> ReorgPending g"
  by (auto simp: fenced_def dest: begin_pending)

lemma decision_behind_fence:
  assumes "decide env st r tok snap cand w = (Publishing h, w')"
    and "Get snap (Commitment cand) = Some cur" "Family cand = ''evm''"
  defines "k \<equiv> max 1 (nat (ReorgDepth (rt_Config r)))"
  shows "\<not> ReorgPending h \<and>
    ((EqualFold (Hash cand) (Hash cur) \<or> continues k cur cand) \<and> (\<exists>g. h = acknowledged g cand)
     \<or> (\<exists>g. fenced st tok cand cur g \<and> ReorgPending g \<and> ReorgEpoch h = ReorgEpoch g \<and> forks k cur cand
          \<and> (h = acknowledged g cand \<or> Hash h = Hash g \<and> Number h = Number g)))"
proof -
  have dec: "decide_evm env st r tok cur cand w = (Publishing h, w')"
    using assms(1-3) by (simp add: decide_def)
  show ?thesis
  proof (cases "EqualFold (Hash cand) (Hash cur)")
    case True
    then have "h = acknowledged cur cand"
      using dec by (auto simp: decide_evm_def split: if_splits prod.splits sum.splits)
    then show ?thesis using True by (auto simp: acknowledged_def)
  next
    case False
    then have tr: "decide_transition env st r tok cur cand w = (Publishing h, w')"
      using dec by (simp add: decide_evm_def)
    obtain reorg d w1 where v: "validateEVMTransition env st r tok cur cand w = ((Inr reorg, d), w1)"
      using tr by (auto simp: decide_transition_def split: prod.splits sum.splits)
    have h: "h = acknowledged (guarded d) cand \<or>
        reorg \<and> (\<exists>t. h = acknowledged (guarded d) ((guarded d)\<lparr>ObservedAt := t\<rparr>))"
      using tr v by (auto simp: decide_transition_def Let_def split: prod.splits sum.splits if_splits)
    note sound = transition_sound [OF v, folded k_def]
    show ?thesis
    proof (cases reorg)
      case False
      then show ?thesis using h sound by (auto simp: acknowledged_def)
    next
      case True
      then have "fenced st tok cand cur (guarded d)" "forks k cur cand" using sound by auto
      moreover from this(1) have "ReorgPending (guarded d)" by (rule fenced_pending)
      moreover have "\<not> ReorgPending h \<and> ReorgEpoch h = ReorgEpoch (guarded d) \<and>
          (h = acknowledged (guarded d) cand \<or> Hash h = Hash (guarded d) \<and> Number h = Number (guarded d))"
        using h by (auto simp: acknowledged_def)
      ultimately show ?thesis by blast
    qed
  qed
qed

end

text \<open>The memory store, beside the rest of the world, as the coordinator's store.\<close>

definition mem_api :: "('v \<Rightarrow> time) \<Rightarrow> (mem_store \<times> 'v) store_api" where
  "mem_api clock =
     \<lparr>st_Snapshot = (\<lambda>c (m, v). (Inr (Snapshot c m), m, v)),
      st_BeginReorg = (\<lambda>c tok (m, v). case BeginReorg (clock v) c tok m of (x, m') \<Rightarrow> (x, m', v)),
      st_Publish = (\<lambda>tok h (m, v). case Publish (clock v) tok h m of (x, m') \<Rightarrow> (x, m', v))\<rparr>"

lemma BeginReorg_pending: "BeginReorg t c tok m = (Inr g, m') \<Longrightarrow> ReorgPending g"
  by (cases rule: BeginReorg_cases) auto

interpretation mem_reorg: reorg_store "mem_api clock" for clock :: "'v \<Rightarrow> time"
  by unfold_locales (auto simp: mem_api_def split: prod.splits dest: BeginReorg_pending)


definition blocked_env :: "(mem_store \<times> unit) node_env" where
  "blocked_env = \<lparr>now_of = (\<lambda>_. 1), node_call = (\<lambda>_ _ _ w. (Inl ''down'', w)), node_healthy = (\<lambda>_ _. True),
     node_score = (\<lambda>_ _. 0), node_eip1898 = (\<lambda>_ _. True), node_pinned = (\<lambda>_ _ _. True),
     set_eip1898 = (\<lambda>_ _ w. w), set_pinned = (\<lambda>_ _ _ w. w),
     node_supports = (\<lambda>_ _ _. True), mark_unsupported = (\<lambda>_ _ w. w)\<rparr>"


subsection \<open>Subscriptions\<close>

record coordinator =
  subscriptions :: "string \<Rightarrow> time option"
  providerHeads :: "string \<times> string \<Rightarrow> u64 option"

definition NewCoordinator :: coordinator where
  "NewCoordinator = \<lparr>subscriptions = (\<lambda>_. None), providerHeads = (\<lambda>_. None)\<rparr>"

definition hasFreshSubscription :: "time \<Rightarrow> runtime \<Rightarrow> string \<Rightarrow> coordinator \<Rightarrow> bool" where
  "hasFreshSubscription now r i c \<longleftrightarrow>
     (case subscriptions c i of None \<Rightarrow> False
      | Some lastHead \<Rightarrow> time_sub now lastHead < WebsocketIdleTimeout (rt_Config r))"

definition setSubscriptionHead :: "string \<Rightarrow> time \<Rightarrow> coordinator \<Rightarrow> coordinator" where
  "setSubscriptionHead i observedAt c = c\<lparr>subscriptions := (subscriptions c)(i \<mapsto> observedAt)\<rparr>"

definition clearSubscription :: "string \<Rightarrow> coordinator \<Rightarrow> coordinator" where
  "clearSubscription i c = c\<lparr>subscriptions := (subscriptions c)(i := None)\<rparr>"

definition recordProviderHead :: "head \<Rightarrow> coordinator \<Rightarrow> coordinator" where
  "recordProviderHead h c = c\<lparr>providerHeads := (providerHeads c)((Origin h, Commitment h) \<mapsto> Number h)\<rparr>"

text \<open>The upstreams one EVM poll asks: those a fresh subscription does not serve.\<close>

definition poll_targets :: "'w node_env \<Rightarrow> runtime \<Rightarrow> string \<Rightarrow> coordinator \<Rightarrow> 'w \<Rightarrow> string list" where
  "poll_targets env r commitment c w =
     filter (\<lambda>i. \<not> (cc_Family (rt_Config r) = ''evm'' \<and> commitment = Latest \<and> hasFreshSubscription (now_of env w) r i c))
       (Candidates env r False w)"

fun poll_heads :: "'w node_env \<Rightarrow> runtime \<Rightarrow> string \<Rightarrow> string list \<Rightarrow> coordinator \<Rightarrow> 'w \<Rightarrow> head list \<times> coordinator \<times> 'w" where
  "poll_heads env r commitment [] c w = ([], c, w)"
| "poll_heads env r commitment (i # is) c w =
     (case pollOne env r i commitment w of
        (Inl _, w1) \<Rightarrow> poll_heads env r commitment is c w1
      | (Inr h, w1) \<Rightarrow>
          (case poll_heads env r commitment is (recordProviderHead h c) w1 of (hs, c', w') \<Rightarrow> (h # hs, c', w')))"

text \<open>One poll of a commitment: what it sends to fork detection.\<close>

definition poll :: "'w node_env \<Rightarrow> 'w store_api \<Rightarrow> runtime \<Rightarrow> string \<Rightarrow> coordinator \<Rightarrow> 'w \<Rightarrow> head list \<times> coordinator \<times> 'w" where
  "poll env st r commitment c w =
     (case poll_heads env r commitment (poll_targets env r commitment c w) c w of
        (candidates, c1, w1) \<Rightarrow>
          if candidates = [] then ([], c1, w1)
          else
            (case st_Snapshot st (cc_Name (rt_Config r)) w1 of
               (Inl _, w2) \<Rightarrow> ([], c1, w2)
             | (Inr snap, w2) \<Rightarrow>
                 (poll_output (cc_Family (rt_Config r)) (or_zero (Get snap commitment)) candidates, c1, w2)))"

datatype frame = ReadError | Garbage | Frame json

text \<open>A notification's subscription and result; \<open>None\<close> when the frame is not one of ours.\<close>

definition notification_result :: "string \<Rightarrow> json \<Rightarrow> raw option" where
  "notification_result subscription v =
     (case struct_members v of None \<Rightarrow> None
      | Some ms \<Rightarrow>
          (case (string_field ''jsonrpc'' ms, string_field ''method'' ms,
                 traverse (\<lambda>p. case struct_members p of None \<Rightarrow> Inl () | Some q \<Rightarrow> Inr q) (struct_values ''params'' ms)) of
             (Some j, Some m, Inr ps) \<Rightarrow>
               (case (string_field ''subscription'' (concat ps), raw_field ''result'' (concat ps)) of
                  (Some s, Some res) \<Rightarrow>
                    if j \<noteq> ''2.0'' \<or> m \<noteq> ''eth_subscription'' \<or> s \<noteq> subscription then None else Some res
                | _ \<Rightarrow> None)
           | _ \<Rightarrow> None))"

datatype watch = Skip | Stop | Observe head

definition watch_frame :: "'w node_env \<Rightarrow> (string \<Rightarrow> 'w probe_body \<Rightarrow> runtime \<times> 'w \<Rightarrow> probe_flight \<times> runtime \<times> 'w) \<Rightarrow>
    string \<Rightarrow> string \<Rightarrow> head \<Rightarrow> frame \<Rightarrow> runtime \<times> 'w \<Rightarrow> watch \<times> runtime \<times> 'w" where
  "watch_frame env do_chan i subscription lastHead fr = (\<lambda>(r, w).
     case fr of
       ReadError \<Rightarrow> (Stop, r, w)
     | Garbage \<Rightarrow> (Skip, r, w)
     | Frame payload \<Rightarrow>
         (case notification_result subscription payload of
            None \<Rightarrow> (Skip, r, w)
          | Some res \<Rightarrow>
              (case ParseEVMHead (now_of env w) r Latest i res of
                 Inl _ \<Rightarrow> (Skip, r, w)
               | Inr observedHead \<Rightarrow>
                   if EqualFold (Hash observedHead) (Hash lastHead) then (Skip, r, w)
                   else if \<not> IsValid r i \<or> \<not> node_healthy env i w then (Stop, r, w)
                   else
                     (case HasEVMBlock env do_chan i observedHead (r, w) of
                        (Inr True, s) \<Rightarrow> (Observe observedHead, s)
                      | (_, s) \<Rightarrow> (Stop, s)))))"

text \<open>The session after its acknowledgment, over the frames it reads (each with the world at its
  arrival); it ends with the frames, on a failed read, or when a head is not available.\<close>

fun watch_loop :: "'w node_env \<Rightarrow> (string \<Rightarrow> 'w probe_body \<Rightarrow> runtime \<times> 'w \<Rightarrow> probe_flight \<times> runtime \<times> 'w) \<Rightarrow>
    string \<Rightarrow> string \<Rightarrow> (frame \<times> 'w) list \<Rightarrow> head \<Rightarrow> runtime \<Rightarrow> coordinator \<Rightarrow> head list \<times> runtime \<times> coordinator" where
  "watch_loop env do_chan i subscription [] lastHead r c = ([], r, clearSubscription i c)"
| "watch_loop env do_chan i subscription ((fr, w) # frames) lastHead r c =
     (case watch_frame env do_chan i subscription lastHead fr (r, w) of
        (Skip, r1, _) \<Rightarrow> watch_loop env do_chan i subscription frames lastHead r1 c
      | (Stop, r1, _) \<Rightarrow> ([], r1, clearSubscription i c)
      | (Observe h, r1, _) \<Rightarrow>
          (case watch_loop env do_chan i subscription frames h r1
                  (setSubscriptionHead i (ObservedAt h) (recordProviderHead h c)) of
             (hs, r2, c2) \<Rightarrow> (h # hs, r2, c2)))"

definition acknowledgment :: "json \<Rightarrow> string option" where
  "acknowledgment v =
     (case struct_members v of None \<Rightarrow> None
      | Some ms \<Rightarrow>
          (case (string_field ''jsonrpc'' ms, raw_field ''id'' ms, string_field ''result'' ms, raw_field ''error'' ms) of
             (Some j, Some i, Some res, Some e) \<Rightarrow>
               if j \<noteq> ''2.0'' \<or> i \<noteq> Some (JNum ''1'') \<or> res = [] \<or> e \<noteq> None then None else Some res
           | _ \<Rightarrow> None))"

definition watchEVMSession :: "'w node_env \<Rightarrow> (string \<Rightarrow> 'w probe_body \<Rightarrow> runtime \<times> 'w \<Rightarrow> probe_flight \<times> runtime \<times> 'w) \<Rightarrow>
    string \<Rightarrow> frame \<Rightarrow> (frame \<times> 'w) list \<Rightarrow> runtime \<Rightarrow> coordinator \<Rightarrow> 'w \<Rightarrow> head list \<times> runtime \<times> coordinator" where
  "watchEVMSession env do_chan i ack frames r c w =
     (case ack of
        Frame payload \<Rightarrow>
          (case acknowledgment payload of
             None \<Rightarrow> ([], r, clearSubscription i c)
           | Some subscription \<Rightarrow>
               (case pollOne env r i Latest w of
                  (Inl _, _) \<Rightarrow> ([], r, clearSubscription i c)
                | (Inr lastHead, _) \<Rightarrow>
                    (case watch_loop env do_chan i subscription frames lastHead r
                            (setSubscriptionHead i (ObservedAt lastHead) (recordProviderHead lastHead c)) of
                       (hs, r1, c1) \<Rightarrow> (lastHead # hs, r1, c1))))
      | _ \<Rightarrow> ([], r, clearSubscription i c))"

definition confirmed_by :: "'w node_env \<Rightarrow> (string \<Rightarrow> 'w probe_body \<Rightarrow> runtime \<times> 'w \<Rightarrow> probe_flight \<times> runtime \<times> 'w) \<Rightarrow>
    string \<Rightarrow> head \<Rightarrow> bool" where
  "confirmed_by env do_chan i h \<longleftrightarrow>
     Origin h = i \<and> Commitment h = Latest \<and> Family h = ''evm'' \<and> (\<exists>s s'. HasEVMBlock env do_chan i h s = (Inr True, s'))"

lemma watch_frame_Observe:
  assumes "watch_frame env do_chan i sub l fr (r, w) = (Observe h, s)"
  shows "\<not> EqualFold (Hash h) (Hash l) \<and> confirmed_by env do_chan i h"
proof -
  obtain res where "ParseEVMHead (now_of env w) r Latest i res = Inr h" "\<not> EqualFold (Hash h) (Hash l)"
    "HasEVMBlock env do_chan i h (r, w) = (Inr True, s)"
    using assms
    by (auto simp: watch_frame_def split: frame.splits option.splits sum.splits prod.splits if_splits bool.splits)
  then show ?thesis using ParseEVMHead_Inr unfolding confirmed_by_def by blast
qed

lemma watch_loop_outputs:
  "watch_loop env do_chan i sub frames l r c = (hs, r', c') \<Longrightarrow>
     list_all (confirmed_by env do_chan i) hs \<and> successively (\<lambda>a b. \<not> EqualFold (Hash b) (Hash a)) (l # hs)
     \<and> subscriptions c' i = None"
proof (induction frames arbitrary: l r c hs)
  case (Cons f frames)
  obtain fr w where f: "f = (fr, w)" by (cases f)
  obtain x r1 w1 where x: "watch_frame env do_chan i sub l fr (r, w) = (x, r1, w1)" by (metis prod_cases3)
  show ?case
  proof (cases x)
    case (Observe h)
    obtain hs1 where hs: "hs = h # hs1" "watch_loop env do_chan i sub frames h r1
        (setSubscriptionHead i (ObservedAt h) (recordProviderHead h c)) = (hs1, r', c')"
      using Cons.prems f x Observe by (auto split: prod.splits)
    from Cons.IH [OF hs(2)] watch_frame_Observe [OF x [unfolded Observe]] hs(1) show ?thesis by simp
  next
    case Skip
    then show ?thesis using Cons f x by simp
  next
    case Stop
    then show ?thesis using Cons.prems f x by (auto simp: clearSubscription_def)
  qed
qed (auto simp: clearSubscription_def)

text \<open>
  Property C35. A subscription session reports its polled head first, then only heads of that
  upstream that an availability check confirmed, never two of the same hash in a row; and when it
  ends the upstream counts as unsubscribed, so that polling serves it again.
\<close>

theorem session_reports_confirmed_heads:
  assumes "watchEVMSession env do_chan i ack frames r c w = (hs, r', c')"
  shows "list_all (confirmed_by env do_chan i) (tl hs) \<and> successively (\<lambda>a b. \<not> EqualFold (Hash b) (Hash a)) hs
    \<and> (hs \<noteq> [] \<longrightarrow> (\<exists>w1. pollOne env r i Latest w = (Inr (hd hs), w1)))
    \<and> \<not> hasFreshSubscription now r' i c'"
proof -
  have unsub: "\<not> hasFreshSubscription now r' i c'" if "subscriptions c' i = None"
    using that by (simp add: hasFreshSubscription_def)
  consider (none) "hs = []" "c' = clearSubscription i c"
    | (some) l w1 sub hs1 c1 where "pollOne env r i Latest w = (Inr l, w1)" "hs = l # hs1"
      "watch_loop env do_chan i sub frames l r c1 = (hs1, r', c')"
    using assms by (auto simp: watchEVMSession_def split: frame.splits option.splits prod.splits sum.splits)
  then show ?thesis
  proof cases
    case none
    then show ?thesis using unsub by (simp add: clearSubscription_def)
  next
    case some
    then show ?thesis using watch_loop_outputs [OF some(3)] unsub by auto
  qed
qed

theorem session_reports_confirmed_heads_witness:
  "\<not> hasFreshSubscription 5 sample_runtime ''a'' (snd (snd (watchEVMSession sample_env (\<lambda>_ _ s. (ProbeCtxDone [], s)) ''a''
     Garbage [] sample_runtime NewCoordinator [])))"
  using session_reports_confirmed_heads [of sample_env "\<lambda>_ _ s. (ProbeCtxDone [], s)" "''a''" Garbage "[]" sample_runtime
      NewCoordinator "[]" "[]" sample_runtime "clearSubscription ''a'' NewCoordinator" 5]
  by (simp add: watchEVMSession_def)

end
