(* ===== verification/Leader.thy ===== *)
theory Leader
  imports Coordinator Runtime_Steps
begin

text \<open>
  The life of one chain's coordinator, \<^verbatim>\<open>Run\<close> and \<^verbatim>\<open>runLeader\<close> of \<^verbatim>\<open>internal/coordinator\<close>, as a state
  machine: replicas compete for the lease, the winner starts a goroutine that renews it, one that watches
  each upstream with a websocket, and one per polled commitment; all of them send observations to one
  channel, from which the term's loop takes the heads it considers. A term ends when the lease or the
  parent context is lost or an operation of the store is refused; then the loop waits for every goroutine
  and releases the lease. A step is one turn of one goroutine, between two points where it waits; the
  label of a step names the goroutine. A \<^verbatim>\<open>select\<close> with several ready cases is several steps.

  The lemmas give the invariant of the machine (nothing of a term outlives it, what the channel holds),
  and that the end of a term always completes: no goroutine is left waiting on a full channel.
\<close>

record 'w leader_env =
  le_env :: "'w node_env"
  le_store :: "'w store_api"
  le_Acquire :: "string \<Rightarrow> string \<Rightarrow> duration \<Rightarrow> 'w \<Rightarrow> (string \<times> bool \<times> store_error option) \<times> 'w"
  le_Renew :: "string \<Rightarrow> string \<Rightarrow> duration \<Rightarrow> 'w \<Rightarrow> (bool \<times> store_error option) \<times> 'w"
  le_Release :: "string \<Rightarrow> string \<Rightarrow> 'w \<Rightarrow> store_error option \<times> 'w"
  le_probe :: "'w probe_group"
  le_owner :: string
  le_ttl :: duration

datatype phase = Competing | Backoff | Leading string | Leaving string | Returned

datatype poll_worker = Probing | Sending "head list"

text \<open>A watcher is at the top of its loop, waits before it reconnects, sets a session up, sends a head,
  is at the top of the session's loop, or reads; with the subscription and the session's last head.\<close>

datatype watcher = WatchTop | WatchWait | WatchDial | WatchSend string head | WatchLoop string head | WatchRead string head

record 'w leader =
  ld_phase :: phase
  ld_stopped :: bool
  ld_cancelled :: bool
  ld_lease :: "string option"
  ld_polls :: "string \<Rightarrow> poll_worker option"
  ld_watchers :: "string \<Rightarrow> watcher option"
  ld_queue :: "head list"
  ld_runtime :: runtime
  ld_coord :: coordinator
  ld_world :: 'w

datatype goroutine = Main | Renewal | Keeper | Poller string | Watcher string | Outside

definition new_leader :: "runtime \<Rightarrow> 'w \<Rightarrow> 'w leader" where
  "new_leader r w = \<lparr>ld_phase = Competing, ld_stopped = False, ld_cancelled = False, ld_lease = None, ld_polls = (\<lambda>_. None),
     ld_watchers = (\<lambda>_. None), ld_queue = [], ld_runtime = r, ld_coord = NewCoordinator, ld_world = w\<rparr>"

text \<open>The term's context is done: it was cancelled, or its parent was.\<close>

definition ctx_done :: "'w leader \<Rightarrow> bool" where
  "ctx_done s \<longleftrightarrow> ld_stopped s \<or> ld_cancelled s"

definition queue_limit :: nat where
  "queue_limit = 128"

definition poll_commitments :: "ChainConfig \<Rightarrow> string list" where
  "poll_commitments cfg = (if cc_Family cfg = ''solana'' then [Processed, Confirmed, Finalized] else [Latest])"

definition watched :: "ChainConfig \<Rightarrow> string list" where
  "watched cfg = (if cc_Family cfg = ''evm'' then map up_ID (filter (\<lambda>u. up_WebsocketURL u \<noteq> []) (Upstreams cfg)) else [])"

subsection \<open>The term\<close>

definition start_poll :: "string \<Rightarrow> 'w leader \<Rightarrow> 'w leader" where
  "start_poll commitment s =
     (case ld_polls s commitment of
        Some running \<Rightarrow> s
      | None \<Rightarrow> s\<lparr>ld_polls := (ld_polls s)(commitment \<mapsto> Probing)\<rparr>)"

definition start_polls :: "'w leader \<Rightarrow> 'w leader" where
  "start_polls s = fold start_poll (poll_commitments (rt_Config (ld_runtime s))) s"

definition begin_term :: "string \<Rightarrow> 'w leader \<Rightarrow> 'w leader" where
  "begin_term tok s = start_polls (s\<lparr>ld_phase := Leading tok, ld_cancelled := False, ld_lease := Some tok, ld_queue := [],
     ld_watchers := (\<lambda>i. if i \<in> set (watched (rt_Config (ld_runtime s))) then Some WatchTop else None)\<rparr>)"

definition acquire_turn :: "'w leader_env \<Rightarrow> 'w leader \<Rightarrow> 'w leader" where
  "acquire_turn E s =
     (case le_Acquire E (cc_Name (rt_Config (ld_runtime s))) (le_owner E) (le_ttl E) (ld_world s) of
        ((tok, acquired, _), w) \<Rightarrow>
          if acquired then begin_term tok (s\<lparr>ld_world := w\<rparr>) else s\<lparr>ld_phase := Backoff, ld_world := w\<rparr>)"

text \<open>The gauges of one accepted head, and of all of them.\<close>

datatype gauge =
    GaugePending bool
  | GaugeAge string string duration
  | GaugeStuck string string duration
  | GaugeLag string string string u64

definition head_lag :: "u64 \<Rightarrow> u64 \<Rightarrow> u64" where
  "head_lag accepted number = (if accepted > number then accepted - number else 0)"

definition head_gauges :: "time \<Rightarrow> runtime \<Rightarrow> coordinator \<Rightarrow> string \<Rightarrow> head \<Rightarrow> gauge list" where
  "head_gauges now r c commitment h =
     (if Family h = ''evm'' then [GaugePending (ReorgPending h)] else [])
     @ (if IsZeroTime (ObservedAt h) then [] else [GaugeAge (Family h) commitment (time_sub now (ObservedAt h))])
     @ (if IsZeroTime (ChangedAt h) then [] else [GaugeStuck (Family h) commitment (time_sub now (ChangedAt h))])
     @ concat (map (\<lambda>i. case providerHeads c (i, commitment) of None \<Rightarrow> []
                       | Some number \<Rightarrow> [GaugeLag (Family h) commitment i (head_lag (Number h) number)]) (upstream_ids r))"

definition emitHeadAges :: "'w node_env \<Rightarrow> 'w store_api \<Rightarrow> runtime \<Rightarrow> coordinator \<Rightarrow> 'w \<Rightarrow> (string \<Rightarrow> gauge list) \<times> 'w" where
  "emitHeadAges env st r c w =
     (case st_Snapshot st (cc_Name (rt_Config r)) w of
        (Inl _, w1) \<Rightarrow> (\<lambda>_. [], w1)
      | (Inr snap, w1) \<Rightarrow>
          (\<lambda>commitment. case sHeads snap commitment of None \<Rightarrow> []
             | Some h \<Rightarrow> if cc_Family (rt_Config r) = ''evm'' \<and> commitment \<noteq> Latest then []
                 else head_gauges (now_of env w1) r c commitment h, w1))"

definition tick_turn :: "'w leader_env \<Rightarrow> 'w leader \<Rightarrow> 'w leader" where
  "tick_turn E s = (start_polls s)
     \<lparr>ld_world := snd (emitHeadAges (le_env E) (le_store E) (ld_runtime s) (ld_coord s) (ld_world s))\<rparr>"

definition leave :: "string \<Rightarrow> 'w leader \<Rightarrow> 'w leader" where
  "leave tok s = s\<lparr>ld_phase := Leaving tok, ld_cancelled := True\<rparr>"

definition consider_turn :: "'w leader_env \<Rightarrow> string \<Rightarrow> head \<Rightarrow> head list \<Rightarrow> 'w leader \<Rightarrow> 'w leader" where
  "consider_turn E tok h hs s =
     (case consider_head (le_env E) (le_store E) (ld_runtime s) tok h (ld_world s) of
        (e, w) \<Rightarrow>
          let s1 = s\<lparr>ld_queue := hs, ld_world := w\<rparr> in
          if e = Some (StoreFailed ErrLeadershipLost) then leave tok s1 else s1)"

text \<open>All goroutines of the term have returned.\<close>

definition quiet :: "'w leader \<Rightarrow> bool" where
  "quiet s \<longleftrightarrow> ld_lease s = None \<and> ld_polls s = (\<lambda>_. None) \<and> ld_watchers s = (\<lambda>_. None)"

definition release_turn :: "'w leader_env \<Rightarrow> string \<Rightarrow> 'w leader \<Rightarrow> 'w leader" where
  "release_turn E tok s =
     (case le_Release E (cc_Name (rt_Config (ld_runtime s))) tok (ld_world s) of
        (_, w) \<Rightarrow> s\<lparr>ld_phase := Backoff, ld_world := w\<rparr>)"

definition renew_turn :: "'w leader_env \<Rightarrow> string \<Rightarrow> 'w leader \<Rightarrow> 'w leader" where
  "renew_turn E tok s =
     (case le_Renew E (cc_Name (rt_Config (ld_runtime s))) tok (le_ttl E) (ld_world s) of
        ((ok, e), w) \<Rightarrow>
          if e \<noteq> None \<or> \<not> ok then s\<lparr>ld_world := w, ld_cancelled := True, ld_lease := None\<rparr>
          else s\<lparr>ld_world := w\<rparr>)"

subsection \<open>Polls\<close>

definition sending :: "head list \<Rightarrow> poll_worker option" where
  "sending hs = (if hs = [] then None else Some (Sending hs))"

definition probe_turn :: "'w leader_env \<Rightarrow> string \<Rightarrow> 'w leader \<Rightarrow> 'w leader" where
  "probe_turn E commitment s =
     (case poll (le_env E) (le_store E) (ld_runtime s) commitment (ld_coord s) (ld_world s) of
        (hs, c, w) \<Rightarrow> s\<lparr>ld_polls := (ld_polls s)(commitment := sending hs), ld_coord := c, ld_world := w\<rparr>)"

definition send_turn :: "string \<Rightarrow> head \<Rightarrow> head list \<Rightarrow> 'w leader \<Rightarrow> 'w leader" where
  "send_turn commitment h hs s =
     s\<lparr>ld_polls := (ld_polls s)(commitment := sending hs), ld_queue := ld_queue s @ [h]\<rparr>"

subsection \<open>Watchers\<close>

text \<open>The end of a session: unsubscribed, then the wait, unless the term is over.\<close>

definition end_session :: "string \<Rightarrow> 'w leader \<Rightarrow> 'w leader" where
  "end_session i s = s\<lparr>ld_coord := clearSubscription i (ld_coord s),
     ld_watchers := (ld_watchers s)(i := if ctx_done s then None else Some WatchWait)\<rparr>"

definition observe :: "string \<Rightarrow> string \<Rightarrow> head \<Rightarrow> 'w leader \<Rightarrow> 'w leader" where
  "observe i subscription h s = s\<lparr>ld_coord := recordProviderHead h (ld_coord s),
     ld_watchers := (ld_watchers s)(i \<mapsto> WatchSend subscription h)\<rparr>"

definition top_turn :: "'w leader_env \<Rightarrow> string \<Rightarrow> 'w leader \<Rightarrow> 'w leader" where
  "top_turn E i s = s\<lparr>ld_watchers := (ld_watchers s)(i :=
     if ctx_done s then None
     else if \<not> IsValid (ld_runtime s) i \<or> \<not> node_healthy (le_env E) i (ld_world s) then Some WatchWait
     else Some WatchDial)\<rparr>"

text \<open>Dialing, the subscription and its acknowledgment (\<open>ReadError\<close> when one of them fails), the polled
  first head.\<close>

definition dial_turn :: "'w leader_env \<Rightarrow> string \<Rightarrow> frame \<Rightarrow> 'w leader \<Rightarrow> 'w leader" where
  "dial_turn E i ack s =
     (case ack of
        Frame payload \<Rightarrow>
          (case acknowledgment payload of
             None \<Rightarrow> end_session i s
           | Some subscription \<Rightarrow>
               (case pollOne (le_env E) (ld_runtime s) i Latest (ld_world s) of
                  (Inl _, w) \<Rightarrow> end_session i (s\<lparr>ld_world := w\<rparr>)
                | (Inr h, w) \<Rightarrow> observe i subscription h (s\<lparr>ld_world := w\<rparr>)))
      | _ \<Rightarrow> end_session i s)"

definition emit_turn :: "string \<Rightarrow> string \<Rightarrow> head \<Rightarrow> 'w leader \<Rightarrow> 'w leader" where
  "emit_turn i subscription h s = s\<lparr>ld_queue := ld_queue s @ [h],
     ld_coord := setSubscriptionHead i (ObservedAt h) (ld_coord s),
     ld_watchers := (ld_watchers s)(i \<mapsto> WatchLoop subscription h)\<rparr>"

definition loop_turn :: "string \<Rightarrow> string \<Rightarrow> head \<Rightarrow> 'w leader \<Rightarrow> 'w leader" where
  "loop_turn i subscription h s =
     (if ctx_done s then end_session i s
      else s\<lparr>ld_watchers := (ld_watchers s)(i \<mapsto> WatchRead subscription h)\<rparr>)"

definition read_turn :: "'w leader_env \<Rightarrow> string \<Rightarrow> string \<Rightarrow> head \<Rightarrow> frame \<Rightarrow> 'w leader \<Rightarrow> 'w leader" where
  "read_turn E i subscription h fr s =
     (case watch_frame (le_env E) (le_probe E) i subscription h fr (ld_runtime s, ld_world s) of
        (x, r, w) \<Rightarrow>
          let s1 = s\<lparr>ld_runtime := r, ld_world := w\<rparr> in
          (case x of
             Skip \<Rightarrow> s1\<lparr>ld_watchers := (ld_watchers s)(i \<mapsto> WatchLoop subscription h)\<rparr>
           | Stop \<Rightarrow> end_session i s1
           | Observe h' \<Rightarrow> observe i subscription h' s1))"

subsection \<open>Steps\<close>

inductive leader_step :: "'w leader_env \<Rightarrow> goroutine \<Rightarrow> 'w leader \<Rightarrow> 'w leader \<Rightarrow> bool" for E where
  acquire: "ld_phase s = Competing \<Longrightarrow> leader_step E Main s (acquire_turn E s)"
| again: "ld_phase s = Backoff \<Longrightarrow> leader_step E Main s (s\<lparr>ld_phase := Competing\<rparr>)"
| return: "ld_phase s = Backoff \<Longrightarrow> ld_stopped s \<Longrightarrow> leader_step E Main s (s\<lparr>ld_phase := Returned\<rparr>)"
| tick: "ld_phase s = Leading tok \<Longrightarrow> leader_step E Main s (tick_turn E s)"
| considered: "ld_phase s = Leading tok \<Longrightarrow> ld_queue s = h # hs \<Longrightarrow> leader_step E Main s (consider_turn E tok h hs s)"
| leaving: "ld_phase s = Leading tok \<Longrightarrow> ctx_done s \<Longrightarrow> leader_step E Main s (leave tok s)"
| release: "ld_phase s = Leaving tok \<Longrightarrow> quiet s \<Longrightarrow> leader_step E Main s (release_turn E tok s)"
| renew: "ld_lease s = Some tok \<Longrightarrow> leader_step E Renewal s (renew_turn E tok s)"
| renewed: "ld_lease s = Some tok \<Longrightarrow> ctx_done s \<Longrightarrow> leader_step E Keeper s (s\<lparr>ld_lease := None\<rparr>)"
| probe: "ld_polls s c = Some Probing \<Longrightarrow> leader_step E (Poller c) s (probe_turn E c s)"
| send: "ld_polls s c = Some (Sending (h # hs)) \<Longrightarrow> length (ld_queue s) < queue_limit \<Longrightarrow>
    leader_step E (Poller c) s (send_turn c h hs s)"
| unsent: "ld_polls s c = Some (Sending hs) \<Longrightarrow> ctx_done s \<Longrightarrow>
    leader_step E (Poller c) s (s\<lparr>ld_polls := (ld_polls s)(c := None)\<rparr>)"
| top: "ld_watchers s i = Some WatchTop \<Longrightarrow> leader_step E (Watcher i) s (top_turn E i s)"
| woken: "ld_watchers s i = Some WatchWait \<Longrightarrow>
    leader_step E (Watcher i) s (s\<lparr>ld_watchers := (ld_watchers s)(i \<mapsto> WatchTop)\<rparr>)"
| dial: "ld_watchers s i = Some WatchDial \<Longrightarrow> leader_step E (Watcher i) s (dial_turn E i ack s)"
| emit: "ld_watchers s i = Some (WatchSend sub h) \<Longrightarrow> length (ld_queue s) < queue_limit \<Longrightarrow>
    leader_step E (Watcher i) s (emit_turn i sub h s)"
| unemitted: "ld_watchers s i = Some (WatchSend sub h) \<Longrightarrow> ctx_done s \<Longrightarrow> leader_step E (Watcher i) s (end_session i s)"
| loop: "ld_watchers s i = Some (WatchLoop sub h) \<Longrightarrow> leader_step E (Watcher i) s (loop_turn i sub h s)"
| reads: "ld_watchers s i = Some (WatchRead sub h) \<Longrightarrow> leader_step E (Watcher i) s (read_turn E i sub h fr s)"
| stop: "leader_step E Outside s (s\<lparr>ld_stopped := True\<rparr>)"
| others: "rt_Config r = rt_Config (ld_runtime s) \<Longrightarrow> leader_step E Outside s (s\<lparr>ld_runtime := r, ld_world := w\<rparr>)"

text \<open>The steps of one goroutine.\<close>

inductive_cases main_step [consumes 1, case_names acquire again return tick considered leaving release]:
  "leader_step E Main s s'"

inductive_cases renewal_step [consumes 1, case_names renew]: "leader_step E Renewal s s'"

inductive_cases keeper_step [consumes 1, case_names renewed]: "leader_step E Keeper s s'"

inductive_cases poller_step [consumes 1, case_names probe send unsent]: "leader_step E (Poller c) s s'"

inductive_cases watcher_step [consumes 1, case_names top woken dial emit unemitted loop reads]:
  "leader_step E (Watcher i) s s'"

inductive_cases outside_step [consumes 1, case_names stop others]: "leader_step E Outside s s'"

text \<open>A run, with the goroutines that made its steps.\<close>

inductive leader_run :: "'w leader_env \<Rightarrow> 'w leader \<Rightarrow> goroutine list \<Rightarrow> 'w leader \<Rightarrow> bool" for E s where
  stay: "leader_run E s [] s"
| move: "leader_run E s gs s' \<Longrightarrow> leader_step E g s' s'' \<Longrightarrow> leader_run E s (gs @ [g]) s''"

subsection \<open>What the channel carries\<close>

text \<open>A head of the chain, observed at one of its upstreams at a commitment it polls.\<close>

definition own :: "ChainConfig \<Rightarrow> string \<Rightarrow> head \<Rightarrow> bool" where
  "own cfg commitment h \<longleftrightarrow> Chain h = cc_Name cfg \<and> Commitment h = commitment
     \<and> Family h = (if cc_Family cfg = ''evm'' then ''evm'' else ''solana'') \<and> Origin h \<in> up_ID ` set (Upstreams cfg)
     \<and> commitment \<in> set (poll_commitments cfg)"

lemma pollOne_own:
  assumes "pollOne env r i commitment w = (Inr h, w')" "i \<in> set (upstream_ids r)" "commitment \<in> set (poll_commitments (rt_Config r))"
  shows "own (rt_Config r) commitment h \<and> Origin h = i"
proof -
  have "Chain h = cc_Name (rt_Config r) \<and> Commitment h = commitment \<and> Origin h = i
      \<and> Family h = (if cc_Family (rt_Config r) = ''evm'' then ''evm'' else ''solana'')"
    using assms(1)
    by (auto simp: pollOne_def Let_def split: if_splits prod.splits sum.splits option.splits dest!: ParseEVMHead_Inr)
  then show ?thesis using assms(2,3) by (auto simp: own_def upstream_ids_def)
qed

lemma poll_heads_own:
  "poll_heads env r commitment is c w = (hs, c', w') \<Longrightarrow> set is \<subseteq> set (upstream_ids r) \<Longrightarrow>
   commitment \<in> set (poll_commitments (rt_Config r)) \<Longrightarrow>
   list_all (own (rt_Config r) commitment) hs \<and> length hs \<le> length is \<and> subscriptions c' = subscriptions c"
proof (induction env r commitment "is" c w arbitrary: hs rule: poll_heads.induct)
  case (2 env r commitment i "is" c w)
  obtain x w1 where x: "pollOne env r i commitment w = (x, w1)" by (cases "pollOne env r i commitment w")
  show ?case
  proof (cases x)
    case (Inl e)
    then show ?thesis using 2(1) [OF x [symmetric] Inl] 2(3-5) x by fastforce
  next
    case (Inr h)
    obtain hs1 where hs1: "poll_heads env r commitment is (recordProviderHead h c) w1 = (hs1, c', w')" "hs = h # hs1"
      using 2(3) x Inr by (auto split: prod.splits)
    show ?thesis
      using 2(2) [OF x [symmetric] Inr hs1(1)] 2(4,5) pollOne_own [OF x [unfolded Inr]] hs1(2)
      by (simp add: recordProviderHead_def)
  qed
qed simp

lemma distinct_heads_sub: "set (distinct_heads seen hs) \<subseteq> set hs \<and> length (distinct_heads seen hs) \<le> length hs"
  by (induction seen hs rule: distinct_heads.induct) auto

lemma selectFreshest_in: "hs \<noteq> [] \<Longrightarrow> selectFreshest current hs \<in> set hs"
  using freshest_max [of hs] by (auto simp: selectFreshest_def Let_def find_Some_iff split: option.splits)

lemma poll_output_sub: "set (poll_output family current hs) \<subseteq> set hs \<and> length (poll_output family current hs) \<le> length hs + 1"
  using selectFreshest_in [of hs current] distinct_heads_sub [of "[Identity (selectFreshest current hs)]" hs]
  by (auto simp: poll_output_def Let_def)

lemma poll_own:
  assumes "poll env st r commitment c w = (hs, c', w')" "commitment \<in> set (poll_commitments (rt_Config r))"
  shows "list_all (own (rt_Config r) commitment) hs \<and> length hs \<le> length (Upstreams (rt_Config r)) + 1
    \<and> subscriptions c' = subscriptions c"
proof -
  let ?is = "poll_targets env r commitment c w"
  obtain cs c1 w1 where p: "poll_heads env r commitment ?is c w = (cs, c1, w1)" by (metis prod_cases3)
  have "set ?is \<subseteq> set (upstream_ids r)" by (auto simp: poll_targets_def set_Candidates)
  note heads = poll_heads_own [OF p this assms(2)]
  have "length ?is \<le> length (Candidates env r False w)" by (simp add: poll_targets_def)
  also have "\<dots> \<le> length (Upstreams (rt_Config r))"
    using length_filter_le [of _ "upstream_ids r"] by (simp add: Candidates_def upstream_ids_def)
  finally have len: "length cs \<le> length (Upstreams (rt_Config r))" using heads by simp
  have "hs = [] \<and> c' = c1 \<or> (\<exists>family current. hs = poll_output family current cs) \<and> c' = c1"
    using assms(1) p by (auto simp: poll_def split: if_splits prod.splits sum.splits)
  then show ?thesis using heads len poll_output_sub [of _ _ cs]
    by (auto simp: list_all_iff subset_iff intro: order_trans)
qed

subsection \<open>The invariant\<close>

fun worker_heads :: "poll_worker \<Rightarrow> head list" where
  "worker_heads Probing = []"
| "worker_heads (Sending hs) = hs"

text \<open>The last head of a watcher's session; \<open>None\<close> outside a session.\<close>

fun watcher_head :: "watcher \<Rightarrow> head option" where
  "watcher_head (WatchSend sub h) = Some h"
| "watcher_head (WatchLoop sub h) = Some h"
| "watcher_head (WatchRead sub h) = Some h"
| "watcher_head _ = None"

definition worker_ok :: "ChainConfig \<Rightarrow> string \<Rightarrow> poll_worker \<Rightarrow> bool" where
  "worker_ok cfg c p \<longleftrightarrow> c \<in> set (poll_commitments cfg) \<and> p \<noteq> Sending [] \<and> list_all (own cfg c) (worker_heads p)
     \<and> length (worker_heads p) \<le> length (Upstreams cfg) + 1"

definition watcher_ok :: "ChainConfig \<Rightarrow> string \<Rightarrow> watcher \<Rightarrow> bool" where
  "watcher_ok cfg i v \<longleftrightarrow> i \<in> set (watched cfg) \<and> (\<forall>h. watcher_head v = Some h \<longrightarrow> own cfg Latest h \<and> Origin h = i)"

text \<open>Inside a term its lease is being renewed unless its context is done; outside, nothing runs.\<close>

definition phase_ok :: "'w leader \<Rightarrow> bool" where
  "phase_ok s \<longleftrightarrow>
     (case ld_phase s of
        Leading tok \<Rightarrow> ld_lease s = Some tok \<or> ld_lease s = None \<and> ctx_done s
      | Leaving tok \<Rightarrow> ld_lease s \<in> {None, Some tok} \<and> ld_cancelled s
      | _ \<Rightarrow> quiet s)"

definition leader_inv :: "'w leader \<Rightarrow> bool" where
  "leader_inv s \<longleftrightarrow>
     (\<forall>c p. ld_polls s c = Some p \<longrightarrow> worker_ok (rt_Config (ld_runtime s)) c p)
     \<and> (\<forall>i v. ld_watchers s i = Some v \<longrightarrow> watcher_ok (rt_Config (ld_runtime s)) i v)
     \<and> (\<forall>i. subscriptions (ld_coord s) i \<noteq> None \<longrightarrow> (\<exists>v h. ld_watchers s i = Some v \<and> watcher_head v = Some h))
     \<and> length (ld_queue s) \<le> queue_limit
     \<and> list_all (\<lambda>h. own (rt_Config (ld_runtime s)) (Commitment h) h) (ld_queue s)
     \<and> phase_ok s"

lemma leader_invD:
  assumes "leader_inv s"
  shows "ld_polls s c = Some p \<Longrightarrow> worker_ok (rt_Config (ld_runtime s)) c p"
    "ld_watchers s i = Some v \<Longrightarrow> watcher_ok (rt_Config (ld_runtime s)) i v"
    "subscriptions (ld_coord s) i = Some t \<Longrightarrow> \<exists>v h. ld_watchers s i = Some v \<and> watcher_head v = Some h"
    "length (ld_queue s) \<le> queue_limit" "phase_ok s"
    "list_all (\<lambda>h. own (rt_Config (ld_runtime s)) (Commitment h) h) (ld_queue s)"
  using assms by (auto simp: leader_inv_def)

lemma leader_inv_new: "leader_inv (new_leader r w)"
  by (simp add: leader_inv_def new_leader_def NewCoordinator_def phase_ok_def quiet_def)

lemma ctx_done_simps [simp]:
  "ctx_done (s\<lparr>ld_runtime := r\<rparr>) = ctx_done s" "ctx_done (s\<lparr>ld_world := w\<rparr>) = ctx_done s"
  "ctx_done (s\<lparr>ld_queue := q\<rparr>) = ctx_done s" "ctx_done (s\<lparr>ld_polls := p\<rparr>) = ctx_done s"
  "ctx_done (s\<lparr>ld_watchers := v\<rparr>) = ctx_done s" "ctx_done (s\<lparr>ld_coord := c\<rparr>) = ctx_done s"
  "ctx_done (s\<lparr>ld_lease := l\<rparr>) = ctx_done s" "ctx_done (s\<lparr>ld_phase := ph\<rparr>) = ctx_done s"
  "ctx_done (s\<lparr>ld_cancelled := True\<rparr>)" "ctx_done (s\<lparr>ld_stopped := True\<rparr>)"
  by (simp_all add: ctx_done_def)

lemma phase_ok_busy:
  assumes "phase_ok s" "\<not> quiet s"
  obtains tok where "ld_phase s = Leading tok" | tok where "ld_phase s = Leaving tok"
  using assms by (auto simp: phase_ok_def split: phase.splits)

lemma busy: "ld_lease s = Some tok \<Longrightarrow> \<not> quiet s" "ld_polls s c = Some p \<Longrightarrow> \<not> quiet s" "ld_watchers s i = Some v \<Longrightarrow> \<not> quiet s"
  by (auto simp: quiet_def)

text \<open>A step of a goroutine inside a term keeps the phase.\<close>

lemma phase_ok_move:
  "phase_ok s \<Longrightarrow> \<not> quiet s \<Longrightarrow> ld_phase s' = ld_phase s \<Longrightarrow> ld_lease s' = ld_lease s \<Longrightarrow> (ctx_done s \<Longrightarrow> ctx_done s') \<Longrightarrow>
   (ld_cancelled s \<Longrightarrow> ld_cancelled s') \<Longrightarrow> phase_ok s'"
  by (auto simp: phase_ok_def split: phase.splits)

lemma start_polls_fields [simp]:
  "ld_phase (start_polls s) = ld_phase s" "ld_stopped (start_polls s) = ld_stopped s" "ld_cancelled (start_polls s) = ld_cancelled s"
  "ld_lease (start_polls s) = ld_lease s" "ld_watchers (start_polls s) = ld_watchers s" "ld_queue (start_polls s) = ld_queue s"
  "ld_runtime (start_polls s) = ld_runtime s" "ld_coord (start_polls s) = ld_coord s" "ld_world (start_polls s) = ld_world s"
proof -
  have "ld_phase (fold start_poll cs s) = ld_phase s \<and> ld_stopped (fold start_poll cs s) = ld_stopped s
      \<and> ld_cancelled (fold start_poll cs s) = ld_cancelled s \<and> ld_lease (fold start_poll cs s) = ld_lease s
      \<and> ld_watchers (fold start_poll cs s) = ld_watchers s \<and> ld_queue (fold start_poll cs s) = ld_queue s
      \<and> ld_runtime (fold start_poll cs s) = ld_runtime s \<and> ld_coord (fold start_poll cs s) = ld_coord s
      \<and> ld_world (fold start_poll cs s) = ld_world s" for cs
    by (induction cs arbitrary: s) (auto simp: start_poll_def split: option.splits)
  then show "ld_phase (start_polls s) = ld_phase s" "ld_stopped (start_polls s) = ld_stopped s"
    "ld_cancelled (start_polls s) = ld_cancelled s" "ld_lease (start_polls s) = ld_lease s" "ld_watchers (start_polls s) = ld_watchers s"
    "ld_queue (start_polls s) = ld_queue s" "ld_runtime (start_polls s) = ld_runtime s" "ld_coord (start_polls s) = ld_coord s"
    "ld_world (start_polls s) = ld_world s"
    by (simp_all add: start_polls_def)
qed

lemma start_polls_polls:
  "ld_polls (start_polls s) c =
     (if ld_polls s c = None \<and> c \<in> set (poll_commitments (rt_Config (ld_runtime s))) then Some Probing else ld_polls s c)"
proof -
  have "ld_polls (fold start_poll cs s) c = (if ld_polls s c = None \<and> c \<in> set cs then Some Probing else ld_polls s c)" for cs
    by (induction cs arbitrary: s) (auto simp: start_poll_def split: option.splits)
  then show ?thesis by (simp add: start_polls_def)
qed

lemma start_polls_inv: "leader_inv s \<Longrightarrow> \<not> quiet s \<Longrightarrow> leader_inv (start_polls s)"
  by (auto simp: leader_inv_def start_polls_polls worker_ok_def ctx_done_def phase_ok_def split: if_splits phase.splits)

lemma begin_term_inv:
  assumes "leader_inv s" "ld_phase s = Competing"
  shows "leader_inv (begin_term tok s)"
proof -
  let ?s = "s\<lparr>ld_phase := Leading tok, ld_cancelled := False, ld_lease := Some tok, ld_queue := [],
     ld_watchers := (\<lambda>i. if i \<in> set (watched (rt_Config (ld_runtime s))) then Some WatchTop else None)\<rparr>"
  have "quiet s" using leader_invD(5) [OF assms(1)] assms(2) by (simp add: phase_ok_def)
  then have "leader_inv ?s"
    using assms(1) by (fastforce simp: leader_inv_def quiet_def phase_ok_def watcher_ok_def)
  moreover have "\<not> quiet ?s" by (simp add: quiet_def)
  ultimately show ?thesis unfolding begin_term_def by (rule start_polls_inv)
qed

text \<open>A step that changes one worker, or one watcher and its subscription.\<close>

lemma worker_inv:
  assumes "leader_inv s" "ld_polls s c = Some p" "\<And>q. x = Some q \<Longrightarrow> worker_ok (rt_Config (ld_runtime s)) c q"
  shows "leader_inv (s\<lparr>ld_polls := (ld_polls s)(c := x)\<rparr>)"
proof -
  have "phase_ok (s\<lparr>ld_polls := (ld_polls s)(c := x)\<rparr>)"
    by (rule phase_ok_move [OF leader_invD(5) [OF assms(1)] busy(2) [OF assms(2)]]) auto
  then show ?thesis using assms(1,3) by (auto simp: leader_inv_def)
qed

lemma watcher_inv:
  assumes "leader_inv s" "ld_watchers s i = Some v" "\<And>u. x = Some u \<Longrightarrow> watcher_ok (rt_Config (ld_runtime s)) i u"
    and "\<And>j. j \<noteq> i \<Longrightarrow> subscriptions c j = subscriptions (ld_coord s) j"
    and "subscriptions c i \<noteq> None \<Longrightarrow> \<exists>u h. x = Some u \<and> watcher_head u = Some h"
  shows "leader_inv (s\<lparr>ld_coord := c, ld_watchers := (ld_watchers s)(i := x)\<rparr>)"
proof -
  have "phase_ok (s\<lparr>ld_coord := c, ld_watchers := (ld_watchers s)(i := x)\<rparr>)"
    by (rule phase_ok_move [OF leader_invD(5) [OF assms(1)] busy(3) [OF assms(2)]]) auto
  moreover have "\<exists>u h. ((ld_watchers s)(i := x)) j = Some u \<and> watcher_head u = Some h" if "subscriptions c j \<noteq> None" for j
    using that assms(1,4,5) by (cases "j = i") (auto simp: leader_inv_def)
  ultimately show ?thesis using assms(1,3) by (auto simp: leader_inv_def)
qed

lemma queue_inv:
  "leader_inv s \<Longrightarrow> length q \<le> queue_limit \<Longrightarrow> list_all (\<lambda>h. own (rt_Config (ld_runtime s)) (Commitment h) h) q \<Longrightarrow>
   leader_inv (s\<lparr>ld_queue := q\<rparr>)"
  by (auto simp: leader_inv_def phase_ok_def quiet_def split: phase.splits)

lemma outside_inv:
  "leader_inv s \<Longrightarrow> rt_Config r = rt_Config (ld_runtime s) \<Longrightarrow> leader_inv (s\<lparr>ld_runtime := r, ld_world := w\<rparr>)"
  by (auto simp: leader_inv_def phase_ok_def quiet_def split: phase.splits)

lemma world_inv: "leader_inv s \<Longrightarrow> leader_inv (s\<lparr>ld_world := w\<rparr>)"
  using outside_inv [of s "ld_runtime s" w] by simp

lemma end_session_inv: "leader_inv s \<Longrightarrow> ld_watchers s i = Some v \<Longrightarrow> leader_inv (end_session i s)"
  using watcher_inv [of s i v "if ctx_done s then None else Some WatchWait" "clearSubscription i (ld_coord s)"]
    leader_invD(2) [of s i v]
  by (cases "ctx_done s") (auto simp: end_session_def clearSubscription_def watcher_ok_def)

lemma observe_inv:
  assumes "leader_inv s" "ld_watchers s i = Some v" "own (rt_Config (ld_runtime s)) Latest h" "Origin h = i"
  shows "leader_inv (observe i sub h s)"
  using watcher_inv [of s i v "Some (WatchSend sub h)" "recordProviderHead h (ld_coord s)"] assms leader_invD(2) [of s i v]
  by (simp add: observe_def recordProviderHead_def watcher_ok_def)

lemma watcher_move_inv:
  assumes "leader_inv s" "ld_watchers s i = Some v" "watcher_head v = watcher_head u"
  shows "leader_inv (s\<lparr>ld_watchers := (ld_watchers s)(i \<mapsto> u)\<rparr>)"
proof -
  have "subscriptions (ld_coord s) i \<noteq> None \<Longrightarrow> \<exists>h. watcher_head u = Some h"
    using leader_invD(3) [OF assms(1), of i] assms(2,3) by auto
  then show ?thesis
    using watcher_inv [OF assms(1,2), of "Some u" "ld_coord s"] leader_invD(2) [OF assms(1,2)] assms(3)
    by (simp add: watcher_ok_def)
qed

lemma watcher_gone_inv:
  "leader_inv s \<Longrightarrow> ld_watchers s i = Some v \<Longrightarrow> watcher_head v = None \<Longrightarrow> leader_inv (s\<lparr>ld_watchers := (ld_watchers s)(i := None)\<rparr>)"
  using watcher_inv [of s i v None "ld_coord s"] leader_invD(3) [of s i] by fastforce

lemma watched_upstream: "i \<in> set (watched cfg) \<Longrightarrow> cc_Family cfg = ''evm'' \<and> i \<in> up_ID ` set (Upstreams cfg)"
  by (auto simp: watched_def split: if_splits)

lemma Latest_polled [simp]: "cc_Family cfg = ''evm'' \<Longrightarrow> Latest \<in> set (poll_commitments cfg)"
  by (simp add: poll_commitments_def)

lemma dial_inv:
  assumes "leader_inv s" "ld_watchers s i = Some WatchDial"
  shows "leader_inv (dial_turn E i ack s)"
proof -
  have i: "cc_Family (rt_Config (ld_runtime s)) = ''evm''" "i \<in> set (upstream_ids (ld_runtime s))"
    using leader_invD(2) [OF assms] watched_upstream by (auto simp: watcher_ok_def upstream_ids_def)
  have s1: "leader_inv (s\<lparr>ld_world := w\<rparr>)" "ld_watchers (s\<lparr>ld_world := w\<rparr>) i = Some WatchDial" for w
    using world_inv [OF assms(1)] assms(2) by simp_all
  have "leader_inv (observe i sub h (s\<lparr>ld_world := w\<rparr>))"
    if "pollOne (le_env E) (ld_runtime s) i Latest (ld_world s) = (Inr h, w)" for sub h w
    using observe_inv [OF s1] pollOne_own [OF that i(2)] i(1) by simp
  then show ?thesis using end_session_inv [OF assms] end_session_inv [OF s1]
    by (auto simp: dial_turn_def split: frame.splits option.splits prod.splits sum.splits)
qed

lemma watch_frame_config:
  assumes "flight_respects do_chan" "watch_frame env do_chan i sub l fr (r, w) = (x, r', w')"
  shows "rt_Config r' = rt_Config r"
proof -
  have "same_upstreams (r, w) (snd (HasEVMBlock env do_chan i h (r, w)))" for h
    by (rule step_has_block [OF same_upstreams_preorder assms(1)])
  then have "rt_Config (fst (snd (HasEVMBlock env do_chan i h (r, w)))) = rt_Config r" for h
    by (simp add: same_upstreams_def)
  then show ?thesis using assms(2)
    by (auto simp: watch_frame_def split: frame.splits option.splits sum.splits prod.splits if_splits bool.splits) (metis fst_conv snd_conv)+
qed

lemma watch_frame_own:
  assumes "watch_frame env do_chan i sub l fr (r, w) = (Observe h, s)" "i \<in> set (watched (rt_Config r))"
  shows "own (rt_Config r) Latest h \<and> Origin h = i"
proof -
  obtain res where "ParseEVMHead (now_of env w) r Latest i res = Inr h"
    using assms(1) by (auto simp: watch_frame_def split: frame.splits option.splits sum.splits prod.splits if_splits bool.splits)
  then show ?thesis using watched_upstream [OF assms(2)] by (auto simp: own_def dest!: ParseEVMHead_Inr)
qed

lemma read_inv:
  assumes "flight_respects (le_probe E)" "leader_inv s" "ld_watchers s i = Some (WatchRead sub h)"
  shows "leader_inv (read_turn E i sub h fr s)"
proof -
  obtain x r w where x: "watch_frame (le_env E) (le_probe E) i sub h fr (ld_runtime s, ld_world s) = (x, r, w)" by (metis prod_cases3)
  let ?s = "s\<lparr>ld_runtime := r, ld_world := w\<rparr>"
  have cfg: "rt_Config r = rt_Config (ld_runtime s)" using watch_frame_config [OF assms(1) x] .
  have s1: "leader_inv ?s" "ld_watchers ?s i = Some (WatchRead sub h)"
    using outside_inv [OF assms(2) cfg] assms(3) by simp_all
  have w: "i \<in> set (watched (rt_Config (ld_runtime s)))" using leader_invD(2) [OF assms(2,3)] by (simp add: watcher_ok_def)
  show ?thesis
  proof (cases x)
    case Skip
    then show ?thesis using watcher_move_inv [OF s1, of "WatchLoop sub h"] x by (simp add: read_turn_def Let_def)
  next
    case Stop
    then show ?thesis using end_session_inv [OF s1] x by (simp add: read_turn_def Let_def)
  next
    case (Observe h')
    then have "own (rt_Config r) Latest h'" "Origin h' = i"
      using watch_frame_own [OF x [unfolded Observe]] w cfg by auto
    then show ?thesis using observe_inv [OF s1] x Observe by (simp add: read_turn_def Let_def)
  qed
qed

lemma emit_inv:
  assumes "leader_inv s" "ld_watchers s i = Some (WatchSend sub h)" "length (ld_queue s) < queue_limit"
  shows "leader_inv (emit_turn i sub h s)"
proof -
  have h: "own (rt_Config (ld_runtime s)) Latest h" using leader_invD(2) [OF assms(1,2)] by (simp add: watcher_ok_def)
  then have "leader_inv (s\<lparr>ld_queue := ld_queue s @ [h]\<rparr>)"
    using queue_inv [OF assms(1)] leader_invD(6) [OF assms(1)] assms(3) by (auto simp: own_def)
  from watcher_inv [OF this, of i "WatchSend sub h" "Some (WatchLoop sub h)" "setSubscriptionHead i (ObservedAt h) (ld_coord s)"]
  show ?thesis
    using assms(2) leader_invD(2) [OF assms(1,2)] by (simp add: emit_turn_def setSubscriptionHead_def watcher_ok_def)
qed

lemma sending_ok:
  "list_all (own cfg c) hs \<Longrightarrow> length hs \<le> length (Upstreams cfg) + 1 \<Longrightarrow> c \<in> set (poll_commitments cfg) \<Longrightarrow>
   sending hs = Some q \<Longrightarrow> worker_ok cfg c q"
  by (auto simp: sending_def worker_ok_def split: if_splits)

lemma probe_inv:
  assumes "leader_inv s" "ld_polls s c = Some Probing"
  shows "leader_inv (probe_turn E c s)"
proof -
  obtain hs co w where p: "poll (le_env E) (le_store E) (ld_runtime s) c (ld_coord s) (ld_world s) = (hs, co, w)" by (metis prod_cases3)
  have c: "c \<in> set (poll_commitments (rt_Config (ld_runtime s)))" using leader_invD(1) [OF assms] by (simp add: worker_ok_def)
  note own = poll_own [OF p c]
  have "leader_inv (s\<lparr>ld_polls := (ld_polls s)(c := sending hs)\<rparr>)"
    by (rule worker_inv [OF assms]) (use sending_ok own c in blast)
  then have "leader_inv (s\<lparr>ld_polls := (ld_polls s)(c := sending hs), ld_coord := co\<rparr>)"
    using own by (auto simp: leader_inv_def phase_ok_def quiet_def ctx_done_def split: phase.splits)
  then show ?thesis using world_inv p by (fastforce simp: probe_turn_def)
qed

lemma send_inv:
  assumes "leader_inv s" "ld_polls s c = Some (Sending (h # hs))" "length (ld_queue s) < queue_limit"
  shows "leader_inv (send_turn c h hs s)"
proof -
  note w = leader_invD(1) [OF assms(1,2)]
  then have "leader_inv (s\<lparr>ld_polls := (ld_polls s)(c := sending hs)\<rparr>)"
    by (intro worker_inv [OF assms(1,2)] sending_ok) (auto simp: worker_ok_def)
  from queue_inv [OF this, of "ld_queue s @ [h]"] show ?thesis
    using leader_invD(6) [OF assms(1)] assms(3) w by (auto simp: send_turn_def worker_ok_def own_def)
qed

lemma main_step_inv:
  assumes "leader_step E Main s s'" "leader_inv s"
  shows "leader_inv s'"
  using assms(1)
proof (cases rule: main_step)
  case acquire
  then show ?thesis
    using begin_term_inv [OF world_inv [OF assms(2)]] world_inv [OF assms(2)]
    by (auto simp: acquire_turn_def leader_inv_def phase_ok_def quiet_def split: prod.splits)
next
  case (tick tok)
  show ?thesis
  proof (cases "quiet s")
    case True
    then have "ctx_done s" using leader_invD(5) [OF assms(2)] tick by (auto simp: phase_ok_def quiet_def)
    then show ?thesis using assms(2) tick True
      by (auto simp: tick_turn_def leader_inv_def start_polls_polls worker_ok_def phase_ok_def quiet_def ctx_done_def split: if_splits)
  next
    case False
    then show ?thesis using start_polls_inv [OF assms(2)] world_inv tick by (auto simp: tick_turn_def)
  qed
next
  case (considered tok h hs)
  have "leader_inv (s\<lparr>ld_queue := hs\<rparr>)"
    using queue_inv [OF assms(2)] leader_invD(4,6) [OF assms(2)] considered by auto
  then have "leader_inv (s\<lparr>ld_queue := hs, ld_world := w\<rparr>)" for w by (rule world_inv)
  then show ?thesis using considered
    by (auto simp: consider_turn_def leave_def Let_def leader_inv_def phase_ok_def split: prod.splits)
qed (use assms(2) in \<open>auto simp: leader_inv_def phase_ok_def quiet_def leave_def release_turn_def split: prod.splits\<close>)

lemma renewal_step_inv:
  assumes "leader_step E Renewal s s'" "leader_inv s"
  shows "leader_inv s'"
  using assms(1)
proof (cases rule: renewal_step)
  case (renew tok)
  obtain ok e w where r: "le_Renew E (cc_Name (rt_Config (ld_runtime s))) tok (le_ttl E) (ld_world s) = ((ok, e), w)"
    by (metis prod_cases3 surj_pair)
  have "phase_ok (s\<lparr>ld_world := w, ld_cancelled := True, ld_lease := None\<rparr>)"
    using leader_invD(5) [OF assms(2)] renew(2) by (auto simp: phase_ok_def quiet_def ctx_done_def split: phase.splits)
  then have "leader_inv (s\<lparr>ld_world := w, ld_cancelled := True, ld_lease := None\<rparr>)"
    using assms(2) by (simp add: leader_inv_def)
  then show ?thesis using renew(1) r world_inv [OF assms(2)] by (auto simp: renew_turn_def)
qed

lemma keeper_step_inv: "leader_step E Keeper s s' \<Longrightarrow> leader_inv s \<Longrightarrow> leader_inv s'"
  by (erule keeper_step) (auto simp: leader_inv_def phase_ok_def quiet_def ctx_done_def split: phase.splits)

lemma poller_step_inv: "leader_step E (Poller c) s s' \<Longrightarrow> leader_inv s \<Longrightarrow> leader_inv s'"
  by (erule poller_step) (auto intro: probe_inv send_inv worker_inv)

lemma watcher_step_inv:
  assumes "leader_step E (Watcher i) s s'" "flight_respects (le_probe E)" "leader_inv s"
  shows "leader_inv s'"
  using assms(1)
proof (cases rule: watcher_step)
  case top
  then show ?thesis
    using watcher_move_inv [OF assms(3), of i WatchTop] watcher_gone_inv [OF assms(3), of i WatchTop] by (simp add: top_turn_def)
next
  case (loop sub h)
  then show ?thesis
    using watcher_move_inv [OF assms(3), of i _ "WatchRead sub h"] end_session_inv [OF assms(3)] by (auto simp: loop_turn_def)
next
  case woken
  then show ?thesis using watcher_move_inv [OF assms(3), of i WatchWait WatchTop] by simp
qed (blast intro: dial_inv emit_inv end_session_inv read_inv [OF assms(2)] assms(3))+

lemma outside_step_inv: "leader_step E Outside s s' \<Longrightarrow> leader_inv s \<Longrightarrow> leader_inv s'"
proof (erule outside_step)
  assume "leader_inv s" "s' = s\<lparr>ld_stopped := True\<rparr>"
  then show "leader_inv s'" by (auto simp: leader_inv_def phase_ok_def quiet_def ctx_done_def split: phase.splits)
qed (auto intro: outside_inv)

theorem leader_step_inv:
  assumes "leader_step E g s s'" "flight_respects (le_probe E)" "leader_inv s"
  shows "leader_inv s'"
  using assms
  by (cases g) (auto intro: main_step_inv renewal_step_inv keeper_step_inv poller_step_inv watcher_step_inv outside_step_inv)

lemma start_turn_config [simp]:
  "rt_Config (ld_runtime (end_session i s)) = rt_Config (ld_runtime s)"
  "rt_Config (ld_runtime (observe i sub h s)) = rt_Config (ld_runtime s)"
  "rt_Config (ld_runtime (loop_turn i sub h s)) = rt_Config (ld_runtime s)"
  by (simp_all add: end_session_def observe_def loop_turn_def)

lemma leader_step_config:
  assumes "leader_step E g s s'" "flight_respects (le_probe E)"
  shows "rt_Config (ld_runtime s') = rt_Config (ld_runtime s)"
  using assms(1)
proof cases
  case (reads i sub h fr)
  obtain x r w where x: "watch_frame (le_env E) (le_probe E) i sub h fr (ld_runtime s, ld_world s) = (x, r, w)" by (metis prod_cases3)
  have "rt_Config r = rt_Config (ld_runtime s)" using watch_frame_config [OF assms(2) x] .
  then show ?thesis using reads(2) x by (auto simp: read_turn_def Let_def split: watch.splits)
qed (auto simp: acquire_turn_def begin_term_def tick_turn_def consider_turn_def leave_def release_turn_def renew_turn_def
    probe_turn_def send_turn_def top_turn_def dial_turn_def emit_turn_def Let_def
    split: prod.splits frame.splits option.splits sum.splits)

lemma leader_run_inv:
  assumes "leader_run E s gs s'" "flight_respects (le_probe E)"
  shows "rt_Config (ld_runtime s') = rt_Config (ld_runtime s) \<and> (leader_inv s \<longrightarrow> leader_inv s')"
  using assms(1)
proof induction
  case (move gs s' g s'')
  then show ?case using leader_step_config [OF move(2) assms(2)] leader_step_inv [OF move(2) assms(2)] by simp
qed simp

lemma leader_reachable:
  assumes "leader_run E (new_leader r w) gs s" "flight_respects (le_probe E)"
  shows "leader_inv s \<and> rt_Config (ld_runtime s) = rt_Config r"
  using leader_run_inv [OF assms] leader_inv_new [of r w] by (simp add: new_leader_def)

text \<open>
  Property C9. Nothing of a term outlives it. At every moment of every coordinator the channel holds at most
  128 heads, each observed for this chain at one of its upstreams and polled commitments; a goroutine runs
  only inside a term; while the term leads and its context is not done its lease is being renewed; and
  between two terms no upstream counts as subscribed, so that the next one polls them all.
\<close>

theorem term_contains_its_goroutines:
  assumes "leader_run E (new_leader r w) gs s" "flight_respects (le_probe E)"
  shows "length (ld_queue s) \<le> 128 \<and> (\<forall>h \<in> set (ld_queue s). own (rt_Config r) (Commitment h) h)
    \<and> (quiet s \<or> (\<exists>tok. ld_phase s \<in> {Leading tok, Leaving tok}))
    \<and> (\<forall>tok. ld_phase s = Leading tok \<and> \<not> ctx_done s \<longrightarrow> ld_lease s = Some tok)
    \<and> (\<forall>i now. quiet s \<longrightarrow> \<not> hasFreshSubscription now (ld_runtime s) i (ld_coord s))"
proof -
  note inv = leader_reachable [OF assms]
  have unsub: "quiet s \<Longrightarrow> subscriptions (ld_coord s) i = None" for i
    using leader_invD(3) [OF inv [THEN conjunct1], of i] by (cases "subscriptions (ld_coord s) i") (auto simp: quiet_def)
  show ?thesis
    using inv leader_invD(4-6) [OF inv [THEN conjunct1]] unsub
    by (auto simp: queue_limit_def phase_ok_def list_all_iff hasFreshSubscription_def split: phase.splits)
qed

text \<open>A leader that always gets the lease and never hears from an upstream.\<close>

definition sample_leader_env :: "rpc_response list leader_env" where
  "sample_leader_env = \<lparr>le_env = sample_env,
     le_store = \<lparr>st_Snapshot = (\<lambda>c w. (Inl ErrStreamGap, w)), st_BeginReorg = (\<lambda>_ _ w. (Inl ErrLeadershipLost, w)),
       st_Publish = (\<lambda>_ _ w. (Inl ErrLeadershipLost, w))\<rparr>,
     le_Acquire = (\<lambda>_ _ _ w. ((''t'', True, None), w)), le_Renew = (\<lambda>_ _ _ w. ((True, None), w)), le_Release = (\<lambda>_ _ w. (None, w)),
     le_probe = probe_alone, le_owner = ''o'', le_ttl = 3\<rparr>"

lemma sample_leads:
  "leader_run sample_leader_env (new_leader sample_runtime []) [Main] (begin_term ''t'' (new_leader sample_runtime []))"
proof -
  have "leader_step sample_leader_env Main (new_leader sample_runtime []) (acquire_turn sample_leader_env (new_leader sample_runtime []))"
    by (rule leader_step.acquire) (simp add: new_leader_def)
  from leader_run.move [OF leader_run.stay this] show ?thesis
    by (simp add: acquire_turn_def sample_leader_env_def new_leader_def)
qed

theorem term_contains_its_goroutines_witness:
  "ld_phase (begin_term ''t'' (new_leader sample_runtime [])) = Leading ''t''
   \<and> \<not> quiet (begin_term ''t'' (new_leader sample_runtime [])) \<and> length (ld_queue (begin_term ''t'' (new_leader sample_runtime []))) \<le> 128"
  using term_contains_its_goroutines [OF sample_leads] flight_respects_alone
  by (simp add: sample_leader_env_def begin_term_def quiet_def)

subsection \<open>The end of a term\<close>

text \<open>How many turns a goroutine has left once its context is done.\<close>

definition poll_rank :: "nat \<Rightarrow> poll_worker option \<Rightarrow> nat" where
  "poll_rank n p = (case p of None \<Rightarrow> 0 | Some Probing \<Rightarrow> n + 2 | Some (Sending hs) \<Rightarrow> length hs)"

fun watch_rank :: "watcher option \<Rightarrow> nat" where
  "watch_rank None = 0"
| "watch_rank (Some WatchTop) = 1"
| "watch_rank (Some WatchWait) = 2"
| "watch_rank (Some WatchDial) = 3"
| "watch_rank (Some (WatchSend sub h)) = 2"
| "watch_rank (Some (WatchLoop sub h)) = 1"
| "watch_rank (Some (WatchRead sub h)) = 3"

definition work :: "'w leader \<Rightarrow> nat" where
  "work s = (let cfg = rt_Config (ld_runtime s) in
     (if ld_lease s = None then 0 else 1)
     + (\<Sum>c \<in> set (poll_commitments cfg). poll_rank (length (Upstreams cfg)) (ld_polls s c))
     + (\<Sum>i \<in> set (watched cfg). watch_rank (ld_watchers s i)))"

fun drains :: "goroutine \<Rightarrow> bool" where
  "drains Keeper = True"
| "drains (Poller c) = True"
| "drains (Watcher i) = True"
| "drains _ = False"

lemma sum_update:
  fixes f :: "'b option \<Rightarrow> nat"
  assumes "finite A" "c \<in> A" "f x < f (m c)"
  shows "(\<Sum>a \<in> A. f ((m(c := x)) a)) < (\<Sum>a \<in> A. f (m a))"
  using assms by (intro sum_strict_mono_ex1) auto

lemma work_worker:
  "leader_inv s \<Longrightarrow> ld_polls s c = Some p \<Longrightarrow>
   poll_rank (length (Upstreams (rt_Config (ld_runtime s)))) x < poll_rank (length (Upstreams (rt_Config (ld_runtime s)))) (Some p) \<Longrightarrow>
   work (s\<lparr>ld_polls := (ld_polls s)(c := x)\<rparr>) < work s"
  using leader_invD(1) [of s c p]
    sum_update [of "set (poll_commitments (rt_Config (ld_runtime s)))" c
      "poll_rank (length (Upstreams (rt_Config (ld_runtime s))))" x "ld_polls s"]
  by (simp add: work_def Let_def worker_ok_def)

lemma work_watcher:
  "leader_inv s \<Longrightarrow> ld_watchers s i = Some v \<Longrightarrow> watch_rank x < watch_rank (Some v) \<Longrightarrow>
   work (s\<lparr>ld_watchers := (ld_watchers s)(i := x)\<rparr>) < work s"
  using leader_invD(2) [of s i v] sum_update [of "set (watched (rt_Config (ld_runtime s)))" i watch_rank x "ld_watchers s"]
  by (simp add: work_def Let_def watcher_ok_def)

lemma work_eq:
  "rt_Config (ld_runtime s') = rt_Config (ld_runtime s) \<Longrightarrow> ld_lease s' = ld_lease s \<Longrightarrow> ld_polls s' = ld_polls s \<Longrightarrow>
   ld_watchers s' = ld_watchers s \<Longrightarrow> work s' = work s"
  by (simp add: work_def)

lemma work_le: "work (s :: 'w leader) \<le> 6 * length (Upstreams (rt_Config (ld_runtime s))) + 7"
  if "leader_inv s"
proof -
  let ?cfg = "rt_Config (ld_runtime s)" let ?n = "length (Upstreams ?cfg)"
  have "card (set (poll_commitments ?cfg)) \<le> 3"
    by (rule order_trans [OF card_length]) (simp add: poll_commitments_def)
  moreover have "(\<Sum>c \<in> set (poll_commitments ?cfg). poll_rank ?n (ld_polls s c)) \<le> card (set (poll_commitments ?cfg)) * (?n + 2)"
    using leader_invD(1) [OF that]
    by (intro sum_bounded_above [where 'a = nat, simplified])
      (fastforce simp: poll_rank_def worker_ok_def split: option.splits poll_worker.splits)
  moreover have "(\<Sum>i \<in> set (watched ?cfg). watch_rank (ld_watchers s i)) \<le> card (set (watched ?cfg)) * 3"
  proof (rule sum_bounded_above [where 'a = nat, simplified])
    show "watch_rank (ld_watchers s i) \<le> 3" for i by (cases "ld_watchers s i" rule: watch_rank.cases) auto
  qed
  moreover have "card (set (watched ?cfg)) \<le> ?n"
    by (rule order_trans [OF card_length]) (simp add: watched_def)
  ultimately have "(\<Sum>c \<in> set (poll_commitments ?cfg). poll_rank ?n (ld_polls s c)) \<le> 3 * (?n + 2)"
    "(\<Sum>i \<in> set (watched ?cfg). watch_rank (ld_watchers s i)) \<le> ?n * 3"
    using mult_le_mono1 order_trans by meson+
  then show ?thesis by (simp add: work_def Let_def)
qed

lemma work_end_session: "leader_inv s \<Longrightarrow> ld_watchers s i = Some v \<Longrightarrow> ctx_done s \<Longrightarrow> work (end_session i s) < work s"
  using work_watcher [of s i v None]
    work_eq [of "s\<lparr>ld_watchers := (ld_watchers s)(i := None)\<rparr>" "s\<lparr>ld_coord := clearSubscription i (ld_coord s), ld_watchers := (ld_watchers s)(i := None)\<rparr>"]
  by (cases v) (auto simp: end_session_def)

text \<open>Every step of a goroutine other than the renewal brings the end nearer, and no other step, short of
  the release, moves it away.\<close>

lemma poller_work:
  assumes "leader_step E (Poller c) s s'" "leader_inv s" "ctx_done s"
  shows "work s' < work s"
  using assms(1)
proof (cases rule: poller_step)
  case probe
  obtain hs co w where p: "poll (le_env E) (le_store E) (ld_runtime s) c (ld_coord s) (ld_world s) = (hs, co, w)" by (metis prod_cases3)
  have "length hs \<le> length (Upstreams (rt_Config (ld_runtime s))) + 1"
    using poll_own [OF p] leader_invD(1) [OF assms(2) probe(2)] by (simp add: worker_ok_def)
  then have "work (s\<lparr>ld_polls := (ld_polls s)(c := sending hs)\<rparr>) < work s"
    using work_worker [OF assms(2) probe(2), of "sending hs"] by (auto simp: poll_rank_def sending_def split: if_splits)
  then show ?thesis using probe(1) p by (simp add: probe_turn_def work_def)
next
  case (send h hs)
  then show ?thesis using work_worker [OF assms(2) send(2), of "sending hs"]
    by (auto simp: send_turn_def work_def poll_rank_def sending_def split: if_splits)
next
  case (unsent hs)
  then show ?thesis using work_worker [OF assms(2) unsent(2), of None] leader_invD(1) [OF assms(2) unsent(2)]
    by (auto simp: poll_rank_def worker_ok_def)
qed

lemma watcher_work_dial:
  assumes "leader_inv s" "ctx_done s" "ld_watchers s i = Some WatchDial"
  shows "work (dial_turn E i ack s) < work s"
proof -
  have s1: "leader_inv (s\<lparr>ld_world := w\<rparr>)" "ld_watchers (s\<lparr>ld_world := w\<rparr>) i = Some WatchDial" for w
    using world_inv [OF assms(1)] assms(3) by simp_all
  have "work (end_session i s) < work s" using work_end_session [OF assms(1,3,2)] .
  moreover have "work (end_session i (s\<lparr>ld_world := w\<rparr>)) < work s" for w
    using work_end_session [OF s1, of w] assms(2) by (simp add: work_def)
  moreover have "work (observe i sub h (s\<lparr>ld_world := w\<rparr>)) < work s" for sub h w
    using work_watcher [OF assms(1,3), of "Some (WatchSend sub h)"] by (simp add: work_def observe_def)
  ultimately show ?thesis by (auto simp: dial_turn_def split: frame.splits option.splits prod.splits sum.splits)
qed

lemma watcher_work_read:
  assumes "leader_inv s" "ctx_done s" "ld_watchers s i = Some (WatchRead sub h)" "flight_respects (le_probe E)"
  shows "work (read_turn E i sub h fr s) < work s"
proof -
  obtain x r w where x: "watch_frame (le_env E) (le_probe E) i sub h fr (ld_runtime s, ld_world s) = (x, r, w)" by (metis prod_cases3)
  have cfg: "rt_Config r = rt_Config (ld_runtime s)" using watch_frame_config [OF assms(4) x] .
  let ?s = "s\<lparr>ld_runtime := r, ld_world := w\<rparr>"
  have s1: "leader_inv ?s" "ld_watchers ?s i = Some (WatchRead sub h)" "work ?s = work s" "ctx_done ?s"
    using outside_inv [OF assms(1) cfg] assms(2,3) cfg by (simp_all add: work_def)
  have "work (s\<lparr>ld_watchers := (ld_watchers s)(i := Some v), ld_runtime := r, ld_world := w, ld_coord := c\<rparr>) < work s"
    if "watch_rank (Some v) < 3" for v c
    using work_watcher [OF assms(1,3), of "Some v"] that cfg by (simp add: work_def)
  from this [of "WatchLoop sub h" "ld_coord s"] this [of "WatchSend sub h'" "recordProviderHead h' (ld_coord s)" for h']
  show ?thesis using x work_end_session [OF s1(1,2,4)] s1(3)
    by (auto simp: read_turn_def observe_def Let_def work_def split: watch.splits)
qed

lemma watcher_work:
  assumes "leader_step E (Watcher i) s s'" "flight_respects (le_probe E)" "leader_inv s" "ctx_done s"
  shows "work s' < work s"
  using assms(1)
proof (cases rule: watcher_step)
  case top
  then show ?thesis using work_watcher [OF assms(3) top(2), of None] assms(4) by (simp add: top_turn_def)
next
  case woken
  then show ?thesis using work_watcher [OF assms(3) woken(2), of "Some WatchTop"] by simp
next
  case (dial ack)
  then show ?thesis using watcher_work_dial [OF assms(3,4)] by simp
next
  case (emit sub h)
  then show ?thesis using work_watcher [OF assms(3) emit(2), of "Some (WatchLoop sub h)"] by (simp add: emit_turn_def work_def)
next
  case (unemitted sub h)
  then show ?thesis using work_end_session [OF assms(3) unemitted(2) assms(4)] by simp
next
  case (loop sub h)
  then show ?thesis using work_end_session [OF assms(3) loop(2) assms(4)] assms(4) by (simp add: loop_turn_def)
next
  case (reads sub h fr)
  then show ?thesis using watcher_work_read [OF assms(3,4) _ assms(2)] by simp
qed

lemma work_decreases:
  assumes "leader_step E g s s'" "drains g" "flight_respects (le_probe E)" "leader_inv s" "ctx_done s"
  shows "work s' < work s"
proof (cases g)
  case Keeper
  then show ?thesis using assms(1) by (auto simp: work_def Let_def elim!: keeper_step)
next
  case (Poller c)
  then show ?thesis using poller_work assms by blast
next
  case (Watcher i)
  then show ?thesis using watcher_work assms by blast
qed (use assms(2) in simp_all)

lemma calm_step:
  assumes "leader_step E g s s'" "g \<noteq> Main" "ctx_done s"
  shows "ctx_done s' \<and> ld_phase s' = ld_phase s \<and> (\<not> drains g \<longrightarrow> work s' \<le> work s)"
  using assms
  by cases (auto simp: ctx_done_def renew_turn_def probe_turn_def send_turn_def top_turn_def dial_turn_def emit_turn_def
      loop_turn_def read_turn_def end_session_def observe_def Let_def work_def
      split: prod.splits frame.splits option.splits sum.splits watch.splits)

lemma progress:
  assumes "ctx_done s" "\<not> quiet s"
  shows "\<exists>g s'. drains g \<and> leader_step E g s s'"
proof -
  consider tok where "ld_lease s = Some tok" | c p where "ld_polls s c = Some p" | i v where "ld_watchers s i = Some v"
    using assms(2) unfolding quiet_def by (metis not_Some_eq)
  then show ?thesis
  proof cases
    case 1
    then show ?thesis using leader_step.renewed [OF 1 assms(1)] drains.simps(1) by blast
  next
    case 2
    then show ?thesis using leader_step.probe [of s c E] leader_step.unsent [OF _ assms(1), of c _ E] drains.simps(2)
      by (cases p) blast+
  next
    case 3
    then show ?thesis
      using leader_step.top [of s i E] leader_step.woken [of s i E] leader_step.dial [of s i E] leader_step.loop [of s i _ _ E]
        leader_step.reads [of s i _ _ E] leader_step.unemitted [OF _ assms(1), of i _ _ E] drains.simps(3)
      by (cases v) blast+
  qed
qed

lemma drain_run:
  assumes "leader_run E s gs s'" "Main \<notin> set gs" "flight_respects (le_probe E)" "leader_inv s" "ctx_done s"
  shows "length (filter drains gs) + work s' \<le> work s \<and> ctx_done s' \<and> ld_phase s' = ld_phase s"
  using assms(1,2)
proof induction
  case (move gs s' g s'')
  then have IH: "length (filter drains gs) + work s' \<le> work s" "ctx_done s'" "ld_phase s' = ld_phase s" "g \<noteq> Main" by auto
  have inv: "leader_inv s'" using leader_run_inv [OF move(1) assms(3)] assms(4) by blast
  note calm = calm_step [OF move(2) IH(4,2)]
  show ?case
  proof (cases "drains g")
    case True
    then show ?thesis using work_decreases [OF move(2) _ assms(3) inv IH(2)] IH calm by simp
  next
    case False
    then show ?thesis using IH calm by simp
  qed
qed (use assms(5) in simp)

text \<open>
  Property C8. The end of a term always completes. Once the loop has left, whatever order the goroutines
  run in and however full the channel is, they make at most \<open>6 n + 7\<close> turns for \<open>n\<close> upstreams, renewals
  aside; as long as one of them is running another such turn is possible, and when none is left the loop
  releases its lease.
\<close>

theorem term_ends:
  assumes "leader_run E (new_leader r w) gs s" "flight_respects (le_probe E)" "ld_phase s = Leaving tok"
    and "leader_run E s gs' s'" "Main \<notin> set gs'"
  shows "length (filter drains gs') \<le> 6 * length (Upstreams (rt_Config r)) + 7 \<and> ld_phase s' = Leaving tok
    \<and> (if quiet s' then leader_step E Main s' (release_turn E tok s') else \<exists>g s''. drains g \<and> leader_step E g s' s'')"
proof -
  note inv = leader_reachable [OF assms(1,2)]
  have d: "ctx_done s" using leader_invD(5) [OF inv [THEN conjunct1]] assms(3) by (simp add: phase_ok_def ctx_done_def)
  have "work s \<le> 6 * length (Upstreams (rt_Config r)) + 7" using work_le [OF inv [THEN conjunct1]] inv by simp
  then show ?thesis
    using drain_run [OF assms(4,5,2) inv [THEN conjunct1] d] assms(3) progress [of s' E] leader_step.release [of s' tok E]
    by auto
qed

theorem term_ends_witness:
  "let s = leave ''t'' ((begin_term ''t'' (new_leader sample_runtime []))\<lparr>ld_stopped := True\<rparr>); s' = s\<lparr>ld_lease := None\<rparr> in
   leader_run sample_leader_env s [Keeper] s' \<and> (\<exists>g s''. drains g \<and> leader_step sample_leader_env g s' s'')"
proof -
  let ?b = "begin_term ''t'' (new_leader sample_runtime [])"
  let ?s = "leave ''t'' (?b\<lparr>ld_stopped := True\<rparr>)" let ?s' = "?s\<lparr>ld_lease := None\<rparr>"
  have b: "ld_phase ?b = Leading ''t''" "ld_lease ?b = Some ''t''" "ld_polls ?b Latest = Some Probing"
    by (simp_all add: begin_term_def start_polls_polls new_leader_def sample_runtime_def NewRuntime_def sample_chain_def
        poll_commitments_def)
  have "leader_run sample_leader_env (new_leader sample_runtime []) ([Main] @ [Outside]) (?b\<lparr>ld_stopped := True\<rparr>)"
    by (rule leader_run.move [OF sample_leads leader_step.stop])
  moreover have "leader_step sample_leader_env Main (?b\<lparr>ld_stopped := True\<rparr>) ?s"
    by (rule leader_step.leaving) (simp_all add: b(1))
  ultimately have run: "leader_run sample_leader_env (new_leader sample_runtime []) (([Main] @ [Outside]) @ [Main]) ?s"
    by (rule leader_run.move)
  have f: "flight_respects (le_probe sample_leader_env)" by (simp add: sample_leader_env_def flight_respects_alone)
  have "leader_step sample_leader_env Keeper ?s ?s'"
    by (rule leader_step.renewed [of _ "''t''"]) (simp_all add: b(2) leave_def ctx_done_def)
  from leader_run.move [OF leader_run.stay this] have k: "leader_run sample_leader_env ?s [Keeper] ?s'" by simp
  have "\<not> quiet ?s'" by (rule busy(2) [of _ Latest Probing]) (simp add: leave_def b(3))
  then have nq: "quiet ?s' = False" by simp
  have "ld_phase ?s = Leaving ''t''" "Main \<notin> set [Keeper]" by (simp_all add: leave_def)
  from term_ends [OF run f this(1) k this(2)]
  have "\<exists>g s''. drains g \<and> leader_step sample_leader_env g ?s' s''" by (simp only: nq if_False)
  then show ?thesis unfolding Let_def using k by blast
qed

end
