(* ===== verification/Leader_Fence.thy ===== *)
theory Leader_Fence
  imports Leader
begin

text \<open>
  What the coordinators of all replicas do to the store they share. Every turn of a coordinator changes
  the memory store as a run of the operations of \<open>Head_Store\<close> does, with the latest head of every chain
  published for the EVM family only, whatever other replicas do to the store while the coordinator's
  upstream calls are in flight. So the coordinators together refine the runs of operations over which
  the fence is proved.
\<close>

subsection \<open>Relations that a decision keeps\<close>

definition calls_keep :: "'w node_env \<Rightarrow> ('w \<Rightarrow> 'w \<Rightarrow> bool) \<Rightarrow> bool" where
  "calls_keep env Q \<longleftrightarrow> reflp Q \<and> transp Q \<and> (\<forall>i m ps w. Q w (snd (node_call env i m ps w)))"

definition store_keeps :: "'w store_api \<Rightarrow> (head \<Rightarrow> bool) \<Rightarrow> ('w \<Rightarrow> 'w \<Rightarrow> bool) \<Rightarrow> bool" where
  "store_keeps st publishable Q \<longleftrightarrow>
     (\<forall>c w. Q w (snd (st_Snapshot st c w))) \<and> (\<forall>c tok w. Q w (snd (st_BeginReorg st c tok w)))
     \<and> (\<forall>tok h w. publishable h \<longrightarrow> Q w (snd (st_Publish st tok h w)))"

lemma keep_call: "calls_keep env Q \<Longrightarrow> node_call env i m ps w = (x, w') \<Longrightarrow> Q w w'"
  unfolding calls_keep_def by (metis snd_conv)

lemma keep_refl: "calls_keep env Q \<Longrightarrow> Q w w"
  by (simp add: calls_keep_def reflpD)

lemma keep_trans: "calls_keep env Q \<Longrightarrow> Q w w1 \<Longrightarrow> Q w1 w2 \<Longrightarrow> Q w w2"
  unfolding calls_keep_def by (blast dest: transpD)

lemma keep_snapshot: "store_keeps st p Q \<Longrightarrow> st_Snapshot st c w = (x, w') \<Longrightarrow> Q w w'"
  unfolding store_keeps_def by (metis snd_conv)

lemma keep_begin: "store_keeps st p Q \<Longrightarrow> st_BeginReorg st c tok w = (x, w') \<Longrightarrow> Q w w'"
  unfolding store_keeps_def by (metis snd_conv)

lemma keep_publish: "store_keeps st p Q \<Longrightarrow> p h \<Longrightarrow> st_Publish st tok h w = (x, w') \<Longrightarrow> Q w w'"
  unfolding store_keeps_def by (metis snd_conv)

lemma keep_fetch:
  assumes "calls_keep env Q"
  shows "fetch_block env r hash c is fs w = (x, w') \<Longrightarrow> Q w w'"
proof (induction "is" arbitrary: fs w)
  case (Cons i "is")
  obtain y w1 where y: "node_call env i ''eth_getBlockByHash'' (with_hash_params hash) w = (y, w1)"
    by (cases "node_call env i ''eth_getBlockByHash'' (with_hash_params hash) w")
  have "w' = w1 \<or> (\<exists>fs. fetch_block env r hash c is fs w1 = (x, w'))"
    using Cons.prems y by (auto split: sum.splits option.splits if_splits)
  then show ?case using keep_call [OF assms y] Cons.IH keep_trans [OF assms] by blast
qed (use keep_refl [OF assms] in simp)

lemma keep_parent:
  assumes "calls_keep env Q" "parent_of env r b cursor w = (x, w')"
  shows "Q w w'"
  using assms keep_fetch [OF assms(1)] keep_refl [OF assms(1)]
  by (auto simp: parent_of_def EVMBlockByHash_def split: if_splits)

lemma keep_climb:
  assumes "calls_keep env Q"
  shows "climb_down env r cand fl k cursor w = (x, w') \<Longrightarrow> Q w w'"
proof (induction k arbitrary: cursor w)
  case 0
  then show ?case using keep_refl [OF assms] by (simp add: climb_down.simps split: if_splits)
next
  case (Suc k)
  obtain y w1 where y: "parent_of env r cand cursor w = (y, w1)" by (cases "parent_of env r cand cursor w")
  have "w' = w \<or> w' = w1 \<or> (\<exists>p. climb_down env r cand fl k p w1 = (x, w'))"
    using Suc.prems y by (auto simp: climb_down.simps [of env r cand fl "Suc k"] split: sum.splits if_splits)
  then show ?case using keep_parent [OF assms y] Suc.IH keep_trans [OF assms] keep_refl [OF assms] by blast
qed

lemma keep_ancestors:
  assumes "calls_keep env Q"
  shows "current_ancestors env r cur cand k cursor acc w = (x, w') \<Longrightarrow> Q w w'"
proof (induction k arbitrary: cursor acc w)
  case 0
  then show ?case using keep_refl [OF assms] by (simp add: current_ancestors.simps)
next
  case (Suc k)
  obtain y w1 where y: "parent_of env r cur cursor w = (y, w1)" by (cases "parent_of env r cur cursor w")
  have "w' = w \<or> w' = w1 \<or> (\<exists>p acc. current_ancestors env r cur cand k p acc w1 = (x, w'))"
    using Suc.prems y by (auto simp: current_ancestors.simps [of env r cur cand "Suc k"] split: sum.splits if_splits)
  then show ?case using keep_parent [OF assms y] Suc.IH keep_trans [OF assms] keep_refl [OF assms] by blast
qed

lemma keep_common:
  assumes "calls_keep env Q"
  shows "common_ancestor env r cand acc k cursor w = (x, w') \<Longrightarrow> Q w w'"
proof (induction k arbitrary: cursor w)
  case 0
  then show ?case using keep_refl [OF assms] by (auto simp: common_ancestor.simps split: if_splits)
next
  case (Suc k)
  obtain y w1 where y: "parent_of env r cand cursor w = (y, w1)" by (cases "parent_of env r cand cursor w")
  have "w' = w \<or> w' = w1 \<or> (\<exists>p. common_ancestor env r cand acc k p w1 = (x, w'))"
    using Suc.prems y by (auto simp: common_ancestor.simps [of env r cand acc "Suc k"] split: sum.splits if_splits)
  then show ?case using keep_parent [OF assms y] Suc.IH keep_trans [OF assms] keep_refl [OF assms] by blast
qed

lemma keep_report:
  assumes "calls_keep env Q" "store_keeps st p Q" "report_if b st tok cand d w = (x, w')"
  shows "Q w w'"
proof -
  have "w' = w \<or> (\<exists>y. st_BeginReorg st (Chain cand) tok w = (y, w'))"
    using assms(3) by (auto simp: report_if_def reportDivergence_def split: if_splits prod.splits sum.splits)
  then show ?thesis using keep_begin [OF assms(2)] keep_refl [OF assms(1)] by blast
qed

lemma keep_candidate_parent:
  assumes "calls_keep env Q" "candidate_parent_problem env r cand w = (x, w')"
  shows "Q w w'"
proof -
  have "w' = w \<or> (\<exists>y. parent_of env r cand cand w = (y, w'))"
    using assms(2) by (auto simp: candidate_parent_problem_def split: if_splits prod.splits sum.splits)
  then show ?thesis using keep_parent [OF assms(1)] keep_refl [OF assms(1)] by blast
qed

lemma keep_fork_point:
  assumes "calls_keep env Q" "store_keeps st p Q" "fork_point env st r tok cur cand k cursor d w = (x, w')"
  shows "Q w w'"
proof -
  obtain y w1 where y: "current_ancestors env r cur cand k cur [(Hash cur, Number cur)] w = (y, w1)"
    by (cases "current_ancestors env r cur cand k cur [(Hash cur, Number cur)] w")
  obtain e d1 w2 where e: "report_if True st tok cand d w1 = ((e, d1), w2)" by (metis surj_pair)
  have "w' = w1 \<or> w' = w2 \<or> (\<exists>acc z. common_ancestor env r cand acc k cursor w2 = (z, w'))"
    using assms(3) y e
    by (auto simp: fork_point_def report_if_def split: sum.splits ancestors.splits prod.splits option.splits)
  moreover have q: "Q w w1" "Q w w2"
    using keep_ancestors [OF assms(1) y] keep_report [OF assms(1,2) e] keep_trans [OF assms(1)] by blast+
  moreover have "Q w w'" if "common_ancestor env r cand acc k cursor w2 = (z, w')" for acc z
    by (rule keep_trans [OF assms(1) q(2) keep_common [OF assms(1) that]])
  ultimately show ?thesis by blast
qed

lemma keep_transition:
  assumes "calls_keep env Q" "store_keeps st p Q" "validateEVMTransition env st r tok cur cand w = (x, w')"
  shows "Q w w'"
proof -
  let ?b = "(Number cand = Number cur \<or> Number cand > Number cur \<and> Number cand - Number cur = 1)
               \<and> \<not> EqualFold (Hash cand) (Hash cur)"
  let ?d = "\<lparr>reported = False, guarded = cur\<rparr>" and ?k = "nat (ReorgDepth (rt_Config r))"
  obtain e d1 w1 where e: "report_if ?b st tok cand ?d w = ((e, d1), w1)" by (metis surj_pair)
  obtain e2 w2 where e2: "candidate_parent_problem env r cand w1 = (e2, w2)" by (metis surj_pair)
  obtain e3 w3 where e3: "climb_down env r cand (Number cur) ?k cand w2 = (e3, w3)" by (metis surj_pair)
  note trans = keep_trans [OF assms(1)]
  have q: "Q w w1" "Q w w2" "Q w w3"
    using keep_report [OF assms(1,2) e] keep_candidate_parent [OF assms(1) e2] keep_climb [OF assms(1) e3] trans by blast+
  have "w' \<in> {w, w1, w2, w3} \<or> (\<exists>b z. report_if b st tok cand d1 w3 = (z, w'))
      \<or> (\<exists>b z w4 cursor d2. report_if b st tok cand d1 w3 = (z, w4) \<and> fork_point env st r tok cur cand ?k cursor d2 w4 = (x, w'))"
    using assms(3) e e2 e3
    by (auto simp: validateEVMTransition_def Let_def split: if_splits prod.splits option.splits sum.splits)
  moreover have r: "Q w w4" if "report_if b st tok cand d1 w3 = (z, w4)" for b z w4
    by (rule trans [OF q(3) keep_report [OF assms(1,2) that]])
  moreover have "Q w w'" if "report_if b st tok cand d1 w3 = (z, w4)"
    "fork_point env st r tok cur cand ?k cursor d2 w4 = (x, w')" for b z w4 cursor d2
    by (rule trans [OF r [OF that(1)] keep_fork_point [OF assms(1,2) that(2)]])
  ultimately show ?thesis using q keep_refl [OF assms(1)] by blast
qed

lemma keep_height:
  assumes "calls_keep env Q" "block_at_height env r cur i w = (x, w')"
  shows "Q w w'"
proof -
  obtain y w1 where y: "node_call env i ''eth_getBlockByNumber'' (MarshalParams [JStr (FormatEVMQuantity (Number cur)), JBool False]) w = (y, w1)"
    by (metis surj_pair)
  have "w' = w1" using assms(2) y by (auto simp: block_at_height_def split: sum.splits if_splits)
  then show ?thesis using keep_call [OF assms(1) y] by simp
qed

lemma keep_count:
  assumes "calls_keep env Q"
  shows "count_evidence env r cur is u n m w = (x, w') \<Longrightarrow> Q w w'"
proof (induction "is" arbitrary: u n m w)
  case (Cons i "is")
  obtain y w1 where y: "block_at_height env r cur i w = (y, w1)" by (metis surj_pair)
  have "\<exists>u n m. count_evidence env r cur is u n m w1 = (x, w')"
    using Cons.prems y by (auto split: option.splits)
  then show ?case using keep_height [OF assms y] Cons.IH keep_trans [OF assms, of w w1 w'] by blast
qed (use keep_refl [OF assms] in simp)

lemma keep_evidence:
  assumes "calls_keep env Q" "getCanonicalEvidence env r cur w = (x, w')"
  shows "Q w w'"
proof -
  obtain y where "count_evidence env r cur (Candidates env r False w) False 0 0 w = (y, w')"
    using assms(2) by (auto simp: getCanonicalEvidence_def split: prod.splits if_splits)
  then show ?thesis by (rule keep_count [OF assms(1)])
qed

lemma keep_decide_transition:
  assumes "calls_keep env Q" "store_keeps st p Q" "decide_transition env st r tok cur cand w = (x, w')"
  shows "Q w w'"
proof -
  obtain y w1 where y: "validateEVMTransition env st r tok cur cand w = (y, w1)" by (metis surj_pair)
  note q = keep_transition [OF assms(1,2) y]
  have "w' = w1 \<or> (\<exists>c z. getCanonicalEvidence env r c w1 = (z, w'))"
    using assms(3) y by (auto simp: decide_transition_def Let_def split: prod.splits sum.splits if_splits)
  moreover have "Q w w'" if "getCanonicalEvidence env r c w1 = (z, w')" for c z
    by (rule keep_trans [OF assms(1) q keep_evidence [OF assms(1) that]])
  ultimately show ?thesis using q by blast
qed

lemma keep_decide:
  assumes "calls_keep env Q" "store_keeps st p Q" "decide env st r tok snap cand w = (x, w')"
  shows "Q w w'"
proof -
  have "w' = w \<or> (\<exists>z. parent_of env r cand cand w = (z, w')) \<or> (\<exists>c z. getCanonicalEvidence env r c w = (z, w'))
      \<or> (\<exists>c. decide_transition env st r tok c cand w = (x, w'))"
    using assms(3)
    by (auto simp: decide_def decide_initial_def decide_evm_def split: option.splits if_splits prod.splits sum.splits)
  then show ?thesis
    using keep_refl [OF assms(1)] keep_parent [OF assms(1)] keep_evidence [OF assms(1)] keep_decide_transition [OF assms(1,2)]
    by blast
qed

lemma keep_consider:
  assumes "calls_keep env Q" "store_keeps st publishable Q" "consider_head env st r tok cand w = (x, w')"
    and "\<And>snap w1 h w2. st_Snapshot st (Chain cand) w = (Inr snap, w1) \<Longrightarrow>
      decide env st r tok snap cand w1 = (Publishing h, w2) \<Longrightarrow> publishable h"
  shows "Q w w'"
proof -
  obtain y w1 where y: "st_Snapshot st (Chain cand) w = (y, w1)" by (metis surj_pair)
  note q = keep_snapshot [OF assms(2) y] and trans = keep_trans [OF assms(1)]
  show ?thesis
  proof (cases y)
    case (Inl e)
    then show ?thesis using assms(3) y q by (simp add: consider_head_def)
  next
    case (Inr snap)
    obtain d w2 where d: "decide env st r tok snap cand w1 = (d, w2)" by (metis surj_pair)
    have q2: "Q w w2" by (rule trans [OF q keep_decide [OF assms(1,2) d]])
    show ?thesis
    proof (cases d)
      case (Publishing h)
      obtain z where "st_Publish st tok h w2 = (z, w')"
        using assms(3) y Inr d Publishing by (auto simp: consider_head_def split: prod.splits sum.splits)
      then show ?thesis using trans [OF q2] keep_publish [OF assms(2)] assms(4) y Inr d Publishing by blast
    qed (use assms(3) y Inr d q2 in \<open>auto simp: consider_head_def\<close>)
  qed
qed

subsection \<open>The other turns\<close>

lemma keep_poll_one:
  assumes "calls_keep env Q" "pollOne env r i c w = (x, w')"
  shows "Q w w'"
proof -
  have "(\<exists>m ps y. node_call env i m ps w = (y, w'))
      \<or> (\<exists>m ps y w1 m' ps' y'. node_call env i m ps w = (y, w1) \<and> node_call env i m' ps' w1 = (y', w'))"
    using assms(2) unfolding pollOne_def Let_def
    by (auto split: if_splits prod.splits sum.splits option.splits)
  then show ?thesis using keep_call [OF assms(1)] keep_trans [OF assms(1)] by blast
qed

lemma keep_poll_heads:
  assumes "calls_keep env Q"
  shows "poll_heads env r c is co w = (hs, co', w') \<Longrightarrow> Q w w'"
proof (induction "is" arbitrary: co w hs)
  case (Cons i "is")
  obtain y w1 where y: "pollOne env r i c w = (y, w1)" by (metis surj_pair)
  have "\<exists>co hs. poll_heads env r c is co w1 = (hs, co', w')"
    using Cons.prems y by (auto split: sum.splits prod.splits)
  then show ?case using keep_poll_one [OF assms y] Cons.IH keep_trans [OF assms, of w w1 w'] by blast
qed (use keep_refl [OF assms] in simp)

lemma keep_poll:
  assumes "calls_keep env Q" "store_keeps st p Q" "poll env st r c co w = (hs, co', w')"
  shows "Q w w'"
proof -
  obtain cs c1 w1 where cs: "poll_heads env r c (poll_targets env r c co w) co w = (cs, c1, w1)" by (metis prod_cases3)
  have "w' = w1 \<or> (\<exists>y. st_Snapshot st (cc_Name (rt_Config r)) w1 = (y, w'))"
    using assms(3) cs by (auto simp: poll_def split: if_splits prod.splits sum.splits)
  then show ?thesis
    using keep_poll_heads [OF assms(1) cs] keep_snapshot [OF assms(2)] keep_trans [OF assms(1), of w w1 w'] by blast
qed

lemma keep_ages:
  assumes "calls_keep env Q" "store_keeps st p Q"
  shows "Q w (snd (emitHeadAges env st r c w))"
proof -
  obtain y w1 where y: "st_Snapshot st (cc_Name (rt_Config r)) w = (y, w1)" by (metis surj_pair)
  then have "snd (emitHeadAges env st r c w) = w1" by (auto simp: emitHeadAges_def split: sum.splits)
  then show ?thesis using keep_snapshot [OF assms(2) y] by simp
qed

lemma keep_frame:
  assumes "calls_keep env Q" "\<And>i t s. Q (snd s) (snd (snd (HasEVMBlock env do_chan i t s)))"
    and "watch_frame env do_chan i sub l fr (r, w) = (x, r', w')"
  shows "Q w w'"
proof -
  have "w' = w \<or> (\<exists>t z. HasEVMBlock env do_chan i t (r, w) = (z, r', w'))"
    using assms(3) by (auto simp: watch_frame_def split: frame.splits option.splits sum.splits prod.splits if_splits bool.splits)
  moreover have "Q w w'" if "HasEVMBlock env do_chan i t (r, w) = (z, r', w')" for t z
    using assms(2) [where s = "(r, w)" and i = i and t = t] that by simp
  ultimately show ?thesis using keep_refl [OF assms(1)] by blast
qed

text \<open>What a coordinator relies on: its calls, its store and its lease keep the relation.\<close>

definition leader_keeps :: "'w leader_env \<Rightarrow> (head \<Rightarrow> bool) \<Rightarrow> ('w \<Rightarrow> 'w \<Rightarrow> bool) \<Rightarrow> bool" where
  "leader_keeps E publishable Q \<longleftrightarrow>
     step_preorder (le_env E) (\<lambda>s s'. Q (snd s) (snd s')) \<and> store_keeps (le_store E) publishable Q \<and> flight_respects (le_probe E)
     \<and> (\<forall>c owner ttl w. Q w (snd (le_Acquire E c owner ttl w))) \<and> (\<forall>c tok ttl w. Q w (snd (le_Renew E c tok ttl w)))
     \<and> (\<forall>c tok w. Q w (snd (le_Release E c tok w)))"

lemma leader_keepsD:
  assumes "leader_keeps E p Q"
  shows "calls_keep (le_env E) Q" "store_keeps (le_store E) p Q" "flight_respects (le_probe E)"
    "Q w (snd (le_Acquire E c owner ttl w))" "Q w (snd (le_Renew E c tok ttl w))" "Q w (snd (le_Release E c tok w))"
    "Q (snd s) (snd (snd (HasEVMBlock (le_env E) (le_probe E) i t s)))"
proof -
  have pre: "step_preorder (le_env E) (\<lambda>s s'. Q (snd s) (snd s'))" using assms by (simp add: leader_keeps_def)
  have "Q w w" for w using step_preorderD(1) [OF pre, of "(undefined, w)"] by simp
  moreover have "Q w w1 \<Longrightarrow> Q w1 w2 \<Longrightarrow> Q w w2" for w w1 w2
    using step_preorderD(2) [OF pre, of "(undefined, w)" "(undefined, w1)" "(undefined, w2)"] by simp
  moreover have "Q w (snd (node_call (le_env E) i m ps w))" for i m ps w
    using step_preorderD(3) [OF pre, of undefined w i m ps] by simp
  ultimately show "calls_keep (le_env E) Q" unfolding calls_keep_def reflp_def transp_def by blast
  show "flight_respects (le_probe E)" using assms by (simp add: leader_keeps_def)
  from step_has_block [OF pre this] show "Q (snd s) (snd (snd (HasEVMBlock (le_env E) (le_probe E) i t s)))" by simp
qed (use assms in \<open>simp_all add: leader_keeps_def\<close>)

theorem leader_step_keeps:
  assumes "leader_step E g s s'" "g \<noteq> Outside" "leader_keeps E publishable Q"
    and "\<And>tok h snap w h' w'. h \<in> set (ld_queue s) \<Longrightarrow> st_Snapshot (le_store E) (Chain h) (ld_world s) = (Inr snap, w) \<Longrightarrow>
      decide (le_env E) (le_store E) (ld_runtime s) tok snap h w = (Publishing h', w') \<Longrightarrow> publishable h'"
  shows "Q (ld_world s) (ld_world s')"
proof -
  note k = leader_keepsD [OF assms(3)]
  note refl = keep_refl [OF k(1)]
  from assms(1) show ?thesis
  proof cases
    case acquire
    then show ?thesis
      using k(4) [of "ld_world s" "cc_Name (rt_Config (ld_runtime s))" "le_owner E" "le_ttl E"]
      by (auto simp: acquire_turn_def begin_term_def split: prod.splits)
  next
    case (considered tok h hs)
    obtain e w where e: "consider_head (le_env E) (le_store E) (ld_runtime s) tok h (ld_world s) = (e, w)" by (metis surj_pair)
    have h: "h \<in> set (ld_queue s)" using considered by simp
    have "Q (ld_world s) w" by (rule keep_consider [OF k(1,2) e assms(4) [OF h]])
    then show ?thesis using considered(2) e by (simp add: consider_turn_def leave_def Let_def)
  next
    case (release tok)
    then show ?thesis using k(6) [of "ld_world s" "cc_Name (rt_Config (ld_runtime s))" tok]
      by (simp add: release_turn_def split: prod.splits)
  next
    case (renew tok)
    then show ?thesis using k(5) [of "ld_world s" "cc_Name (rt_Config (ld_runtime s))" tok "le_ttl E"]
      by (auto simp: renew_turn_def split: prod.splits)
  next
    case (probe c)
    obtain hs co w where p: "poll (le_env E) (le_store E) (ld_runtime s) c (ld_coord s) (ld_world s) = (hs, co, w)"
      by (metis prod_cases3)
    then show ?thesis using probe(2) keep_poll [OF k(1,2) p] by (simp add: probe_turn_def)
  next
    case (dial i ack)
    have "ld_world s' = ld_world s \<or> (\<exists>z. pollOne (le_env E) (ld_runtime s) i Latest (ld_world s) = (z, ld_world s'))"
      using dial(2) by (auto simp: dial_turn_def end_session_def observe_def split: frame.splits option.splits prod.splits sum.splits)
    then show ?thesis using keep_poll_one [OF k(1)] refl by metis
  next
    case (reads i sub h fr)
    obtain x r w where x: "watch_frame (le_env E) (le_probe E) i sub h fr (ld_runtime s, ld_world s) = (x, r, w)" by (metis prod_cases3)
    have "ld_world s' = w" using reads(2) x
      by (auto simp: read_turn_def Let_def end_session_def observe_def split: watch.splits)
    then show ?thesis using keep_frame [OF k(1) k(7) x] by simp
  qed (use assms(2) refl keep_ages [OF k(1,2)] in \<open>auto simp: tick_turn_def leave_def send_turn_def top_turn_def end_session_def
    emit_turn_def loop_turn_def\<close>)
qed

subsection \<open>What is published\<close>

text \<open>A store whose fence is raised for EVM heads only.\<close>

locale evm_reorg_store = reorg_store +
  assumes begin_family: "st_BeginReorg st chain tok w = (Inr g, w') \<Longrightarrow> Family g = ''evm''"
begin

lemma guarded_family: "fence_state st tok cand cur d \<Longrightarrow> Family cur = ''evm'' \<Longrightarrow> Family (guarded d) = ''evm''"
  by (auto simp: fence_state_def fenced_def dest: begin_family split: if_splits)

text \<open>An EVM coordinator publishes EVM heads, as long as the accepted head is one.\<close>

lemma decision_family:
  assumes "decide env st r tok snap cand w = (Publishing h, w')" "Family cand = ''evm''"
    and "\<And>cur. Get snap (Commitment cand) = Some cur \<Longrightarrow> Family cur = ''evm''"
  shows "Family h = ''evm''"
proof (cases "Get snap (Commitment cand)")
  case None
  then show ?thesis using assms(1,2)
    by (auto simp: decide_def decide_initial_def split: if_splits prod.splits sum.splits)
next
  case (Some cur)
  note evm = assms(3) [OF Some]
  have dec: "decide_evm env st r tok cur cand w = (Publishing h, w')"
    using assms(1,2) Some by (simp add: decide_def)
  have "h = acknowledged cur cand \<or> (\<exists>reorg d w1. validateEVMTransition env st r tok cur cand w = ((Inr reorg, d), w1)
      \<and> (h = acknowledged (guarded d) cand \<or> (\<exists>t. h = acknowledged (guarded d) ((guarded d)\<lparr>ObservedAt := t\<rparr>))))"
    using dec by (auto simp: decide_evm_def decide_transition_def Let_def split: if_splits prod.splits sum.splits)
  then show ?thesis
  proof (elim disjE exE conjE)
    fix reorg d w1 t
    assume v: "validateEVMTransition env st r tok cur cand w = ((Inr reorg, d), w1)"
      and h: "h = acknowledged (guarded d) ((guarded d)\<lparr>ObservedAt := t\<rparr>)"
    have "fence_state st tok cand cur d" using transition_sound [OF v] by blast
    then show ?thesis using guarded_family evm h by (simp add: acknowledged_def)
  qed (use assms(2) in \<open>simp_all add: acknowledged_def\<close>)
qed

end

lemma BeginReorg_family: "BeginReorg t c tok m = (Inr g, m') \<Longrightarrow> Family g = ''evm''"
  by (auto simp: BeginReorg_def Let_def split: if_splits option.splits)

interpretation mem_reorgs: evm_reorg_store "mem_api clock" for clock :: "'v \<Rightarrow> time"
  by unfold_locales (auto simp: mem_api_def split: prod.splits dest: BeginReorg_family)

lemma decide_other:
  "decide env st r tok snap cand w = (Publishing h, w') \<Longrightarrow> Family cand \<noteq> ''evm'' \<Longrightarrow> h = cand"
  by (auto simp: decide_def decide_initial_def split: option.splits if_splits)

subsection \<open>Coordinators over the memory store\<close>

definition mem_leader :: "('v \<Rightarrow> time) \<Rightarrow> (mem_store \<times> 'v) node_env \<Rightarrow> (mem_store \<times> 'v) probe_group \<Rightarrow> string \<Rightarrow> duration \<Rightarrow>
    (mem_store \<times> 'v) leader_env" where
  "mem_leader clock env flight owner ttl = \<lparr>le_env = env, le_store = mem_api clock,
     le_Acquire = (\<lambda>c o' t (m, v). case Acquire (clock v) c o' t m of ((tok, ok), m') \<Rightarrow> ((tok, ok, None), m', v)),
     le_Renew = (\<lambda>c tok t (m, v). case Renew (clock v) c tok t m of (ok, m') \<Rightarrow> ((ok, None), m', v)),
     le_Release = (\<lambda>c tok (m, v). (None, Release c tok m, v)),
     le_probe = flight, le_owner = owner, le_ttl = ttl\<rparr>"

text \<open>A run of operations that publish the latest head of a chain for the EVM family only.\<close>

definition fenced_run :: "(time \<times> store_op) list \<Rightarrow> bool" where
  "fenced_run ops \<longleftrightarrow> list_all (\<lambda>p. \<forall>c. evm_op c (snd p)) ops"

definition evolves :: "mem_store \<times> 'v \<Rightarrow> mem_store \<times> 'v \<Rightarrow> bool" where
  "evolves w w' \<longleftrightarrow> (\<exists>ops. fenced_run ops \<and> fst w' = mem_run ops (fst w))"

lemma evolves_refl: "evolves w w"
  unfolding evolves_def fenced_run_def by (rule exI [of _ "[]"]) simp

lemma evolves_trans: "evolves w1 w2 \<Longrightarrow> evolves w2 w3 \<Longrightarrow> evolves w1 w3"
proof -
  assume "evolves w1 w2" "evolves w2 w3"
  then obtain xs ys where "fenced_run xs" "fenced_run ys" "fst w2 = mem_run xs (fst w1)" "fst w3 = mem_run ys (fst w2)"
    unfolding evolves_def by blast
  then show ?thesis unfolding evolves_def fenced_run_def
    by (intro exI [of _ "xs @ ys"]) (simp add: store_run_append)
qed

lemma evolves_op: "\<forall>c. evm_op c op \<Longrightarrow> fst w' = mem_step t op (fst w) \<Longrightarrow> evolves w w'"
  unfolding evolves_def fenced_run_def by (rule exI [of _ "[(t, op)]"]) simp

text \<open>A latest head of the store is one of the EVM family.\<close>

definition evm_accepted :: "mem_store \<Rightarrow> bool" where
  "evm_accepted m \<longleftrightarrow> (\<forall>c h. mem_accepted m c = Some h \<longrightarrow> Family h = ''evm'')"

lemma evm_accepted_step:
  assumes "evm_accepted m" "\<forall>c. evm_op c op"
  shows "evm_accepted (mem_step t op m)"
proof (cases op)
  case (OpPublish tok h)
  then have "Commitment h = Latest \<longrightarrow> Family h = ''evm''" using assms(2) by simp
  then show ?thesis using OpPublish assms(1)
    by (auto simp: evm_accepted_def Publish_def put_head_def add_event_def Let_def)
next
  case (OpBeginReorg c tok)
  then show ?thesis using assms(1)
    by (auto simp: evm_accepted_def BeginReorg_def Let_def split: option.splits)
qed (use assms(1) in \<open>auto simp: evm_accepted_def Acquire_def Renew_def Release_def Let_def\<close>)

lemma evm_accepted_run: "fenced_run ops \<Longrightarrow> evm_accepted m \<Longrightarrow> evm_accepted (mem_run ops m)"
  by (induction ops arbitrary: m) (auto simp: fenced_run_def evm_accepted_step)

lemma evolves_accepted: "evolves w w' \<Longrightarrow> evm_accepted (fst w) \<Longrightarrow> evm_accepted (fst w')"
  by (auto simp: evolves_def evm_accepted_run)

definition publishable :: "head \<Rightarrow> bool" where
  "publishable h \<longleftrightarrow> (Commitment h = Latest \<longrightarrow> Family h = ''evm'')"

lemma mem_api_keeps: "store_keeps (mem_api clock) publishable evolves"
proof -
  have "evolves (m, v) (snd (Publish (clock v) tok h m), v)" if "publishable h" for m v tok h
    using that by (intro evolves_op [of "OpPublish tok h" _ "clock v"]) (simp_all add: publishable_def)
  moreover have "evolves (m, v) (snd (BeginReorg (clock v) c tok m), v)" for m v c tok
    by (rule evolves_op [of "OpBeginReorg c tok" _ "clock v"]) simp_all
  ultimately show ?thesis using evolves_refl by (auto simp: store_keeps_def mem_api_def case_prod_beta)
qed

lemma mem_leader_keeps:
  assumes "step_preorder env (\<lambda>s s'. evolves (snd s) (snd s'))" "flight_respects flight"
  shows "leader_keeps (mem_leader clock env flight owner ttl) publishable evolves"
proof -
  have "evolves (m, v) (snd (Acquire (clock v) c o' t m), v)" for m v c o' t
    by (rule evolves_op [of "OpAcquire c o' t" _ "clock v"]) simp_all
  moreover have "evolves (m, v) (snd (Renew (clock v) c tok t m), v)" for m v c tok t
    by (rule evolves_op [of "OpRenew c tok t" _ "clock v"]) simp_all
  moreover have "evolves (m, v) (Release c tok m, v)" for m v c tok
    by (rule evolves_op [of "OpRelease c tok" _ 0]) simp_all
  ultimately show ?thesis using assms mem_api_keeps
    by (auto simp: leader_keeps_def mem_leader_def case_prod_beta)
qed

definition known_family :: "ChainConfig \<Rightarrow> bool" where
  "known_family cfg \<longleftrightarrow> cc_Family cfg \<in> {''evm'', ''solana''}"

lemma own_publishes:
  assumes "own cfg cm h" "known_family cfg" "decide env (mem_api clock) r tok (Snapshot c m) h w = (Publishing h', w')"
    and "evm_accepted m"
  shows "publishable h'"
proof (cases "cc_Family cfg = ''evm''")
  case True
  then have "Family h = ''evm''" "Commitment h = Latest" using assms(1) by (auto simp: own_def poll_commitments_def)
  then have "Family h' = ''evm''"
    using mem_reorgs.decision_family [OF assms(3)] assms(4) by (auto simp: Get_def Snapshot_def evm_accepted_def)
  then show ?thesis by (simp add: publishable_def)
next
  case False
  then have "Family h = ''solana''" "Commitment h \<noteq> Latest" using assms(1,2)
    by (auto simp: own_def poll_commitments_def known_family_def Latest_def Processed_def Confirmed_def Finalized_def)
  then show ?thesis using decide_other [OF assms(3)] by (simp add: publishable_def)
qed

theorem mem_turn_evolves:
  assumes "leader_step (mem_leader clock env flight owner ttl) g s s'" "g \<noteq> Outside" "leader_inv s"
    and "step_preorder env (\<lambda>s s'. evolves (snd s) (snd s'))" "flight_respects flight"
    and "known_family (rt_Config (ld_runtime s))" "evm_accepted (fst (ld_world s))"
  shows "evolves (ld_world s) (ld_world s')"
proof (rule leader_step_keeps [OF assms(1,2) mem_leader_keeps [OF assms(4,5)]])
  fix tok h snap w h' w'
  assume "h \<in> set (ld_queue s)"
    and snap: "st_Snapshot (le_store (mem_leader clock env flight owner ttl)) (Chain h) (ld_world s) = (Inr snap, w)"
    and dec: "decide (le_env (mem_leader clock env flight owner ttl)) (le_store (mem_leader clock env flight owner ttl))
      (ld_runtime s) tok snap h w = (Publishing h', w')"
  then have "own (rt_Config (ld_runtime s)) (Commitment h) h"
    using leader_invD(6) [OF assms(3)] by (simp add: list_all_iff)
  moreover have "snap = Snapshot (Chain h) (fst (ld_world s))"
    using snap by (auto simp: mem_leader_def mem_api_def case_prod_beta)
  ultimately show "publishable h'"
    using own_publishes assms(6,7) dec by (simp add: mem_leader_def)
qed

subsection \<open>The coordinators of all replicas\<close>

text \<open>
  Any number of coordinators, of any replicas and chains, over one store: a turn of one of them at the
  store as it is, the end of a process, the validation of a chain's upstreams, time passing.
\<close>

inductive cluster_step :: "('i \<Rightarrow> (mem_store \<times> 'v) leader_env) \<Rightarrow> ('i \<Rightarrow> (mem_store \<times> 'v) leader) \<times> mem_store \<times> 'v \<Rightarrow>
    ('i \<Rightarrow> (mem_store \<times> 'v) leader) \<times> mem_store \<times> 'v \<Rightarrow> bool" for E where
  turn: "leader_step (E i) g ((L i)\<lparr>ld_world := w\<rparr>) s \<Longrightarrow> g \<noteq> Outside \<Longrightarrow> cluster_step E (L, w) (L(i := s), ld_world s)"
| ended: "cluster_step E (L, w) (L(i := (L i)\<lparr>ld_stopped := True\<rparr>), w)"
| validated: "rt_Config r = rt_Config (ld_runtime (L i)) \<Longrightarrow> cluster_step E (L, w) (L(i := (L i)\<lparr>ld_runtime := r\<rparr>), w)"
| elapsed: "cluster_step E (L, m, v) (L, m, v')"

inductive cluster_run :: "('i \<Rightarrow> (mem_store \<times> 'v) leader_env) \<Rightarrow> ('i \<Rightarrow> (mem_store \<times> 'v) leader) \<times> mem_store \<times> 'v \<Rightarrow>
    ('i \<Rightarrow> (mem_store \<times> 'v) leader) \<times> mem_store \<times> 'v \<Rightarrow> bool" for E x where
  cluster_stay: "cluster_run E x x"
| cluster_move: "cluster_run E x y \<Longrightarrow> cluster_step E y z \<Longrightarrow> cluster_run E x z"

text \<open>Every coordinator runs over the shared memory store, and its upstream calls leave it to the
  operations of coordinators.\<close>

definition shares_store :: "('v \<Rightarrow> time) \<Rightarrow> (mem_store \<times> 'v) leader_env \<Rightarrow> bool" where
  "shares_store clock E \<longleftrightarrow> (\<exists>env flight owner ttl. E = mem_leader clock env flight owner ttl
     \<and> step_preorder env (\<lambda>s s'. evolves (snd s) (snd s')) \<and> flight_respects flight)"

definition cluster_ok :: "('i \<Rightarrow> (mem_store \<times> 'v) leader) \<times> mem_store \<times> 'v \<Rightarrow> bool" where
  "cluster_ok x \<longleftrightarrow> (\<forall>i. leader_inv (fst x i) \<and> known_family (rt_Config (ld_runtime (fst x i)))) \<and> evm_accepted (fst (snd x))"

lemma cluster_step_evolves:
  assumes "cluster_step E x y" "\<And>i. shares_store clock (E i)" "cluster_ok x"
  shows "evolves (snd x) (snd y) \<and> cluster_ok y"
  using assms(1)
proof cases
  case (turn i g w L s)
  obtain env flight owner ttl where E: "E i = mem_leader clock env flight owner ttl"
    "step_preorder env (\<lambda>s s'. evolves (snd s) (snd s'))" "flight_respects flight"
    using assms(2) [of i] unfolding shares_store_def by blast
  have L: "leader_inv ((L i)\<lparr>ld_world := w\<rparr>)" "known_family (rt_Config (ld_runtime (L i)))" "evm_accepted (fst w)"
    using assms(3) turn(1) world_inv [of "L i" w] by (auto simp: cluster_ok_def)
  have f: "flight_respects (le_probe (E i))" using E by (simp add: mem_leader_def)
  have ev: "evolves w (ld_world s)"
    using mem_turn_evolves [OF turn(3) [unfolded E(1)] turn(4) L(1) E(2,3)] L(2,3) by simp
  then show ?thesis
    using turn(1,2) assms(3) leader_step_inv [OF turn(3) f L(1)] leader_step_config [OF turn(3) f] L(2) evolves_accepted [OF ev L(3)]
    by (auto simp: cluster_ok_def)
next
  case (ended L w i)
  have "leader_inv ((L i)\<lparr>ld_stopped := True\<rparr>)"
    using leader_step_inv [OF leader_step.stop [of "mem_leader clock undefined probe_alone undefined undefined" "L i"]] assms(3) ended
      flight_respects_alone
    by (auto simp: cluster_ok_def mem_leader_def)
  then show ?thesis using ended assms(3) evolves_refl [of w] by (auto simp: cluster_ok_def)
next
  case (validated r L i w)
  have "(L i)\<lparr>ld_runtime := r, ld_world := ld_world (L i)\<rparr> = (L i)\<lparr>ld_runtime := r\<rparr>" by (cases "L i") simp
  then have "leader_inv ((L i)\<lparr>ld_runtime := r\<rparr>)"
    using outside_inv [OF _ validated(3), of "ld_world (L i)"] assms(3) validated(1) by (auto simp: cluster_ok_def)
  then show ?thesis using validated assms(3) evolves_refl [of w] by (auto simp: cluster_ok_def)
next
  case (elapsed L m v v')
  have "evolves (m, v) (m, v')" unfolding evolves_def fenced_run_def by (rule exI [of _ "[]"]) simp
  then show ?thesis using elapsed assms(3) by (simp add: cluster_ok_def)
qed


definition sample_cluster_env :: "unit \<Rightarrow> (mem_store \<times> unit) leader_env" where
  "sample_cluster_env = (\<lambda>_. mem_leader (\<lambda>_. 5) blocked_env probe_alone ''o'' 3)"


end
