(* ===== verification/Redis_Fence.thy ===== *)
theory Redis_Fence
  imports Redis_Store
begin

text \<open>
  The reorg fence in Redis. What the scripts rely on is stated as laws: \<open>hash_laws\<close> of the commands on
  hashes, \<open>codec_laws\<close> of \<^verbatim>\<open>cjson\<close> and of Lua's numbers, which hold for integers below \<open>10 ^ 14\<close> (\<^verbatim>\<open>cjson\<close>
  writes 14 significant digits). Under them the executions of the scripts are a fenced store: they satisfy
  the contract of \<open>fenced_store\<close>.
\<close>

subsection \<open>What the scripts rely on\<close>

definition keeps_others :: "('w \<Rightarrow> string \<Rightarrow> string \<Rightarrow> raw option) \<Rightarrow> string \<Rightarrow> ('w, 'a) cmd \<Rightarrow> bool" where
  "keeps_others stored k c \<longleftrightarrow> (\<forall>w k'. k' \<noteq> k \<longrightarrow> stored (snd (c w)) k' = stored w k')"

text \<open>\<open>stored w k f\<close> is the field \<open>f\<close> of the hash at \<open>k\<close>. A command changes its own key only.\<close>

definition hash_laws :: "'w redis \<Rightarrow> ('w \<Rightarrow> string \<Rightarrow> string \<Rightarrow> raw option) \<Rightarrow> bool" where
  "hash_laws R stored \<longleftrightarrow>
     (\<forall>k. keeps_others stored k (EXISTS R k)) \<and> (\<forall>k. keeps_others stored k (GET R k))
     \<and> (\<forall>k. keeps_others stored k (INCR R k)) \<and> (\<forall>k ttl s. keeps_others stored k (PSETEX R k ttl s))
     \<and> (\<forall>k ttl. keeps_others stored k (PEXPIRE R k ttl)) \<and> (\<forall>k. keeps_others stored k (DEL R k))
     \<and> (\<forall>k n v. keeps_others stored k (XADD R k n v))
     \<and> (\<forall>k f w. stored (snd (HGET R k f w)) = stored w)
     \<and> (\<forall>k f w v w'. HGET R k f w = (Inr v, w') \<longrightarrow> v = stored w k f)
     \<and> (\<forall>k f v w e w'. HSET R k f v w = (Inl e, w') \<longrightarrow> stored w' = stored w)
     \<and> (\<forall>k f v w u w'. HSET R k f v w = (Inr u, w') \<longrightarrow> stored w' = (stored w)(k := (stored w k)(f \<mapsto> Some v)))
     \<and> (\<forall>k w ms w'. HGETALL R k w = (Inr ms, w') \<longrightarrow> map_of ms = stored w k \<and> stored w' = stored w)"

definition small :: "nat \<Rightarrow> bool" where
  "small n \<longleftrightarrow> n < 10 ^ 14"

abbreviation lua_nat :: "'n lua_lib \<Rightarrow> nat \<Rightarrow> 'n lua" where
  "lua_nat L n \<equiv> LNum (lua_int L (int n))"

text \<open>A codec may fail, on values nested too deeply; when it succeeds it keeps objects member by member,
  strings, booleans and small integers.\<close>

definition codec_laws :: "'n lua_lib \<Rightarrow> bool" where
  "codec_laws L \<longleftrightarrow>
     (\<forall>ms x. distinct (map fst ms) \<longrightarrow> cj_decode L (JObj ms) = Some x \<longrightarrow>
        (\<exists>t. x = LTable t \<and> distinct (map fst t) \<and> (\<forall>k. map_of t k = Option.bind (map_of ms k) (cj_decode L))
           \<and> (\<forall>k v. map_of ms k = Some v \<longrightarrow> cj_decode L v \<noteq> None)))
     \<and> (\<forall>t v. distinct (map fst t) \<longrightarrow> cj_encode L (LTable t) = Some v \<longrightarrow>
        (\<exists>ms. v = JObj ms \<and> distinct (map fst ms) \<and> (\<forall>k. map_of ms k = Option.bind (map_of t k) (cj_encode L))
           \<and> (\<forall>k x. map_of t k = Some x \<longrightarrow> cj_encode L x \<noteq> None)))
     \<and> (\<forall>s x. cj_decode L (JStr s) = Some x \<longrightarrow> x = LStr s) \<and> (\<forall>s v. cj_encode L (LStr s) = Some v \<longrightarrow> v = JStr s)
     \<and> (\<forall>b x. cj_decode L (JBool b) = Some x \<longrightarrow> x = LBool b) \<and> (\<forall>b v. cj_encode L (LBool b) = Some v \<longrightarrow> v = JBool b)
     \<and> (\<forall>n x. small (unat n) \<longrightarrow> cj_decode L (JNum (show_u64 n)) = Some x \<longrightarrow> x = lua_nat L (unat n))
     \<and> (\<forall>n v. small (unat n) \<longrightarrow> cj_encode L (lua_nat L (unat n)) = Some v \<longrightarrow> v = JNum (show_u64 n))
     \<and> (\<forall>n. small n \<longrightarrow> lua_plus L (lua_int L (int n)) (lua_int L 1) = lua_int L (int n + 1))
     \<and> (\<forall>m n. small m \<longrightarrow> small n \<longrightarrow> lua_int L (int m) = lua_int L (int n) \<longrightarrow> m = n)"

text \<open>The counter of a chain's generations counts up from one and stays below \<open>10 ^ 14\<close>.\<close>

definition counter_laws :: "'w redis \<Rightarrow> bool" where
  "counter_laws R \<longleftrightarrow> (\<forall>k w n w'. INCR R k w = (Inr n, w') \<longrightarrow> 0 < n \<and> small (nat n))"

definition small_head :: "head \<Rightarrow> bool" where
  "small_head h \<longleftrightarrow> small (unat (Number h)) \<and> small (unat (Generation h)) \<and> small (unat (ReorgEpoch h))"

lemma encode_table:
  assumes "codec_laws L" "distinct (map fst t)" "cj_encode L (LTable t) = Some v"
  obtains ms where "v = JObj ms" "distinct (map fst ms)"
    "\<And>k. map_of ms k = Option.bind (map_of t k) (cj_encode L)"
    "\<And>k x. map_of t k = Some x \<Longrightarrow> cj_encode L x \<noteq> None"
proof -
  have "\<exists>ms. v = JObj ms \<and> distinct (map fst ms) \<and> (\<forall>k. map_of ms k = Option.bind (map_of t k) (cj_encode L))
      \<and> (\<forall>k x. map_of t k = Some x \<longrightarrow> cj_encode L x \<noteq> None)"
    using assms(1) [unfolded codec_laws_def] assms(2,3) by (elim conjE) metis
  then show thesis using that by blast
qed

subsection \<open>Tables of heads\<close>

abbreviation hm :: "(time \<Rightarrow> string) \<Rightarrow> head \<Rightarrow> string \<Rightarrow> json option" where
  "hm show_time h \<equiv> map_of (head_members show_time h)"

lemma hm_simps [simp]:
  "hm sh h ''family'' = Some (JStr (Family h))" "hm sh h ''commitment'' = Some (JStr (Commitment h))"
  "hm sh h ''number'' = Some (JNum (show_u64 (Number h)))" "hm sh h ''chain'' = Some (JStr (Chain h))"
  "hm sh h ''hash'' = (if Hash h = [] then None else Some (JStr (Hash h)))"
  "hm sh h ''generation'' = Some (JNum (show_u64 (Generation h)))"
  "hm sh h ''reorg_epoch'' = Some (JNum (show_u64 (ReorgEpoch h)))"
  "hm sh h ''reorg_pending'' = Some (JBool (ReorgPending h))"
  "hm sh h ''changed_at'' = Some (JStr (sh (ChangedAt h)))" "hm sh h ''header'' = Header h"
  by (simp_all add: head_members_def split: option.splits)

lemma hm_update:
  "hm sh (h\<lparr>Generation := g\<rparr>) = (hm sh h)(''generation'' \<mapsto> JNum (show_u64 g))"
  "hm sh (h\<lparr>ReorgEpoch := e\<rparr>) = (hm sh h)(''reorg_epoch'' \<mapsto> JNum (show_u64 e))"
  "hm sh (h\<lparr>ReorgPending := b\<rparr>) = (hm sh h)(''reorg_pending'' \<mapsto> JBool b)"
  "hm sh (h\<lparr>ChangedAt := t\<rparr>) = (hm sh h)(''changed_at'' \<mapsto> JStr (sh t))"
  "hm sh (h\<lparr>Header := r\<rparr>) = (hm sh h)(''header'' := r)"
  by (rule ext, simp add: head_members_def split: option.splits)+

lemma canonical_iff: "canonical sh (JObj ms) h \<longleftrightarrow> distinct (map fst ms) \<and> map_of ms = hm sh h"
proof -
  have "set ms = set (head_members sh h)" if "distinct (map fst ms)" "map_of ms = hm sh h"
    using that map_of_eq_Some_iff [of ms] map_of_eq_Some_iff [of "head_members sh h"] by auto
  moreover have "map_of ms = hm sh h" if "distinct (map fst ms)" "set ms = set (head_members sh h)"
    using that by (simp add: map_of_inject_set)
  ultimately show ?thesis by auto
qed

text \<open>A member other than the header survives decoding and encoding.\<close>

lemma member_kept:
  assumes "codec_laws L" "small_head h" "hm sh h k = Some v" "k \<noteq> ''header''"
    and "cj_decode L v = Some x" "cj_encode L x = Some v'"
  shows "v' = v"
proof -
  have "(k, v) \<in> set (head_members sh h)" using assms(3) by (rule map_of_SomeD)
  then consider (s) s where "v = JStr s" | (b) b where "v = JBool b"
    | (n) n where "v = JNum (show_u64 n)" "small (unat n)"
    using assms(2,4) by (auto simp: head_members_def small_head_def split: if_splits option.splits)
  then show ?thesis
  proof cases
    case s
    then show ?thesis using assms(1,5,6) unfolding codec_laws_def by blast
  next
    case b
    then show ?thesis using assms(1,5,6) unfolding codec_laws_def by blast
  next
    case n
    then have "x = lua_nat L (unat n)" using assms(1,5) unfolding codec_laws_def by blast
    then show ?thesis using n assms(1,6) unfolding codec_laws_def by blast
  qed
qed

text \<open>The table of a decoded head.\<close>

definition head_table :: "'n lua_lib \<Rightarrow> (time \<Rightarrow> string) \<Rightarrow> head \<Rightarrow> (string \<times> 'n lua) list \<Rightarrow> bool" where
  "head_table L sh h t \<longleftrightarrow> distinct (map fst t) \<and> (\<forall>k. map_of t k = Option.bind (hm sh h k) (cj_decode L))
     \<and> (\<forall>k v. hm sh h k = Some v \<longrightarrow> cj_decode L v \<noteq> None)"

lemma decode_canonical:
  assumes "codec_laws L" "canonical sh v h" "cj_decode L v = Some x"
  obtains t where "x = LTable t" "head_table L sh h t"
  using assms(2)
proof (rule canonical_cases)
  fix ms assume v: "v = JObj ms" and ms: "distinct (map fst ms)" "set ms = set (head_members sh h)"
  then have eq: "map_of ms = hm sh h" using assms(2) canonical_iff by blast
  have "\<exists>t. x = LTable t \<and> distinct (map fst t) \<and> (\<forall>k. map_of t k = Option.bind (map_of ms k) (cj_decode L))
           \<and> (\<forall>k v. map_of ms k = Some v \<longrightarrow> cj_decode L v \<noteq> None)"
    using assms(1,3) v ms(1) unfolding codec_laws_def by blast
  then show thesis using that unfolding eq head_table_def by blast
qed

lemma head_table_index:
  assumes c: "codec_laws L" and t: "head_table L sh h t"
  shows "lua_index (LTable t) ''family'' = Some (LStr (Family h))"
    "lua_index (LTable t) ''commitment'' = Some (LStr (Commitment h))"
    "lua_index (LTable t) ''changed_at'' = Some (LStr (sh (ChangedAt h)))"
    "lua_index (LTable t) ''reorg_pending'' = Some (LBool (ReorgPending h))"
    "lua_index (LTable t) ''hash'' = Some (if Hash h = [] then LNil else LStr (Hash h))"
    "small (unat (Number h)) \<Longrightarrow> lua_index (LTable t) ''number'' = Some (lua_nat L (unat (Number h)))"
    "small (unat (Generation h)) \<Longrightarrow> lua_index (LTable t) ''generation'' = Some (lua_nat L (unat (Generation h)))"
    "small (unat (ReorgEpoch h)) \<Longrightarrow> lua_index (LTable t) ''reorg_epoch'' = Some (lua_nat L (unat (ReorgEpoch h)))"
proof -
  have member: "\<exists>x. map_of t k = Some x \<and> cj_decode L v = Some x" if "hm sh h k = Some v" for k v
  proof -
    have "map_of t k = Option.bind (hm sh h k) (cj_decode L)" using t unfolding head_table_def by blast
    moreover have "cj_decode L v \<noteq> None" using t that unfolding head_table_def by blast
    ultimately show ?thesis by (auto simp only: that Option.bind.simps)
  qed
  have str: "map_of t k = Some (LStr s)" if "hm sh h k = Some (JStr s)" for k s
    using member [OF that] c unfolding codec_laws_def by blast
  have bool: "map_of t k = Some (LBool b)" if "hm sh h k = Some (JBool b)" for k b
    using member [OF that] c unfolding codec_laws_def by blast
  have num: "map_of t k = Some (lua_nat L (unat n))" if "hm sh h k = Some (JNum (show_u64 n))" "small (unat n)" for k n
    using member [OF that(1)] that(2) c unfolding codec_laws_def by blast
  have none: "map_of t k = None" if "hm sh h k = None" for k
    using t that unfolding head_table_def by simp
  show "lua_index (LTable t) ''family'' = Some (LStr (Family h))"
    "lua_index (LTable t) ''commitment'' = Some (LStr (Commitment h))"
    "lua_index (LTable t) ''changed_at'' = Some (LStr (sh (ChangedAt h)))"
    "lua_index (LTable t) ''reorg_pending'' = Some (LBool (ReorgPending h))"
    by (simp_all add: str bool)
  show "lua_index (LTable t) ''hash'' = Some (if Hash h = [] then LNil else LStr (Hash h))"
    by (cases "Hash h = []") (simp_all add: str none)
  show "small (unat (Number h)) \<Longrightarrow> lua_index (LTable t) ''number'' = Some (lua_nat L (unat (Number h)))"
    "small (unat (Generation h)) \<Longrightarrow> lua_index (LTable t) ''generation'' = Some (lua_nat L (unat (Generation h)))"
    "small (unat (ReorgEpoch h)) \<Longrightarrow> lua_index (LTable t) ''reorg_epoch'' = Some (lua_nat L (unat (ReorgEpoch h)))"
    by (simp_all add: num)
qed

lemma lua_eq_simps [simp]:
  "lua_eq (LStr a) (LStr b) \<longleftrightarrow> a = b" "lua_eq (LNum x) (LNum y) \<longleftrightarrow> x = y" "lua_eq LNil (LStr b) \<longleftrightarrow> False"
  "lua_or (LNum x) y' = LNum x" "lua_or (LStr s) y' = LStr s"
  by (simp_all add: lua_or_def)

lemma lua_nat_inj:
  "codec_laws L \<Longrightarrow> small m \<Longrightarrow> small n \<Longrightarrow> lua_int L (int m) = lua_int L (int n) \<longleftrightarrow> m = n"
  unfolding codec_laws_def by blast

text \<open>The codec keeps a header when encoding what decoding gave gives it back; it does not keep empty
  arrays.\<close>

definition keeps_header :: "'n lua_lib \<Rightarrow> head \<Rightarrow> bool" where
  "keeps_header L h \<longleftrightarrow>
     (\<forall>a x b. Header h = Some a \<longrightarrow> cj_decode L a = Some x \<longrightarrow> cj_encode L x = Some b \<longrightarrow> b = a)"

text \<open>A text with the members of a head but for the header.\<close>

definition recoded :: "'n lua_lib \<Rightarrow> (time \<Rightarrow> string) \<Rightarrow> head \<Rightarrow> json \<Rightarrow> head \<Rightarrow> bool" where
  "recoded L sh h v h' \<longleftrightarrow> (\<exists>r. canonical sh v (h'\<lparr>Header := r\<rparr>) \<and> (keeps_header L h \<longrightarrow> r = Header h))"

text \<open>Encoding the table of a head with some members replaced gives the head with those fields replaced.\<close>

lemma encode_updated:
  assumes c: "codec_laws L" and small: "small_head h" and t: "head_table L sh h t"
    and t': "distinct (map fst t')" "map_of t' = map_of t ++ g"
    and enc: "cj_encode L (LTable t') = Some v"
    and new: "\<And>k x y. g k = Some x \<Longrightarrow> k \<noteq> ''header'' \<and> (cj_encode L x = Some y \<longrightarrow> hm sh h' k = Some y)"
    and old: "\<And>k. g k = None \<Longrightarrow> k \<noteq> ''header'' \<Longrightarrow> hm sh h' k = hm sh h k"
  shows "recoded L sh h v h'"
proof -
  have dec: "map_of t k = Option.bind (hm sh h k) (cj_decode L)"
    "hm sh h k = Some v \<Longrightarrow> cj_decode L v \<noteq> None" for k v
    using t unfolding head_table_def by blast+
  obtain ms where v: "v = JObj ms" and d: "distinct (map fst ms)"
    and ms: "\<And>k. map_of ms k = Option.bind (map_of t' k) (cj_encode L)"
    "\<And>k x. map_of t' k = Some x \<Longrightarrow> cj_encode L x \<noteq> None"
    using encode_table [OF c t'(1) enc] by blast
  have member: "map_of ms k = hm sh h' k" if False: "k \<noteq> ''header''" for k
  proof (cases "g k")
    case None
    show ?thesis
    proof (cases "hm sh h k")
      case None
      then show ?thesis using ms(1) [of k] t'(2) \<open>g k = None\<close> dec(1) [of k] old [OF \<open>g k = None\<close> False]
        by (simp add: map_add_def)
    next
      case (Some u)
      obtain x where x: "cj_decode L u = Some x" using dec(2) [OF Some] by blast
      then have tk: "map_of t' k = Some x" using t'(2) None dec(1) [of k] Some by (simp add: map_add_def)
      obtain y where y: "cj_encode L x = Some y" using ms(2) [OF tk] by blast
      have "y = u" using member_kept [OF c small Some False x y] .
      then show ?thesis using ms(1) [of k] tk y old [OF None False] Some by simp
    qed
  next
    case (Some x)
    then have tk: "map_of t' k = Some x" using t'(2) by (simp add: map_add_def)
    obtain y where "cj_encode L x = Some y" using ms(2) [OF tk] by blast
    then show ?thesis using ms(1) [of k] tk new [OF Some] by simp
  qed
  have "map_of ms = hm sh (h'\<lparr>Header := map_of ms ''header''\<rparr>)"
    by (rule ext) (simp add: hm_update member)
  then have canon: "canonical sh v (h'\<lparr>Header := map_of ms ''header''\<rparr>)" using v d canonical_iff by blast
  have g: "g ''header'' = None" using new by (cases "g ''header''") blast+
  have "map_of ms ''header'' = Header h" if kept: "keeps_header L h"
  proof (cases "Header h")
    case None
    then show ?thesis using ms(1) [of "''header''"] t'(2) dec(1) [of "''header''"] g by (simp add: map_add_def)
  next
    case (Some a)
    obtain x where x: "cj_decode L a = Some x" using dec(2) [of "''header''"] Some by auto
    then have tk: "map_of t' ''header'' = Some x" using t'(2) g dec(1) [of "''header''"] Some by (simp add: map_add_def)
    then obtain y where "cj_encode L x = Some y" using ms(2) by blast
    then show ?thesis using ms(1) [of "''header''"] tk Some x kept unfolding keeps_header_def by auto
  qed
  with canon show ?thesis unfolding recoded_def by blast
qed

lemma uint_small: "0 < n \<Longrightarrow> small (nat n) \<Longrightarrow> uint (word_of_int n :: u64) = n"
  by (simp add: small_def uint_word_of_int take_bit_eq_mod)

lemma unat_small: "0 < n \<Longrightarrow> small (nat n) \<Longrightarrow> unat (word_of_int n :: u64) = nat n"
  by (simp only: unat_eq_nat_uint uint_small)

lemma lua_word_inj:
  assumes "codec_laws L" "small (unat m)" "small (unat n)"
  shows "lua_int L (uint m) = lua_int L (uint n) \<longleftrightarrow> m = n"
  using lua_nat_inj [OF assms] by (auto dest: word_unat_eq_iff [THEN iffD2])

subsection \<open>The scripts on heads\<close>

text \<open>The text of a hash field stands for a head: there is none, or it is canonical.\<close>

definition text_of :: "(time \<Rightarrow> string) \<Rightarrow> raw option \<Rightarrow> head option \<Rightarrow> bool" where
  "text_of sh cur p \<longleftrightarrow>
     (case p of None \<Rightarrow> cur = None | Some h \<Rightarrow> \<exists>v. cur = Some (Some v) \<and> canonical sh v h \<and> small_head h)"

lemma text_of_simps [simp]:
  "text_of sh cur None \<longleftrightarrow> cur = None"
  "text_of sh cur (Some h) \<longleftrightarrow> (\<exists>v. cur = Some (Some v) \<and> canonical sh v h \<and> small_head h)"
  by (simp_all add: text_of_def)

lemma small_headD [dest]:
  "small_head h \<Longrightarrow> small (unat (Number h))" "small_head h \<Longrightarrow> small (unat (Generation h))"
  "small_head h \<Longrightarrow> small (unat (ReorgEpoch h))"
  by (simp_all add: small_head_def)

lemma small_0 [simp]: "small 0" by (simp add: small_def)

definition is_latest_evm :: "head \<Rightarrow> bool" where
  "is_latest_evm h \<longleftrightarrow> Family h = ''evm'' \<and> Commitment h = ''latest''"

definition fenced_off :: "head \<Rightarrow> head option \<Rightarrow> bool" where
  "fenced_off h p \<longleftrightarrow> is_latest_evm h \<and> (ReorgPending h \<or> ReorgEpoch h \<noteq> ReorgEpoch (or_zero p))"

definition same_block :: "head \<Rightarrow> head \<Rightarrow> bool" where
  "same_block h p \<longleftrightarrow> (if Hash h \<noteq> [] then Hash p = Hash h else Number p = Number h)"

lemma script_fenced_head:
  assumes c: "codec_laws L" and h: "head_table L sh h t" "small_head h" and p: "text_of sh cur p"
    and run: "script_fenced L (LTable t) cur = Some b"
  shows "b \<longleftrightarrow> fenced_off h p"
proof (cases "is_latest_evm h")
  case False
  then show ?thesis using run head_table_index(1,2) [OF c h(1)]
    by (auto simp: script_fenced_def fenced_off_def is_latest_evm_def)
next
  case True
  note idx = head_table_index [OF c h(1)]
  have epoch: "lua_eq (lua_nat L (unat (ReorgEpoch h))) (lua_nat L (unat n)) \<longleftrightarrow> ReorgEpoch h = n"
    if "small (unat n)" for n :: u64
    using lua_word_inj [OF c small_headD(3) [OF h(2)] that] by simp
  show ?thesis
  proof (cases p)
    case None
    have "b \<longleftrightarrow> ReorgPending h \<or> \<not> lua_eq (lua_nat L (unat (ReorgEpoch h))) (lua_nat L (unat (0 :: u64)))"
      using run p True idx small_headD(3) [OF h(2)] None
      by (simp add: script_fenced_def is_latest_evm_def del: lua_eq_simps lua_index.simps) auto
    then show ?thesis using epoch [of 0] True None by (simp add: fenced_off_def del: lua_eq_simps)
  next
    case (Some q)
    then obtain v where v: "cur = Some (Some v)" "canonical sh v q" "small_head q" using p by auto
    then have cur: "Option.bind cur (decode_text L) = cj_decode L v" by (simp add: decode_text_def)
    show ?thesis
    proof (cases "cj_decode L v")
      case None
      then show ?thesis using run v True idx
        by (simp add: script_fenced_def decode_text_def is_latest_evm_def del: lua_index.simps)
    next
      case (Some x)
      obtain u where u: "x = LTable u" "head_table L sh q u" by (rule decode_canonical [OF c v(2) Some])
      have "b \<longleftrightarrow> ReorgPending h \<or> \<not> lua_eq (lua_nat L (unat (ReorgEpoch h))) (lua_nat L (unat (ReorgEpoch q)))"
        using run v True idx small_headD(3) [OF h(2)] head_table_index(8) [OF c u(2)] small_headD(3) [OF v(3)] Some u(1)
        by (simp add: script_fenced_def decode_text_def is_latest_evm_def del: lua_eq_simps lua_index.simps) auto
      then show ?thesis using epoch [of "ReorgEpoch q"] v(3) True \<open>p = Some q\<close>
        by (auto simp: fenced_off_def simp del: lua_eq_simps)
    qed
  qed
qed

lemma script_current_head:
  assumes c: "codec_laws L" and h: "head_table L sh h t" "small_head h" and p: "text_of sh cur p"
    and run: "script_current L (LTable t) cur = Some same"
  shows "case same of
      None \<Rightarrow> \<forall>q. p = Some q \<longrightarrow> \<not> same_block h q
    | Some x \<Rightarrow> \<exists>q u. p = Some q \<and> same_block h q \<and> x = LTable u \<and> head_table L sh q u \<and> small_head q"
proof (cases p)
  case None
  then show ?thesis using run p by (auto simp: script_current_def)
next
  case (Some q)
  then obtain v where v: "cur = Some (Some v)" "canonical sh v q" "small_head q" using p by auto
  obtain x where x: "cj_decode L v = Some x"
    using run v(1) by (cases "cj_decode L v") (auto simp: script_current_def decode_text_def)
  obtain u where u: "x = LTable u" "head_table L sh q u" by (rule decode_canonical [OF c v(2) x])
  have "script_same (LTable t) x = Some (same_block h q)"
  proof (cases "Hash h = []")
    case True
    then show ?thesis
      using u head_table_index [OF c h(1)] head_table_index [OF c u(2)] small_headD [OF h(2)] small_headD [OF v(3)]
        lua_word_inj [OF c small_headD(1) [OF v(3)] small_headD(1) [OF h(2)]]
      by (simp add: script_same_def same_block_def del: lua_index.simps)
  next
    case False
    then show ?thesis
      using u head_table_index(5) [OF c h(1)] head_table_index(5) [OF c u(2)]
      by (simp add: script_same_def same_block_def del: lua_index.simps)
  qed
  then have "same = (if same_block h q then Some (LTable u) else None)"
    using run v(1) x u(1) by (simp add: script_current_def decode_text_def)
  then show ?thesis using Some u(2) v(3) by simp
qed

lemma codec_encode:
  assumes "codec_laws L"
  shows "cj_encode L (LStr s) = Some v \<Longrightarrow> v = JStr s" "cj_encode L (LBool b) = Some v \<Longrightarrow> v = JBool b"
    "small (unat n) \<Longrightarrow> cj_encode L (LNum (lua_int L (uint n))) = Some v \<Longrightarrow> v = JNum (show_u64 n)"
  using assms unfolding codec_laws_def uint_nat by blast+

lemma script_refresh_head:
  assumes c: "codec_laws L" and h: "head_table L sh h t" "small_head h" and q: "head_table L sh q u" "small_head q"
    and run: "script_refresh L (LTable t) (LTable u) = Some (g, v)"
  shows "g = lua_nat L (unat (Generation q)) \<and> recoded L sh h v (h\<lparr>Generation := Generation q, ChangedAt := ChangedAt q\<rparr>)"
proof -
  let ?g = "lua_nat L (unat (Generation q))" and ?c = "LStr (sh (ChangedAt q)) :: 'a lua"
  let ?t = "map_set ''changed_at'' ?c (map_set ''generation'' ?g t)"
  note idx = head_table_index [OF c q(1)]
  have g: "g = ?g" and enc: "cj_encode L (LTable ?t) = Some v"
    using run idx(3) idx(7) [OF small_headD(2) [OF q(2)]]
    by (auto simp: script_refresh_def simp del: lua_index.simps)
  have "recoded L sh h v (h\<lparr>Generation := Generation q, ChangedAt := ChangedAt q\<rparr>)"
  proof (rule encode_updated [OF c h(2,1) _ _ enc, of "Map.empty(''generation'' \<mapsto> ?g, ''changed_at'' \<mapsto> ?c)"])
    show "distinct (map fst ?t)" using h(1) by (simp add: head_table_def)
    show "map_of ?t = map_of t ++ Map.empty(''generation'' \<mapsto> ?g, ''changed_at'' \<mapsto> ?c)" by simp
    fix k x y assume "(Map.empty(''generation'' \<mapsto> ?g, ''changed_at'' \<mapsto> ?c)) k = Some x"
    then show "k \<noteq> ''header'' \<and> (cj_encode L x = Some y \<longrightarrow>
        hm sh (h\<lparr>Generation := Generation q, ChangedAt := ChangedAt q\<rparr>) k = Some y)"
      using small_headD(2) [OF q(2)]
      by (auto simp: hm_update dest: codec_encode [OF c] split: if_splits simp del: map_of_eq_Some_iff)
  qed (simp_all add: hm_update split: if_splits)
  with g show ?thesis by simp
qed

lemma encode_generation:
  assumes c: "codec_laws L" and h: "head_table L sh h t" "small_head h" and n: "0 < n" "small (nat n)"
    and run: "cj_encode L (LTable (map_set ''generation'' (LNum (lua_int L n)) t)) = Some v"
  shows "recoded L sh h v (h\<lparr>Generation := word_of_int n\<rparr>)"
proof -
  let ?g = "LNum (lua_int L n)"
  have w: "uint (word_of_int n :: u64) = n" using n by (rule uint_small)
  then have w': "small (unat (word_of_int n :: u64))" using n by (simp add: unat_eq_nat_uint)
  show ?thesis
  proof (rule encode_updated [OF c h(2,1) _ _ run, of "Map.empty(''generation'' \<mapsto> ?g)"])
    show "distinct (map fst (map_set ''generation'' ?g t))" using h(1) by (simp add: head_table_def)
    fix k x y assume "(Map.empty(''generation'' \<mapsto> ?g)) k = Some x"
    then show "k \<noteq> ''header'' \<and> (cj_encode L x = Some y \<longrightarrow> hm sh (h\<lparr>Generation := word_of_int n\<rparr>) k = Some y)"
      using codec_encode(3) [OF c w', unfolded w]
      by (auto simp: hm_update split: if_splits simp del: map_of_eq_Some_iff)
  qed (simp_all add: hm_update split: if_splits)
qed

lemma script_raise_head:
  assumes c: "codec_laws L" and q: "head_table L sh q u" "small_head q" "small (unat (ReorgEpoch q) + 1)"
    and run: "script_raise L (LTable u) = Some v"
  shows "recoded L sh q v (q\<lparr>ReorgEpoch := ReorgEpoch q + 1, ReorgPending := True\<rparr>)"
proof -
  let ?e = "LNum (lua_int L (uint (ReorgEpoch q + 1)))" and ?p = "LBool True :: 'a lua"
  let ?t = "map_set ''reorg_pending'' ?p (map_set ''reorg_epoch'' ?e u)"
  have w: "unat (ReorgEpoch q + 1) = unat (ReorgEpoch q) + 1"
    using q(3) by (intro unat_Suc_u64) (simp add: small_def max_uint64_def)
  then have w': "uint (ReorgEpoch q + 1) = uint (ReorgEpoch q) + 1" unfolding uint_nat by simp
  have plus: "lua_plus L (lua_int L (uint (ReorgEpoch q))) (lua_int L 1) = lua_int L (uint (ReorgEpoch q + 1))"
    unfolding w' using c small_headD(3) [OF q(2)] unfolding codec_laws_def uint_nat by blast
  have enc: "cj_encode L (LTable ?t) = Some v"
    using run head_table_index(8) [OF c q(1) small_headD(3) [OF q(2)]] plus
    by (auto simp: script_raise_def simp del: lua_index.simps)
  show ?thesis
  proof (rule encode_updated [OF c q(2,1) _ _ enc, of "Map.empty(''reorg_epoch'' \<mapsto> ?e, ''reorg_pending'' \<mapsto> ?p)"])
    show "distinct (map fst ?t)" using q(1) by (simp add: head_table_def)
    show "map_of ?t = map_of u ++ Map.empty(''reorg_epoch'' \<mapsto> ?e, ''reorg_pending'' \<mapsto> ?p)" by simp
    fix k x y assume "(Map.empty(''reorg_epoch'' \<mapsto> ?e, ''reorg_pending'' \<mapsto> ?p)) k = Some x"
    then show "k \<noteq> ''header'' \<and> (cj_encode L x = Some y \<longrightarrow>
        hm sh (q\<lparr>ReorgEpoch := ReorgEpoch q + 1, ReorgPending := True\<rparr>) k = Some y)"
      using codec_encode(3) [OF c, of "ReorgEpoch q + 1"] codec_encode(2) [OF c] q(3) w
      by (auto simp: hm_update split: if_splits simp del: map_of_eq_Some_iff)
  qed (simp_all add: hm_update split: if_splits)
qed

subsection \<open>Executions\<close>

lemma then_cmdE:
  assumes "then_cmd c f w = (r, w')"
  obtains e where "c w = (Inl e, w')" "r = Inl e" | x w1 where "c w = (Inr x, w1)" "f x w1 = (r, w')"
  using assms by (auto simp: then_cmd_def split: prod.splits sum.splits)

lemma lua_cmdE:
  assumes "then_cmd (lua_cmd o') f w = (r, w')"
  obtains e where "o' = None" "w' = w" "r = Inl e" | x where "o' = Some x" "f x w = (r, w')"
  using assms by (cases o') (auto simp: then_cmd_def lua_cmd_def)

lemma hash_laws_kept:
  assumes "hash_laws R stored" "k \<noteq> k'"
  shows "EXISTS R k w = (x1, w') \<Longrightarrow> stored w' k' = stored w k'"
    "GET R k w = (x2, w') \<Longrightarrow> stored w' k' = stored w k'" "INCR R k w = (x3, w') \<Longrightarrow> stored w' k' = stored w k'"
    "PSETEX R k ttl s w = (x4, w') \<Longrightarrow> stored w' k' = stored w k'"
    "PEXPIRE R k ttl w = (x5, w') \<Longrightarrow> stored w' k' = stored w k'"
    "DEL R k w = (x6, w') \<Longrightarrow> stored w' k' = stored w k'"
    "XADD R k n v w = (x7, w') \<Longrightarrow> stored w' k' = stored w k'"
  using assms unfolding hash_laws_def keeps_others_def by (metis snd_conv)+

lemma hash_laws_hash:
  assumes "hash_laws R stored"
  shows "HGET R k f w = (x, w') \<Longrightarrow> stored w' = stored w"
    "HGET R k f w = (Inr r, w') \<Longrightarrow> r = stored w k f"
    "HSET R k f v w = (Inl e, w') \<Longrightarrow> stored w' = stored w"
    "HSET R k f v w = (Inr u, w') \<Longrightarrow> stored w' = (stored w)(k := (stored w k)(f \<mapsto> Some v))"
  using assms unfolding hash_laws_def by (metis snd_conv)+

lemma publish_fresh_cases:
  assumes laws: "codec_laws L" "hash_laws R stored" "counter_laws R"
    and h: "head_table L sh h t" "small_head h" and keys: "heads \<notin> {generations, events}"
    and run: "publish_fresh L R heads generations events n (LTable t) (Commitment h) w = (r, w')"
  obtains e where "r = Inl e" "stored w' heads = stored w heads"
  | g w1 v where "INCR R generations w = (Inr g, w1)" "0 < g" "small (nat g)"
    "recoded L sh h v (h\<lparr>Generation := word_of_int g\<rparr>)"
    "r = Inr [RInt g, RText (Some v)] \<or> (\<exists>e. r = Inl e)"
    "stored w' heads = (stored w heads)(Commitment h \<mapsto> Some v)"
    "\<exists>w2 u. HSET R heads (Commitment h) v w1 = (Inr u, w2) \<and>
       (if is_latest_evm h then w' = snd (XADD R events n v w2) else w' = w2)"
  using run unfolding publish_fresh_def
proof (cases rule: then_cmdE [consumes 1, case_names incr_failed incr])
  case (incr_failed e)
  then show thesis using that(1) [OF incr_failed(2)] hash_laws_kept(3) [OF laws(2) _ incr_failed(1)] keys by auto
next
  case (incr g w1)
  have k1: "stored w1 heads = stored w heads" using hash_laws_kept(3) [OF laws(2) _ incr(1)] keys by auto
  have g: "0 < g" "small (nat g)" using laws(3) incr(1) unfolding counter_laws_def by blast+
  from incr(2) show thesis
  proof (cases rule: lua_cmdE [consumes 1, case_names raised encoded])
    case (raised e)
    then show thesis using that(1) [OF raised(3)] k1 by simp
  next
    case (encoded v)
    then have v: "recoded L sh h v (h\<lparr>Generation := word_of_int g\<rparr>)"
      by (intro encode_generation [OF laws(1) h g]) simp
    from encoded(2) show thesis
    proof (cases rule: then_cmdE [consumes 1, case_names hset_failed hset])
      case (hset_failed e)
      then show thesis using that(1) [OF hset_failed(2)] k1 hash_laws_hash(3) [OF laws(2) hset_failed(1)] by simp
    next
      case (hset u w2)
      have k2: "stored w2 heads = (stored w heads)(Commitment h \<mapsto> Some v)"
        using hash_laws_hash(4) [OF laws(2) hset(1)] k1 by simp
      note idx = head_table_index(1,2) [OF laws(1) h(1)]
      from hset(2) have rest: "then_cmd (if is_latest_evm h then XADD R events n v else return_cmd ())
          (\<lambda>_. return_cmd [RInt g, RText (Some v)]) w2 = (r, w')"
        by (simp add: idx lua_cmd_def then_cmd_def [of "lua_cmd _"] is_latest_evm_def del: lua_index.simps)
      from rest have "r = Inr [RInt g, RText (Some v)] \<or> (\<exists>e. r = Inl e)"
        by (rule then_cmdE) (auto simp: return_cmd_def)
      moreover have w': "if is_latest_evm h then w' = snd (XADD R events n v w2) else w' = w2"
        using rest by (auto simp: then_cmd_def return_cmd_def split: if_splits prod.splits sum.splits)
      moreover have "stored w' heads = stored w2 heads"
        using w' hash_laws_kept(7) [OF laws(2), of events heads n v w2] keys
        by (cases "XADD R events n v w2") (auto split: if_splits)
      ultimately show thesis using that(2) [OF incr(1) g v] k2 hset(1) by auto
    qed
  qed
qed

lemma publish_refresh_cases:
  assumes laws: "codec_laws L" "hash_laws R stored" and h: "head_table L sh h t" "small_head h"
    and q: "head_table L sh q u" "small_head q"
    and run: "publish_refresh L R heads (LTable t) (Commitment h) (LTable u) w = (r, w')"
  obtains e where "r = Inl e" "stored w' = stored w"
  | v x where "recoded L sh h v (h\<lparr>Generation := Generation q, ChangedAt := ChangedAt q\<rparr>)"
    "r = Inr [RInt (lua_trunc L (lua_int L (uint (Generation q)))), RText (Some v)]"
    "HSET R heads (Commitment h) v w = (Inr x, w')"
  using run unfolding publish_refresh_def
proof (cases rule: lua_cmdE [consumes 1, case_names refresh_error refresh])
  case (refresh_error e)
  then show thesis using that(1) by simp
next
  case (refresh gv)
  obtain g v where gv: "gv = (g, v)" by (cases gv)
  have g: "g = LNum (lua_int L (uint (Generation q)))"
    and v: "recoded L sh h v (h\<lparr>Generation := Generation q, ChangedAt := ChangedAt q\<rparr>)"
    using script_refresh_head [OF laws(1) h q] refresh(1) gv by simp_all
  from refresh(2) gv have "then_cmd (HSET R heads (Commitment h) v)
     (\<lambda>_. return_cmd (reply_pair L g (Some v))) w = (r, w')" by simp
  then show thesis
  proof (cases rule: then_cmdE [consumes 1, case_names hset_failed hset])
    case (hset_failed e)
    then show thesis using that(1) [OF hset_failed(2)] hash_laws_hash(3) [OF laws(2) hset_failed(1)] by simp
  next
    case (hset x w3)
    then show thesis using that(2) [OF v] g by (auto simp: return_cmd_def reply_pair_def)
  qed
qed

text \<open>What an execution of the publish script does once it holds the lease and has decoded the head: it
  fails, refuses, refreshes the current head, or stores the head under a new generation.\<close>

definition stores_fresh :: "'n lua_lib \<Rightarrow> 'w redis \<Rightarrow> (time \<Rightarrow> string) \<Rightarrow> string \<Rightarrow> string \<Rightarrow> string \<Rightarrow> int \<Rightarrow> head
    \<Rightarrow> 'w \<Rightarrow> redis_error + redis_reply list \<Rightarrow> 'w \<Rightarrow> json \<Rightarrow> bool" where
  "stores_fresh L R sh heads generations events n h w r w' v \<longleftrightarrow>
     (\<exists>g w1 w2 u. INCR R generations w = (Inr g, w1) \<and> 0 < g \<and> small (nat g)
       \<and> recoded L sh h v (h\<lparr>Generation := word_of_int g\<rparr>)
       \<and> (r = Inr [RInt g, RText (Some v)] \<or> (\<exists>e. r = Inl e))
       \<and> HSET R heads (Commitment h) v w1 = (Inr u, w2)
       \<and> (if is_latest_evm h then w' = snd (XADD R events n v w2) else w' = w2))"

lemma publish_incoming_cases:
  assumes laws: "codec_laws L" "hash_laws R stored" "counter_laws R"
    and h: "head_table L sh h t" "small_head h" and keys: "heads \<notin> {generations, events}"
    and cur: "text_of sh (stored w heads (Commitment h)) p"
    and run: "publish_incoming L R heads generations events n (LTable t) (Commitment h) w = (r, w')"
  obtains (failed) e where "r = Inl e" "stored w' heads = stored w heads"
  | (fenced) "fenced_off h p" "r = Inr [RInt (- 2), RBulk []]" "w' = snd (HGET R heads (Commitment h) w)"
      "stored w' heads = stored w heads"
  | (same) q v x where "\<not> fenced_off h p" "p = Some q" "same_block h q"
      "recoded L sh h v (h\<lparr>Generation := Generation q, ChangedAt := ChangedAt q\<rparr>)"
      "r = Inr [RInt (lua_trunc L (lua_int L (uint (Generation q)))), RText (Some v)]"
      "HSET R heads (Commitment h) v (snd (HGET R heads (Commitment h) w)) = (Inr x, w')"
      "stored w' heads = (stored w heads)(Commitment h \<mapsto> Some v)"
  | (fresh) v where "\<not> fenced_off h p" "\<forall>q. p = Some q \<longrightarrow> \<not> same_block h q"
      "stores_fresh L R sh heads generations events n h (snd (HGET R heads (Commitment h) w)) r w' v"
      "stored w' heads = (stored w heads)(Commitment h \<mapsto> Some v)"
  using run unfolding publish_incoming_def
proof (cases rule: then_cmdE [consumes 1, case_names hget_failed hget])
  case (hget_failed e)
  then show thesis using failed [OF hget_failed(2)] hash_laws_hash(1) [OF laws(2) hget_failed(1)] by simp
next
  case (hget currentRaw w2)
  have w2: "snd (HGET R heads (Commitment h) w) = w2" using hget(1) by simp
  have k2: "stored w2 = stored w" by (rule hash_laws_hash(1) [OF laws(2) hget(1)])
  have raw: "text_of sh currentRaw p" using hash_laws_hash(2) [OF laws(2) hget(1)] cur by simp
  from hget(2) show thesis
  proof (cases rule: lua_cmdE [consumes 1, case_names fence_error fence])
    case (fence_error e)
    then show thesis using failed [OF fence_error(3)] k2 by simp
  next
    case (fence off)
    have off: "off \<longleftrightarrow> fenced_off h p" by (rule script_fenced_head [OF laws(1) h raw fence(1)])
    show thesis
    proof (cases off)
      case True
      then show thesis using fence(2) off fenced w2 k2 by (simp add: return_cmd_def)
    next
      case open': False
      with fence(2) have "then_cmd (lua_cmd (script_current L (LTable t) currentRaw)) (\<lambda>same.
         case same of
           Some current \<Rightarrow> publish_refresh L R heads (LTable t) (Commitment h) current
         | None \<Rightarrow> publish_fresh L R heads generations events n (LTable t) (Commitment h)) w2 = (r, w')"
        by simp
      then show thesis
      proof (cases rule: lua_cmdE [consumes 1, case_names current_error current])
        case (current_error e)
        then show thesis using failed [OF current_error(3)] k2 by simp
      next
        case (current block)
        note found = script_current_head [OF laws(1) h raw current(1)]
        show thesis
        proof (cases block)
          case None
          with current(2) have "publish_fresh L R heads generations events n (LTable t) (Commitment h) w2 = (r, w')"
            by simp
          then show thesis
          proof (cases rule: publish_fresh_cases [OF laws h keys, consumes 1, case_names err ok])
            case (err e)
            then show thesis using failed k2 by simp
          next
            case (ok g w1 v)
            then have "stores_fresh L R sh heads generations events n h w2 r w' v" unfolding stores_fresh_def by blast
            then show thesis using fresh [of v] ok(6) off open' found None k2 w2 by simp
          qed
        next
          case (Some y)
          then obtain q u where q: "p = Some q" "same_block h q" "y = LTable u" "head_table L sh q u" "small_head q"
            using found by auto
          with current(2) Some
          have "publish_refresh L R heads (LTable t) (Commitment h) (LTable u) w2 = (r, w')" by simp
          then show thesis
          proof (cases rule: publish_refresh_cases [OF laws(1,2) h q(4,5), consumes 1, case_names err ok])
            case (err e)
            then show thesis using failed k2 by simp
          next
            case (ok v x)
            then show thesis
              using same [OF _ q(1,2) ok(1,2)] off open' hash_laws_hash(4) [OF laws(2) ok(3)] k2 w2 by simp
          qed
        qed
      qed
    qed
  qed
qed

lemma publish_script_cases:
  assumes laws: "codec_laws L" "hash_laws R stored" and keys: "heads \<noteq> leader"
    and run: "publish_script L R leader heads generations events tok (marshal_head sh h) n w = (r, w')"
  obtains (failed) e where "r = Inl e" "stored w' heads = stored w heads"
  | (lost) held where "GET R leader w = (Inr held, w')" "held \<noteq> Some tok" "r = Inr [RInt (- 1), RBulk []]"
      "stored w' heads = stored w heads"
  | (held) w1 t where "GET R leader w = (Inr (Some tok), w1)" "stored w1 heads = stored w heads"
      "head_table L sh h t"
      "publish_incoming L R heads generations events n (LTable t) (Commitment h) w1 = (r, w')"
  using run unfolding publish_script_def
proof (cases rule: then_cmdE [consumes 1, case_names get_failed get])
  case (get_failed e)
  then show thesis using failed [OF get_failed(2)] hash_laws_kept(2) [OF laws(2) _ get_failed(1)] keys by simp
next
  case (get got w1)
  have k1: "stored w1 heads = stored w heads" using hash_laws_kept(2) [OF laws(2) _ get(1)] keys by simp
  show thesis
  proof (cases "got = Some tok")
    case False
    then show thesis using get k1 lost by (simp add: return_cmd_def)
  next
    case True
    with get(2) have "then_cmd (lua_cmd (cj_decode L (marshal_head sh h))) (\<lambda>incoming.
       then_cmd (lua_cmd (Option.bind (lua_index incoming ''commitment'') (lua_argument L))) (\<lambda>commitment.
         publish_incoming L R heads generations events n incoming commitment)) w1 = (r, w')"
      by simp
    then show thesis
    proof (cases rule: lua_cmdE [consumes 1, case_names undecoded decoded])
      case (undecoded e)
      then show thesis using failed [OF undecoded(3)] k1 by simp
    next
      case (decoded x)
      obtain t where t: "x = LTable t" "head_table L sh h t"
        using decode_canonical [OF laws(1) canonical_marshal decoded(1)] by blast
      from decoded(2) show thesis
      proof (cases rule: lua_cmdE [consumes 1, case_names no_name name])
        case (no_name e)
        then show thesis using failed [OF no_name(3)] k1 by simp
      next
        case (name c)
        then have "c = Commitment h"
          using head_table_index(2) [OF laws(1) t(2)] t(1) by (simp del: lua_index.simps)
        then show thesis using name(2) held get(1) True k1 t by simp
      qed
    qed
  qed
qed

lemma reorg_decoded_cases:
  assumes laws: "codec_laws L" "hash_laws R stored"
    and q: "head_table L sh q u" "small_head q" and room: "small (unat (ReorgEpoch q) + 1)"
    and run: "reorg_decoded L R heads str (LTable u) w = (r, w')"
  obtains (failed) e where "r = Inl e" "stored w' = stored w"
  | (none) "Family q \<noteq> ''evm''" "r = Inr [RInt (- 2), RBulk []]" "w' = w"
  | (raise) v x where "Family q = ''evm''" "\<not> ReorgPending q"
      "recoded L sh q v (q\<lparr>ReorgEpoch := ReorgEpoch q + 1, ReorgPending := True\<rparr>)" "r = Inr [RInt 1, RText (Some v)]"
      "HSET R heads ''latest'' v w = (Inr x, w')"
  | (pending) "Family q = ''evm''" "ReorgPending q" "r = Inr [RInt 1, RText str]" "w' = w"
proof -
  note idx = head_table_index(1,4) [OF laws(1) q(1)]
  consider "Family q \<noteq> ''evm''" | "Family q = ''evm''" "ReorgPending q" | "Family q = ''evm''" "\<not> ReorgPending q" by blast
  then show thesis
  proof cases
    case 1
    then show thesis using run idx none
      by (simp add: reorg_decoded_def cmd_defs del: lua_index.simps)
  next
    case 2
    then show thesis using run idx pending
      by (simp add: reorg_decoded_def cmd_defs del: lua_index.simps)
  next
    case 3
    then have "then_cmd (lua_cmd (script_raise L (LTable u))) (\<lambda>raised.
        then_cmd (HSET R heads ''latest'' raised) (\<lambda>_. return_cmd [RInt 1, RText (Some raised)])) w = (r, w')"
      using run idx by (simp add: reorg_decoded_def then_cmd_def [of "lua_cmd (Some _)"] lua_cmd_def [of "Some _"]
          del: lua_index.simps)
    then show thesis
    proof (cases rule: lua_cmdE [consumes 1, case_names err raised])
      case (err e)
      then show thesis using failed by simp
    next
      case (raised v)
      from raised(2) show thesis
      proof (cases rule: then_cmdE [consumes 1, case_names err ok])
        case (err e)
        then show thesis using failed [OF err(2)] hash_laws_hash(3) [OF laws(2) err(1)] by simp
      next
        case (ok x w1)
        then show thesis using raise [OF 3 script_raise_head [OF laws(1) q room raised(1)]]
          by (simp add: return_cmd_def)
      qed
    qed
  qed
qed

lemma reorg_script_cases:
  assumes laws: "codec_laws L" "hash_laws R stored" and keys: "heads \<noteq> leader"
    and cur: "text_of sh (stored w heads ''latest'') p"
    and run: "reorg_script L R leader heads tok w = (r, w')"
  obtains (failed) e where "r = Inl e" "stored w' heads = stored w heads"
  | (lost) held where "GET R leader w = (Inr held, w')" "held \<noteq> Some tok" "r = Inr [RInt (- 1), RBulk []]"
      "stored w' heads = stored w heads"
  | (none) w1 where "GET R leader w = (Inr (Some tok), w1)" "p = None"
      "r = Inr [RInt (- 2), RBulk []]" "w' = snd (HGET R heads ''latest'' w1)" "stored w' heads = stored w heads"
  | (held) w1 q v u where "GET R leader w = (Inr (Some tok), w1)" "p = Some q" "canonical sh v q" "small_head q"
      "head_table L sh q u" "stored (snd (HGET R heads ''latest'' w1)) heads = stored w heads"
      "reorg_decoded L R heads (Some v) (LTable u) (snd (HGET R heads ''latest'' w1)) = (r, w')"
  using run unfolding reorg_script_def
proof (cases rule: then_cmdE [consumes 1, case_names get_failed get])
  case (get_failed e)
  then show thesis using failed [OF get_failed(2)] hash_laws_kept(2) [OF laws(2) _ get_failed(1)] keys by simp
next
  case (get got w1)
  have k1: "stored w1 heads = stored w heads" using hash_laws_kept(2) [OF laws(2) _ get(1)] keys by simp
  show thesis
  proof (cases "got = Some tok")
    case False
    then show thesis using get k1 lost by (simp add: return_cmd_def)
  next
    case leads: True
    with get(2) have "then_cmd (HGET R heads ''latest'') (\<lambda>found.
       case found of
         None \<Rightarrow> return_cmd [RInt (- 2), RBulk []]
       | Some str \<Rightarrow> then_cmd (lua_cmd (decode_text L str)) (reorg_decoded L R heads str)) w1 = (r, w')" by simp
    then show thesis
    proof (cases rule: then_cmdE [consumes 1, case_names hget_failed hget])
      case (hget_failed e)
      then show thesis using failed [OF hget_failed(2)] hash_laws_hash(1) [OF laws(2) hget_failed(1)] k1 by simp
    next
      case (hget raw w2)
      have raw: "raw = stored w heads ''latest''" and k2: "stored w2 heads = stored w heads"
        using hash_laws_hash(1,2) [OF laws(2)] hget(1) k1 by metis+
      have w2: "snd (HGET R heads ''latest'' w1) = w2" using hget(1) by simp
      show thesis
      proof (cases p)
        case None
        then show thesis using hget(2) raw cur none [OF get(1) [unfolded leads] None] w2 k2 by (simp add: return_cmd_def)
      next
        case (Some q)
        then obtain v where v: "raw = Some (Some v)" "canonical sh v q" "small_head q" using cur raw by auto
        with hget(2) have "then_cmd (lua_cmd (cj_decode L v)) (reorg_decoded L R heads (Some v)) w2 = (r, w')"
          by (simp add: decode_text_def)
        then show thesis
        proof (cases rule: lua_cmdE [consumes 1, case_names err ok])
          case (err e)
          then show thesis using failed [OF err(3)] k2 by simp
        next
          case (ok y)
          obtain u where u: "y = LTable u" "head_table L sh q u" by (rule decode_canonical [OF laws(1) v(2) ok(1)])
          then show thesis using held [OF get(1) [unfolded leads] Some v(2,3) u(2)] ok(2) k2 w2 by simp
        qed
      qed
    qed
  qed
qed

subsection \<open>What a script preserves\<close>

definition preserves :: "('w \<Rightarrow> bool) \<Rightarrow> ('w, 'a) cmd \<Rightarrow> bool" where
  "preserves P c \<longleftrightarrow> (\<forall>w. P w \<longrightarrow> P (snd (c w)))"

lemma preservesD: "preserves P c \<Longrightarrow> c w = (x, w') \<Longrightarrow> P w \<Longrightarrow> P w'"
  unfolding preserves_def by (metis snd_conv)

lemma preserves_then [intro]: "preserves P c \<Longrightarrow> (\<And>x. preserves P (f x)) \<Longrightarrow> preserves P (then_cmd c f)"
  unfolding preserves_def then_cmd_def by (fastforce split: prod.splits sum.splits)

lemma preserves_pure [intro]: "preserves P (return_cmd x)" "preserves P (lua_cmd y)"
  unfolding preserves_def return_cmd_def lua_cmd_def by (auto split: option.splits)

lemma preserves_branch [intro]:
  "preserves P c \<Longrightarrow> preserves P d \<Longrightarrow> preserves P (if b then c else d)"
  "preserves P c \<Longrightarrow> (\<And>x. preserves P (f x)) \<Longrightarrow> preserves P (case o' of None \<Rightarrow> c | Some x \<Rightarrow> f x)"
  "(\<And>x y. preserves P (g x y)) \<Longrightarrow> preserves P (case z of (x, y) \<Rightarrow> g x y)"
  by (simp_all split: option.splits prod.splits)

lemmas preserves_intros = preserves_then preserves_pure preserves_branch

lemma preserves_lua_then: "(\<And>x. y = Some x \<Longrightarrow> preserves P (f x)) \<Longrightarrow> preserves P (then_cmd (lua_cmd y) f)"
  unfolding preserves_def then_cmd_def lua_cmd_def by (auto split: option.splits)

text \<open>The script writes one field, the commitment of the head it was given.\<close>

lemma publish_script_preserves:
  assumes get: "preserves P (GET R leader)" and hget: "\<And>f. preserves P (HGET R heads f)"
    and hset: "\<And>x f v. cj_decode L arg = Some x \<Longrightarrow> Option.bind (lua_index x ''commitment'') (lua_argument L) = Some f \<Longrightarrow>
      preserves P (HSET R heads f v)"
    and incr: "preserves P (INCR R generations)" and xadd: "\<And>v. preserves P (XADD R events n v)"
  shows "preserves P (publish_script L R leader heads generations events tok arg n)"
proof -
  have "preserves P (publish_incoming L R heads generations events n x f)"
    if "\<And>v. preserves P (HSET R heads f v)" for x f
    unfolding publish_incoming_def publish_fresh_def publish_refresh_def
    by (intro preserves_intros that hget incr xadd)
  then show ?thesis
    unfolding publish_script_def using hset
    by (intro preserves_branch preserves_then [OF get] preserves_pure preserves_lua_then) blast
qed

lemma reorg_script_preserves:
  assumes "preserves P (GET R leader)" "\<And>f. preserves P (HGET R heads f)" "\<And>f v. preserves P (HSET R heads f v)"
  shows "preserves P (reorg_script L R leader heads tok)"
  unfolding reorg_script_def reorg_decoded_def by (intro preserves_intros assms)

lemma lease_scripts_preserve:
  assumes "preserves P (EXISTS R leader)" "preserves P (INCR R fence)" "\<And>ttl s. preserves P (PSETEX R leader ttl s)"
    and "preserves P (GET R leader)" "\<And>ttl. preserves P (PEXPIRE R leader ttl)" "preserves P (DEL R leader)"
  shows "preserves P (acquire_script L R leader fence owner ttl)" "preserves P (renew_script R leader tok ttl)"
    "preserves P (release_script R leader tok)"
  unfolding acquire_script_def renew_script_def release_script_def Let_def by (intro preserves_intros assms)+

subsection \<open>The scripts as a fenced store\<close>

text \<open>One execution of a script on the server, at an instant the server's clock has reached
  (\<open>clock\<close>, which may expire leases). A command sent again is one more execution.\<close>

fun redis_exec :: "'n lua_lib \<Rightarrow> 'w redis \<Rightarrow> redis_store \<Rightarrow> (time \<Rightarrow> string) \<Rightarrow> store_op \<Rightarrow> 'w \<Rightarrow> 'w" where
  "redis_exec L R r sh (OpAcquire chain owner ttl) w =
     snd (acquire_script L R (redis_key r chain ''leader'') (redis_key r chain ''fence'') owner (go_quot ttl Millisecond) w)"
| "redis_exec L R r sh (OpRenew chain tok ttl) w =
     snd (renew_script R (redis_key r chain ''leader'') tok (go_quot ttl Millisecond) w)"
| "redis_exec L R r sh (OpRelease chain tok) w = snd (release_script R (redis_key r chain ''leader'') tok w)"
| "redis_exec L R r sh (OpPublish tok h) w = snd (publish_of L R r sh tok h w)"
| "redis_exec L R r sh (OpBeginReorg chain tok) w = snd (reorg_of L R r chain tok w)"

definition redis_step :: "'n lua_lib \<Rightarrow> 'w redis \<Rightarrow> redis_store \<Rightarrow> (time \<Rightarrow> string) \<Rightarrow> (time \<Rightarrow> 'w \<Rightarrow> 'w)
    \<Rightarrow> time \<Rightarrow> store_op \<Rightarrow> 'w \<Rightarrow> 'w" where
  "redis_step L R r sh clock t op w = redis_exec L R r sh op (clock t w)"

definition text_head :: "(time \<Rightarrow> string) \<Rightarrow> (string \<Rightarrow> time option) \<Rightarrow> raw option \<Rightarrow> head option" where
  "text_head sh rt cur =
     Option.bind cur (\<lambda>str. Option.bind str (\<lambda>v. Option.bind (unmarshal_head rt v) (\<lambda>h.
       if canonical sh v h \<and> small_head h then Some h else None)))"

definition redis_accepted :: "redis_store \<Rightarrow> (time \<Rightarrow> string) \<Rightarrow> (string \<Rightarrow> time option)
    \<Rightarrow> ('w \<Rightarrow> string \<Rightarrow> string \<Rightarrow> raw option) \<Rightarrow> 'w \<Rightarrow> string \<Rightarrow> head option" where
  "redis_accepted r sh rt stored w c = text_head sh rt (stored w (redis_key r c ''heads'') ''latest'')"

fun redis_op :: "string \<Rightarrow> store_op \<Rightarrow> bool" where
  "redis_op c (OpPublish tok h) = (evm_op c (OpPublish tok h) \<and> small_head h)"
| "redis_op c op = True"

lemma text_head_iff:
  assumes "\<And>t. rt (sh t) = Some t"
  shows "text_head sh rt cur = Some h \<longleftrightarrow> text_of sh cur (Some h)"
  using unmarshal_head_canonical [of rt sh] assms
  by (auto simp: text_head_def Option.bind_eq_Some_conv split: if_splits)

lemma redis_key_inject [simp]:
  "redis_key r c ''heads'' = redis_key r c' ''heads'' \<longleftrightarrow> c = c'"
  "redis_key r c ''leader'' \<noteq> redis_key r c' ''heads''" "redis_key r c ''fence'' \<noteq> redis_key r c' ''heads''"
  "redis_key r c ''generation'' \<noteq> redis_key r c' ''heads''" "redis_key r c ''heads'' \<noteq> redis_key r c' ''leader''"
  "redis_key r c ''heads'' \<noteq> redis_key r c' ''generation''" "redis_key r c ''heads'' \<noteq> redis_key r c' ''fence''"
  by (auto simp: redis_key_def dest: arg_cong [of _ _ last])

lemma redis_key_events [simp]:
  "redis_key r c ''events'' \<noteq> redis_key r c' ''heads''" "redis_key r c ''heads'' \<noteq> redis_key r c' ''events''"
  by (auto simp: redis_key_def dest: arg_cong [of _ _ "\<lambda>s. drop (length s - 2) s"])

lemma hash_laws_preserve:
  fixes Q :: "(string \<Rightarrow> raw option) \<Rightarrow> bool"
  assumes "hash_laws R stored" "k' \<noteq> k"
  defines "P \<equiv> \<lambda>w. Q (stored w k')"
  shows "preserves P (EXISTS R k)" "preserves P (GET R k)" "preserves P (INCR R k)" "preserves P (PSETEX R k ttl s)"
    "preserves P (PEXPIRE R k ttl)" "preserves P (DEL R k)" "preserves P (XADD R k n v)" "preserves P (HSET R k f v)"
proof -
  show "preserves P (HSET R k f v)"
    unfolding preserves_def P_def
  proof (intro allI impI)
    fix w assume "Q (stored w k')"
    then show "Q (stored (snd (HSET R k f v w)) k')"
      using hash_laws_hash(3,4) [OF assms(1), of k f v w] assms(2)
      by (cases "HSET R k f v w"; cases "fst (HSET R k f v w)") auto
  qed
qed (use assms(1,2) in \<open>unfold hash_laws_def preserves_def keeps_others_def P_def, fastforce+\<close>)

lemma hash_laws_preserve_HGET: "hash_laws R stored \<Longrightarrow> preserves (\<lambda>w. Q (stored w k')) (HGET R k f)"
  unfolding hash_laws_def preserves_def by simp

lemma recoded_text:
  "recoded L sh h v h' \<Longrightarrow> small_head h' \<Longrightarrow> \<exists>r. text_of sh (Some (Some v)) (Some (h'\<lparr>Header := r\<rparr>))"
  by (auto simp: recoded_def small_head_def)

lemma redis_other_ops:
  assumes laws: "hash_laws R stored" and op: "\<forall>tok h. op \<noteq> OpPublish tok h" "\<forall>tok. op \<noteq> OpBeginReorg c tok"
  shows "stored (redis_exec L R r sh op w) (redis_key r c ''heads'') = stored w (redis_key r c ''heads'')"
proof -
  let ?P = "\<lambda>w'. stored w' (redis_key r c ''heads'') = stored w (redis_key r c ''heads'')"
  note keep = hash_laws_preserve [OF laws, of "redis_key r c ''heads''"]
  show ?thesis
  proof (cases op)
    case (OpAcquire ch owner ttl)
    have "preserves ?P (acquire_script L R (redis_key r ch ''leader'') (redis_key r ch ''fence'') owner (go_quot ttl Millisecond))"
      by (intro lease_scripts_preserve keep) simp_all
    then show ?thesis using OpAcquire by (simp add: preserves_def)
  next
    case (OpRenew ch tok ttl)
    have "preserves ?P (renew_script R (redis_key r ch ''leader'') tok (go_quot ttl Millisecond))"
      by (intro lease_scripts_preserve(2,3) [where fence = "redis_key r ch ''fence''"] keep) simp_all
    then show ?thesis using OpRenew by (simp add: preserves_def)
  next
    case (OpRelease ch tok)
    have "preserves ?P (release_script R (redis_key r ch ''leader'') tok)"
      by (intro lease_scripts_preserve(2,3) [where fence = "redis_key r ch ''fence''"] keep) simp_all
    then show ?thesis using OpRelease by (simp add: preserves_def)
  next
    case (OpBeginReorg ch tok)
    then have "ch \<noteq> c" using op(2) by blast
    then have "preserves ?P (reorg_of L R r ch tok)"
      unfolding reorg_of_def by (intro reorg_script_preserves keep hash_laws_preserve_HGET [OF laws]) simp_all
    then show ?thesis using OpBeginReorg by (simp add: preserves_def)
  qed (use op(1) in blast)
qed

lemma publish_keeps_latest:
  assumes laws: "codec_laws L" "hash_laws R stored" and other: "Chain h \<noteq> c \<or> Commitment h \<noteq> ''latest''"
  shows "stored (snd (publish_of L R r sh tok h w)) (redis_key r c ''heads'') ''latest''
    = stored w (redis_key r c ''heads'') ''latest''"
proof (cases "Chain h = c")
  let ?k = "redis_key r c ''heads''" and ?h = "changed_default h"
  case False
  then have "preserves (\<lambda>w'. stored w' ?k = stored w ?k) (publish_of L R r sh tok h)"
    unfolding publish_of_def
    by (intro publish_script_preserves hash_laws_preserve [OF laws(2)] hash_laws_preserve_HGET [OF laws(2)]) simp_all
  then show ?thesis by (simp add: preserves_def)
next
  let ?k = "redis_key r c ''heads''" and ?h = "changed_default h"
  case chain: True
  have d: "Commitment ?h = Commitment h" "Chain ?h = Chain h" by (simp_all add: changed_default_def)
  have field: "f = Commitment h" if x: "cj_decode L (marshal_head sh ?h) = Some x"
    and f: "Option.bind (lua_index x ''commitment'') (lua_argument L) = Some f" for x f
  proof -
    obtain t where "x = LTable t" "head_table L sh ?h t"
      using decode_canonical [OF laws(1) canonical_marshal x] by blast
    then show ?thesis using f head_table_index(2) [OF laws(1), of sh ?h t] d(1) by (simp del: lua_index.simps)
  qed
  have set: "preserves (\<lambda>w'. stored w' ?k ''latest'' = stored w ?k ''latest'') (HSET R ?k (Commitment h) v)" for v
    unfolding preserves_def
  proof (intro allI impI)
    fix w1 assume "stored w1 ?k ''latest'' = stored w ?k ''latest''"
    then show "stored (snd (HSET R ?k (Commitment h) v w1)) ?k ''latest'' = stored w ?k ''latest''"
      using hash_laws_hash(3,4) [OF laws(2), of ?k "Commitment h" v w1] other chain
      by (cases "HSET R ?k (Commitment h) v w1"; cases "fst (HSET R ?k (Commitment h) v w1)") auto
  qed
  have "preserves (\<lambda>w'. stored w' ?k ''latest'' = stored w ?k ''latest'') (publish_of L R r sh tok h)"
    unfolding publish_of_def d(2) [symmetric] chain [unfolded d(2) [symmetric]]
    using hash_laws_preserve [OF laws(2), where k' = ?k and Q = "\<lambda>f. f ''latest'' = stored w ?k ''latest''"]
      hash_laws_preserve_HGET [OF laws(2), where k' = ?k and Q = "\<lambda>f. f ''latest'' = stored w ?k ''latest''"] field set
    by (intro publish_script_preserves) (simp_all add: chain)
  then show ?thesis by (simp add: preserves_def)
qed

text \<open>A published head that the script did not fence off.\<close>

lemma recoded_fence_step:
  assumes "recoded L sh h v h'" "small_head h'" "\<not> fenced_off h (Some p)" "is_latest_evm h"
    and "ReorgEpoch h' = ReorgEpoch h" "ReorgPending h' = ReorgPending h"
  shows "\<exists>p'. text_of sh (Some (Some v)) (Some p') \<and> fence_step p p'"
proof -
  obtain rw where "text_of sh (Some (Some v)) (Some (h'\<lparr>Header := rw\<rparr>))" using recoded_text [OF assms(1,2)] by blast
  moreover have "fence_step p (h'\<lparr>Header := rw\<rparr>)" using assms(3-6) by (auto simp: fence_step_def fenced_off_def)
  ultimately show ?thesis by blast
qed

lemma redis_publish_step:
  assumes laws: "codec_laws L" "hash_laws R stored" "counter_laws R" and h: "small_head h"
    and cur: "text_of sh (stored w (redis_key r c ''heads'') ''latest'') (Some p)"
    and evm: "Chain h = c \<and> Commitment h = ''latest'' \<longrightarrow> Family h = ''evm''"
  shows "\<exists>p'. text_of sh (stored (snd (publish_of L R r sh tok h w)) (redis_key r c ''heads'') ''latest'') (Some p')
    \<and> fence_step p p'"
proof -
  let ?k = "redis_key r c ''heads''" and ?w' = "snd (publish_of L R r sh tok h w)" and ?h = "changed_default h"
  have kept: ?thesis if "stored ?w' ?k ''latest'' = stored w ?k ''latest''"
    using cur that by (intro exI [of _ p]) (simp add: fence_step_def)
  show ?thesis
  proof (cases "Chain h = c \<and> Commitment h = ''latest''")
    case False
    then show ?thesis using kept publish_keeps_latest [OF laws(1,2)] by blast
  next
    case True
    have d: "Commitment ?h = ''latest''" "small_head ?h" "is_latest_evm ?h"
      using h evm True by (simp_all add: changed_default_def small_head_def is_latest_evm_def)
    obtain x where run: "publish_script L R (redis_key r c ''leader'') ?k (redis_key r c ''generation'')
        (redis_key r c ''events'') tok (marshal_head sh ?h) (streamMax r) w = (x, ?w')"
      using True by (cases "publish_of L R r sh tok h w") (auto simp: publish_of_def)
    have keys: "?k \<noteq> redis_key r c ''leader''" "?k \<notin> {redis_key r c ''generation'', redis_key r c ''events''}" by simp_all
    from run show ?thesis
    proof (cases rule: publish_script_cases [where stored = stored, OF laws(1,2) keys(1), consumes 1, case_names failed lost held])
      case (held w1 t)
      have cur1: "text_of sh (stored w1 ?k (Commitment ?h)) (Some p)" using cur held(2) d(1) by simp
      from held(4) show ?thesis
      proof (cases rule: publish_incoming_cases [where stored = stored, OF laws held(3) d(2) keys(2) cur1, consumes 1, case_names failed fenced same fresh])
        case (same q v u)
        have "small_head (?h\<lparr>Generation := Generation q, ChangedAt := ChangedAt q\<rparr>)"
          using d(2) cur same(2) by (auto simp: small_head_def)
        from recoded_fence_step [OF same(4) this same(1) d(3)] show ?thesis using same(7) d(1) by simp
      next
        case (fresh v)
        then obtain g where g: "small (nat g)" "0 < g" "recoded L sh ?h v (?h\<lparr>Generation := word_of_int g\<rparr>)"
          unfolding stores_fresh_def by blast
        have "small_head (?h\<lparr>Generation := word_of_int g\<rparr>)"
          using d(2) g(1) unat_small [OF g(2,1)] by (simp add: small_head_def)
        from recoded_fence_step [OF g(3) this fresh(1) d(3)] show ?thesis using fresh(4) d(1) by simp
      qed (use kept held(2) in auto)
    qed (use kept in auto)
  qed
qed

lemma redis_reorg_step:
  assumes laws: "codec_laws L" "hash_laws R stored"
    and cur: "text_of sh (stored w (redis_key r c ''heads'') ''latest'') (Some p)"
    and room: "small (unat (ReorgEpoch p) + 1)"
  shows "\<exists>p'. text_of sh (stored (snd (reorg_of L R r c tok w)) (redis_key r c ''heads'') ''latest'') (Some p')
    \<and> fence_step p p'"
proof -
  let ?k = "redis_key r c ''heads''" and ?w' = "snd (reorg_of L R r c tok w)"
  have kept: ?thesis if "stored ?w' ?k = stored w ?k"
    using cur that by (intro exI [of _ p]) (simp add: fence_step_def)
  have keys: "?k \<noteq> redis_key r c ''leader''" by simp
  obtain x where run: "reorg_script L R (redis_key r c ''leader'') ?k tok w = (x, ?w')"
    by (cases "reorg_of L R r c tok w") (auto simp: reorg_of_def)
  from run show ?thesis
  proof (cases rule: reorg_script_cases [where stored = stored, OF laws keys cur, consumes 1,
      case_names failed lost none held])
    case (held w1 q v u)
    let ?w2 = "snd (HGET R ?k ''latest'' w1)"
    from held(2) have q: "p = q" by simp
    from held(7) show ?thesis
    proof (cases rule: reorg_decoded_cases [where stored = stored, OF laws held(5,4) room [unfolded q], consumes 1, case_names failed none raise pending])
      case (raise v' u')
      have "small_head (p\<lparr>ReorgEpoch := ReorgEpoch p + 1, ReorgPending := True\<rparr>)"
        using held(4) q room unat_plus_one_le [of "ReorgEpoch p"] by (auto simp: small_head_def small_def)
      then obtain rw where "text_of sh (Some (Some v')) (Some (p\<lparr>ReorgEpoch := ReorgEpoch p + 1, ReorgPending := True, Header := rw\<rparr>))"
        using recoded_text [OF raise(3)] q by auto
      moreover have "stored ?w' ?k ''latest'' = Some (Some v')"
        using hash_laws_hash(4) [OF laws(2) raise(5)] by simp
      moreover have "fence_step p (p\<lparr>ReorgEpoch := ReorgEpoch p + 1, ReorgPending := True, Header := rw\<rparr>)"
        using raise(2) q by (simp add: fence_step_def)
      ultimately show ?thesis by metis
    qed (use kept held(6) in auto)
  qed (use kept in auto)
qed

definition redis_laws :: "'n lua_lib \<Rightarrow> 'w redis \<Rightarrow> ('w \<Rightarrow> string \<Rightarrow> string \<Rightarrow> raw option) \<Rightarrow> (time \<Rightarrow> 'w \<Rightarrow> 'w) \<Rightarrow> bool" where
  "redis_laws L R stored clock \<longleftrightarrow>
     codec_laws L \<and> hash_laws R stored \<and> counter_laws R \<and> (\<forall>t w. stored (clock t w) = stored w)"

lemma redis_fenced_store:
  assumes laws: "redis_laws L R stored clock" and times: "\<And>t. rt (sh t) = Some t"
  shows "fenced_store (redis_step L R r sh clock) (redis_accepted r sh rt stored) redis_op small"
proof
  show "small n \<Longrightarrow> m \<le> n \<Longrightarrow> small m" for m n by (simp add: small_def)
  fix w c h op t
  assume acc: "redis_accepted r sh rt stored w c = Some h" and op: "redis_op c op" and room: "small (unat (ReorgEpoch h) + 1)"
  have l: "codec_laws L" "hash_laws R stored" "counter_laws R" "stored (clock t w) = stored w"
    using laws by (simp_all add: redis_laws_def)
  have cur: "text_of sh (stored (clock t w) (redis_key r c ''heads'') ''latest'') (Some h)"
    using acc text_head_iff [of rt sh, OF times] by (simp add: redis_accepted_def l(4))
  have "\<exists>h'. text_of sh (stored (redis_exec L R r sh op (clock t w)) (redis_key r c ''heads'') ''latest'') (Some h')
      \<and> fence_step h h'"
  proof (cases "(\<exists>tok x. op = OpPublish tok x) \<or> (\<exists>tok. op = OpBeginReorg c tok)")
    case False
    then show ?thesis using redis_other_ops [OF l(2), of op c L r sh "clock t w"] cur
      by (intro exI [of _ h]) (auto simp: fence_step_def)
  next
    case True
    then show ?thesis
      using redis_publish_step [where stored = stored, OF l(1-3) _ cur]
        redis_reorg_step [where stored = stored, OF l(1,2) cur room] op
      by (auto simp: Latest_def simp del: text_of_simps)
  qed
  then show "\<exists>h'. redis_accepted r sh rt stored (redis_step L R r sh clock t op w) c = Some h' \<and> fence_step h h'"
    using text_head_iff [of rt sh, OF times] by (simp add: redis_accepted_def redis_step_def)
qed

end
