(* ===== verification/Redis_Refinement.thy ===== *)
theory Redis_Refinement
  imports Redis_Fence Memory_Store
begin

text \<open>
  The Redis store implements the memory store. A server represents a memory store for a chain when its
  hash holds the accepted heads, its lease key the token of an unexpired lease and its counter the
  generation. Publishing and beginning a reorg, answered without an error of the server, then return what
  the memory store returns and leave states that represent each other. The heads are those of an EVM chain
  (every one has a hash) whose headers the codec keeps.
\<close>

subsection \<open>Representation\<close>

text \<open>\<open>lease w k\<close> is the string at the key \<open>k\<close>, \<open>counter w k\<close> the number of increments of \<open>k\<close>.\<close>

definition value_laws :: "'w redis \<Rightarrow> ('w \<Rightarrow> string \<Rightarrow> string option) \<Rightarrow> ('w \<Rightarrow> string \<Rightarrow> nat) \<Rightarrow> bool" where
  "value_laws R lease counter \<longleftrightarrow>
     (\<forall>k w. case fst (GET R k w) of Inl e \<Rightarrow> True | Inr x \<Rightarrow> x = lease w k)
     \<and> (\<forall>k w. lease (snd (GET R k w)) = lease w \<and> counter (snd (GET R k w)) = counter w)
     \<and> (\<forall>k f w. lease (snd (HGET R k f w)) = lease w \<and> counter (snd (HGET R k f w)) = counter w)
     \<and> (\<forall>k f v w k'. k' \<noteq> k \<longrightarrow> lease (snd (HSET R k f v w)) k' = lease w k' \<and> counter (snd (HSET R k f v w)) k' = counter w k')
     \<and> (\<forall>k n v w k'. k' \<noteq> k \<longrightarrow> lease (snd (XADD R k n v w)) k' = lease w k' \<and> counter (snd (XADD R k n v w)) k' = counter w k')
     \<and> (\<forall>k w k'. k' \<noteq> k \<longrightarrow> lease (snd (INCR R k w)) k' = lease w k')
     \<and> (\<forall>k w. case fst (INCR R k w) of Inl e \<Rightarrow> True
          | Inr n \<Rightarrow> n = int (counter w k) + 1 \<and> counter (snd (INCR R k w)) k = counter w k + 1)"

definition trunc_law :: "'n lua_lib \<Rightarrow> bool" where
  "trunc_law L \<longleftrightarrow> (\<forall>n. small n \<longrightarrow> lua_trunc L (lua_int L (int n)) = int n)"

definition represents :: "redis_store \<Rightarrow> (time \<Rightarrow> string) \<Rightarrow> ('w \<Rightarrow> string \<Rightarrow> string \<Rightarrow> raw option)
    \<Rightarrow> ('w \<Rightarrow> string \<Rightarrow> string option) \<Rightarrow> ('w \<Rightarrow> string \<Rightarrow> nat) \<Rightarrow> time \<Rightarrow> string \<Rightarrow> 'w \<Rightarrow> mem_store \<Rightarrow> bool" where
  "represents r sh stored lease counter now c w m \<longleftrightarrow>
     (\<forall>k. text_of sh (stored w (redis_key r c ''heads'') k) (m_heads m c k))
     \<and> (\<forall>k h. m_heads m c k = Some h \<longrightarrow> Hash h \<noteq> [])
     \<and> lease w (redis_key r c ''leader'')
         = (if now < expires (leader_of m c) then Some (token (leader_of m c)) else None)
     \<and> now \<noteq> expires (leader_of m c)
     \<and> counter w (redis_key r c ''generation'') = unat (m_gen m c)"

text \<open>The outcome of a call as the memory store gives it.\<close>

abbreviation as_redis :: "store_error + 'a \<Rightarrow> redis_store_error + 'a" where
  "as_redis \<equiv> map_sum Sentinel id"

lemma redis_key_differs:
  assumes "s \<noteq> []" "s' \<noteq> []" "last s \<noteq> last s'"
  shows "redis_key r c s \<noteq> redis_key r c' s'"
proof
  assume "redis_key r c s = redis_key r c' s'"
  then have "last (redis_key r c s) = last (redis_key r c' s')" by simp
  then show False using assms by (simp add: redis_key_def)
qed

lemma redis_key_leader [simp]:
  "redis_key r c ''leader'' \<noteq> redis_key r c' ''generation''" "redis_key r c ''generation'' \<noteq> redis_key r c' ''leader''"
  "redis_key r c ''leader'' \<noteq> redis_key r c' ''events''" "redis_key r c ''generation'' \<noteq> redis_key r c' ''events''"
  by (rule redis_key_differs; simp)+

lemma value_laws_snd:
  assumes "value_laws R lease counter"
  shows "lease (snd (GET R k w)) = lease w" "counter (snd (GET R k w)) = counter w"
    "lease (snd (HGET R k f w)) = lease w" "counter (snd (HGET R k f w)) = counter w"
    "k' \<noteq> k \<Longrightarrow> lease (snd (HSET R k f v w)) k' = lease w k'"
    "k' \<noteq> k \<Longrightarrow> counter (snd (HSET R k f v w)) k' = counter w k'"
    "k' \<noteq> k \<Longrightarrow> lease (snd (XADD R k n v w)) k' = lease w k'"
    "k' \<noteq> k \<Longrightarrow> counter (snd (XADD R k n v w)) k' = counter w k'"
    "k' \<noteq> k \<Longrightarrow> lease (snd (INCR R k w)) k' = lease w k'"
  using assms by (simp_all add: value_laws_def)

lemma value_laws_kept:
  assumes vl: "value_laws R lease counter"
  shows "GET R k w = (x1, w') \<Longrightarrow> lease w' = lease w" "GET R k w = (x1, w') \<Longrightarrow> counter w' = counter w"
    "k' \<noteq> k \<Longrightarrow> HSET R k f v w = (x2, w') \<Longrightarrow> lease w' k' = lease w k'"
    "k' \<noteq> k \<Longrightarrow> HSET R k f v w = (x2, w') \<Longrightarrow> counter w' k' = counter w k'"
    "k' \<noteq> k \<Longrightarrow> INCR R k w = (x3, w') \<Longrightarrow> lease w' k' = lease w k'"
proof -
  show "GET R k w = (x1, w') \<Longrightarrow> lease w' = lease w" "GET R k w = (x1, w') \<Longrightarrow> counter w' = counter w"
    using value_laws_snd(1,2) [OF vl, of k w] by simp_all
  show "HSET R k f v w = (x2, w') \<Longrightarrow> lease w' k' = lease w k'"
    "HSET R k f v w = (x2, w') \<Longrightarrow> counter w' k' = counter w k'" if "k' \<noteq> k"
    using value_laws_snd(5,6) [OF vl that, of f v w] by simp_all
  show "INCR R k w = (x3, w') \<Longrightarrow> lease w' k' = lease w k'" if "k' \<noteq> k"
    using value_laws_snd(9) [OF vl that, of w] by simp
qed

lemma value_laws_read:
  assumes "value_laws R lease counter"
  shows "GET R k w = (Inr x, w') \<Longrightarrow> x = lease w k"
    "INCR R k w = (Inr n, w') \<Longrightarrow> n = int (counter w k) + 1" "INCR R k w = (Inr n, w') \<Longrightarrow> counter w' k = counter w k + 1"
proof -
  have "case fst (GET R k w) of Inl e \<Rightarrow> True | Inr x \<Rightarrow> x = lease w k"
    "case fst (INCR R k w) of Inl e \<Rightarrow> True
      | Inr n \<Rightarrow> n = int (counter w k) + 1 \<and> counter (snd (INCR R k w)) k = counter w k + 1"
    using assms by (simp_all add: value_laws_def)
  then show "GET R k w = (Inr x, w') \<Longrightarrow> x = lease w k"
    "INCR R k w = (Inr n, w') \<Longrightarrow> n = int (counter w k) + 1" "INCR R k w = (Inr n, w') \<Longrightarrow> counter w' k = counter w k + 1"
    by simp_all
qed

lemma recoded_kept: "recoded L sh h v h' \<Longrightarrow> keeps_header L h \<Longrightarrow> Header h' = Header h \<Longrightarrow> canonical sh v h'"
  unfolding recoded_def by (cases h') auto

lemma unmarshal_published:
  assumes "\<And>t. rt (sh t) = Some t" "canonical sh v h'" "Hash h' = Hash b" "ParentHash h' = ParentHash b" "Header h' = Header b"
  shows "unmarshal_head_into rt b v = Some h'"
  using unmarshal_canonical [of rt sh v h' b] assms by (cases h') (auto split: option.splits)

lemma changed_default_sel [simp]:
  "Chain (changed_default h) = Chain h" "Commitment (changed_default h) = Commitment h" "Family (changed_default h) = Family h"
  "Hash (changed_default h) = Hash h" "ParentHash (changed_default h) = ParentHash h" "Header (changed_default h) = Header h"
  "ReorgPending (changed_default h) = ReorgPending h" "ReorgEpoch (changed_default h) = ReorgEpoch h"
  "Number (changed_default h) = Number h" "Generation (changed_default h) = Generation h"
  "keeps_header L (changed_default h) = keeps_header L h" "small_head (changed_default h) = small_head h"
  by (simp_all add: changed_default_def keeps_header_def small_head_def)

subsection \<open>Publishing\<close>

lemma represents_put:
  assumes "represents r sh stored lease counter now c w m" "Chain h' = c" "Hash h' \<noteq> []"
    and "canonical sh v h'" "small_head h'"
    and "stored w' (redis_key r c ''heads'') = (stored w (redis_key r c ''heads''))(Commitment h' \<mapsto> Some v)"
    and "lease w' (redis_key r c ''leader'') = lease w (redis_key r c ''leader'')"
    and "m_heads m' = (m_heads m)(c := (m_heads m c)(Commitment h' \<mapsto> h'))" "m_leaders m' = m_leaders m"
    and "counter w' (redis_key r c ''generation'') = unat (m_gen m' c)"
  shows "represents r sh stored lease counter now c w' m'"
  using assms by (auto simp: represents_def leader_of_def)

lemma represents_kept:
  assumes "represents r sh stored lease counter now c w m"
    and "stored w' (redis_key r c ''heads'') = stored w (redis_key r c ''heads'')"
    and "lease w' (redis_key r c ''leader'') = lease w (redis_key r c ''leader'')"
    and "counter w' (redis_key r c ''generation'') = counter w (redis_key r c ''generation'')"
  shows "represents r sh stored lease counter now c w' m"
  using assms by (simp add: represents_def)

lemma represents_leads:
  assumes "represents r sh stored lease counter now c w m"
  shows "lease w (redis_key r c ''leader'') = Some tok \<longleftrightarrow>
    token (leader_of m c) = tok \<and> \<not> now > expires (leader_of m c)"
    "lease w (redis_key r c ''leader'') = Some tok \<longleftrightarrow> token (leader_of m c) = tok \<and> now < expires (leader_of m c)"
  using assms by (auto simp: represents_def)

lemma same_block_Identity: "Hash h \<noteq> [] \<Longrightarrow> Hash q \<noteq> [] \<Longrightarrow> same_block h q \<longleftrightarrow> Identity q = Identity h"
  by (simp add: same_block_def)

lemma fenced_off_latest: "fenced_off h p \<longleftrightarrow>
    Family h = ''evm'' \<and> Commitment h = Latest \<and> (ReorgPending h \<or> ReorgEpoch h \<noteq> ReorgEpoch (or_zero p))"
  by (simp add: fenced_off_def is_latest_evm_def Latest_def)

lemma fenced_off_changed [simp]: "fenced_off (changed_default h) p \<longleftrightarrow> fenced_off h p"
  by (simp add: fenced_off_latest)

lemma Publish_by_case:
  assumes "p = m_heads m (Chain h) (Commitment h)"
  shows "\<not> (token (leader_of m (Chain h)) = tok \<and> \<not> now > expires (leader_of m (Chain h))) \<Longrightarrow>
      Publish now tok h m = (Inl ErrLeadershipLost, m)"
    "token (leader_of m (Chain h)) = tok \<Longrightarrow> \<not> now > expires (leader_of m (Chain h)) \<Longrightarrow> fenced_off h p \<Longrightarrow>
      Publish now tok h m = (Inl ErrReorgFence, m)"
    "token (leader_of m (Chain h)) = tok \<Longrightarrow> \<not> now > expires (leader_of m (Chain h)) \<Longrightarrow> \<not> fenced_off h p \<Longrightarrow>
      p = Some q \<Longrightarrow> Identity q = Identity h \<Longrightarrow> h' = h\<lparr>Generation := Generation q, ChangedAt := ChangedAt q\<rparr> \<Longrightarrow>
      Publish now tok h m = (Inr h', put_head h' m)"
    "token (leader_of m (Chain h)) = tok \<Longrightarrow> \<not> now > expires (leader_of m (Chain h)) \<Longrightarrow> \<not> fenced_off h p \<Longrightarrow>
      \<forall>q. p = Some q \<longrightarrow> Identity q \<noteq> Identity h \<Longrightarrow> h' = (changed_default h)\<lparr>Generation := m_gen m (Chain h) + 1\<rparr> \<Longrightarrow>
      Publish now tok h m = (Inr h', put_head h' (add_event h' (m\<lparr>m_gen := (m_gen m)(Chain h := m_gen m (Chain h) + 1)\<rparr>)))"
  using assms by (auto simp: Publish_def Let_def fenced_off_latest changed_default_def)

lemma published_answer:
  assumes "\<And>t. rt (sh t) = Some t" "0 \<le> n" "canonical sh v h'" "Hash h' = Hash h" "ParentHash h' = ParentHash h"
    "Header h' = Header h"
  shows "publish_answer rt (changed_default h) [RInt n, RText (Some v)] = Inr h'"
  using unmarshal_published [of rt sh v h' "changed_default h", OF assms(1)] assms(2-)
  by (simp add: publish_answer_def Let_def)

text \<open>The two publications the script can make: of the block that is accepted, and of another one. The
  world \<open>w2\<close> is that of the script's last read.\<close>

lemma publish_same_refines:
  assumes vals: "value_laws R lease counter" "trunc_law L" and times: "\<And>t. rt (sh t) = Some t"
    and rep: "represents r sh stored lease counter now c w m"
    and h: "Chain h = c" "Hash h \<noteq> []" "small_head h" "keeps_header L h"
    and leads: "token (leader_of m c) = tok" "\<not> now > expires (leader_of m c)"
    and w2: "lease w2 = lease w" "counter w2 = counter w"
    and same: "\<not> fenced_off (changed_default h) p" "p = m_heads m c (Commitment h)" "p = Some q" "same_block (changed_default h) q"
      "recoded L sh (changed_default h) v ((changed_default h)\<lparr>Generation := Generation q, ChangedAt := ChangedAt q\<rparr>)"
    and hset: "HSET R (redis_key r c ''heads'') (Commitment h) v w2 = (Inr x, w')"
      "stored w' (redis_key r c ''heads'') = (stored w (redis_key r c ''heads''))(Commitment h \<mapsto> Some v)"
  shows "publish_answer rt (changed_default h) [RInt (lua_trunc L (lua_int L (uint (Generation q)))), RText (Some v)]
      = as_redis (fst (Publish now tok h m)) \<and> represents r sh stored lease counter now c w' (snd (Publish now tok h m))"
proof -
  let ?h' = "h\<lparr>Generation := Generation q, ChangedAt := ChangedAt q\<rparr>"
  have eq: "(changed_default h)\<lparr>Generation := Generation q, ChangedAt := ChangedAt q\<rparr> = ?h'" by (simp add: changed_default_def)
  have can: "canonical sh v ?h'" using recoded_kept [OF same(5)] h(4) eq by simp
  have q: "small_head q" "Hash q \<noteq> []"
  proof -
    have "text_of sh (stored w (redis_key r c ''heads'') (Commitment h)) (Some q)" using rep same(2,3) by (simp add: represents_def)
    then show "small_head q" by auto
    show "Hash q \<noteq> []" using rep same(2,3) by (auto simp: represents_def)
  qed
  then have trunc: "lua_trunc L (lua_int L (uint (Generation q))) = uint (Generation q)"
    using vals(2) small_headD(2) unfolding trunc_law_def uint_nat by blast
  have "Identity q = Identity h" using same(4) same_block_Identity [of h q] h(2) q(2) by (simp add: same_block_def)
  then have mem: "Publish now tok h m = (Inr ?h', put_head ?h' m)"
    using Publish_by_case(3) [of p m h, unfolded h(1), OF same(2) leads _ same(3) _ refl] same(1) by simp
  have small: "small_head ?h'" using h(3) q(1) by (simp add: small_head_def)
  have kept: "lease w' (redis_key r c ''leader'') = lease w (redis_key r c ''leader'')"
    "counter w' (redis_key r c ''generation'') = counter w (redis_key r c ''generation'')"
    using value_laws_kept(3,4) [OF vals(1) _ hset(1)] w2 by simp_all
  have "represents r sh stored lease counter now c w' (put_head ?h' m)"
  proof (rule represents_put [where stored = stored and lease = lease and counter = counter, OF rep _ _ can small])
    show "counter w' (redis_key r c ''generation'') = unat (m_gen (put_head ?h' m) c)"
      using kept(2) rep by (simp add: put_head_def represents_def)
  qed (use h hset(2) kept(1) in \<open>simp_all add: put_head_def\<close>)
  then show ?thesis using published_answer [of rt sh "uint (Generation q)" v ?h' h, OF times _ can] trunc mem by simp
qed

lemma publish_fresh_refines:
  assumes vals: "value_laws R lease counter" and times: "\<And>t. rt (sh t) = Some t"
    and rep: "represents r sh stored lease counter now c w m"
    and h: "Chain h = c" "Hash h \<noteq> []" "small_head h" "keeps_header L h"
    and leads: "token (leader_of m c) = tok" "\<not> now > expires (leader_of m c)"
    and w2: "lease w2 = lease w" "counter w2 = counter w"
    and fresh: "\<not> fenced_off (changed_default h) p" "p = m_heads m c (Commitment h)"
      "\<forall>q. p = Some q \<longrightarrow> \<not> same_block (changed_default h) q"
      "stores_fresh L R sh (redis_key r c ''heads'') (redis_key r c ''generation'') (redis_key r c ''events'') n
         (changed_default h) w2 (Inr reply) w' v"
      "stored w' (redis_key r c ''heads'') = (stored w (redis_key r c ''heads''))(Commitment h \<mapsto> Some v)"
  shows "publish_answer rt (changed_default h) reply = as_redis (fst (Publish now tok h m)) \<and>
    represents r sh stored lease counter now c w' (snd (Publish now tok h m))"
proof -
  let ?H = "changed_default h" and ?k = "redis_key r c ''heads''" and ?l = "redis_key r c ''leader''"
  let ?g = "redis_key r c ''generation''" and ?e = "redis_key r c ''events''"
  obtain g w3 w4 u where incr: "INCR R ?g w2 = (Inr g, w3)" "0 < g" "small (nat g)"
    and v: "recoded L sh ?H v (?H\<lparr>Generation := word_of_int g\<rparr>)" and reply: "reply = [RInt g, RText (Some v)]"
    and hset: "HSET R ?k (Commitment ?H) v w3 = (Inr u, w4)"
    and w': "if is_latest_evm ?H then w' = snd (XADD R ?e n v w4) else w' = w4"
    using fresh(4) unfolding stores_fresh_def by blast
  let ?h' = "?H\<lparr>Generation := m_gen m c + 1\<rparr>"
  let ?m = "put_head ?h' (add_event ?h' (m\<lparr>m_gen := (m_gen m)(c := m_gen m c + 1)\<rparr>))"
  have g: "g = int (unat (m_gen m c)) + 1"
    using value_laws_read(2) [OF vals incr(1)] w2 rep by (simp add: represents_def)
  then have gen: "unat (m_gen m c + 1) = unat (m_gen m c) + 1" "word_of_int g = m_gen m c + 1"
    using incr(3) by (simp_all add: small_def max_uint64_def unat_Suc_u64 nat_add_distrib)
  have can: "canonical sh v ?h'" using recoded_kept [OF v] h(4) gen(2) by simp
  have small: "small_head ?h'" using h(3) incr(3) g gen(1) by (simp add: small_head_def nat_add_distrib)
  have "\<forall>q. p = Some q \<longrightarrow> Identity q \<noteq> Identity h"
    using fresh(2,3) same_block_Identity [of h] h(1,2) rep by (auto simp: same_block_def represents_def)
  then have mem: "Publish now tok h m = (Inr ?h', ?m)"
    using Publish_by_case(4) [of p m h, unfolded h(1), OF fresh(2) leads _ _ refl] fresh(1) by simp
  have kept: "lease w' ?l = lease w ?l" "counter w' ?g = counter w ?g + 1"
    using w' value_laws_kept(3,4) [OF vals _ hset] value_laws_kept(5) [OF vals _ incr(1)]
      value_laws_read(3) [OF vals incr(1)] value_laws_snd(7,8) [OF vals] w2
    by (auto split: if_splits)
  have "represents r sh stored lease counter now c w' ?m"
  proof (rule represents_put [where stored = stored and lease = lease and counter = counter, OF rep _ _ can small])
    show "stored w' ?k = (stored w ?k)(Commitment ?h' \<mapsto> Some v)" using fresh(5) by simp
    show "counter w' ?g = unat (m_gen ?m c)" using kept(2) gen(1) rep by (simp add: represents_def)
  qed (use h kept(1) in \<open>simp_all add: put_head_def\<close>)
  then show ?thesis using published_answer [of rt sh g v ?h' h, OF times _ can] reply mem incr(2) by simp
qed

lemma publish_refines:
  assumes laws: "codec_laws L" "hash_laws R stored" "counter_laws R" and vals: "value_laws R lease counter" "trunc_law L"
    and times: "\<And>t. rt (sh t) = Some t"
    and rep: "represents r sh stored lease counter now c w m"
    and h: "Chain h = c" "Hash h \<noteq> []" "small_head h" "keeps_header L h"
    and run: "publish_of L R r sh tok h w = (Inr reply, w')"
  shows "publish_answer rt (changed_default h) reply = as_redis (fst (Publish now tok h m)) \<and>
    represents r sh stored lease counter now c w' (snd (Publish now tok h m))"
proof -
  let ?H = "changed_default h" and ?k = "redis_key r c ''heads''" and ?l = "redis_key r c ''leader''"
  let ?g = "redis_key r c ''generation''" and ?e = "redis_key r c ''events''" and ?p = "m_heads m c (Commitment h)"
  have run': "publish_script L R ?l ?k ?g ?e tok (marshal_head sh ?H) (streamMax r) w = (Inr reply, w')"
    using run h(1) by (simp add: publish_of_def)
  have keys: "?k \<noteq> ?l" "?k \<notin> {?g, ?e}" by simp_all
  note kept = represents_kept [where stored = stored and lease = lease and counter = counter, OF rep]
  from run' show ?thesis
  proof (cases rule: publish_script_cases [where stored = stored, OF laws(1,2) keys(1), consumes 1, case_names failed lost held])
    case (lost held)
    then have "\<not> (token (leader_of m c) = tok \<and> \<not> now > expires (leader_of m c))"
      using represents_leads(1) [OF rep, of tok] value_laws_read(1) [OF vals(1) lost(1)] by simp
    then show ?thesis
      using lost(3) kept [OF lost(4)] value_laws_kept(1,2) [OF vals(1) lost(1)] h(1) Publish_by_case(1)
      by (simp add: publish_answer_def)
  next
    case (held w1 t)
    have leads: "token (leader_of m c) = tok" "\<not> now > expires (leader_of m c)"
      using represents_leads(1) [OF rep, of tok] value_laws_read(1) [OF vals(1) held(1)] by auto
    have w2: "lease (snd (HGET R ?k (Commitment ?H) w1)) = lease w" "counter (snd (HGET R ?k (Commitment ?H) w1)) = counter w"
      using value_laws_kept(1,2) [OF vals(1) held(1)] value_laws_snd(3,4) [OF vals(1)] by simp_all
    have cur: "text_of sh (stored w1 ?k (Commitment ?H)) ?p" using rep held(2) by (simp add: represents_def)
    have H: "small_head ?H" using h(3) by simp
    from held(4) show ?thesis
    proof (cases rule: publish_incoming_cases [where stored = stored, OF laws held(3) H keys(2) cur, consumes 1,
          case_names failed fenced same fresh])
      case fenced
      then have "Publish now tok h m = (Inl ErrReorgFence, m)"
        using Publish_by_case(2) [of ?p m h tok now] leads h(1) by simp
      then show ?thesis using fenced(2-4) kept [of w'] held(2) w2 by (simp add: publish_answer_def)
    next
      case (same q v x)
      then show ?thesis
        using publish_same_refines [OF vals times rep h leads w2 same(1) refl same(2-4)] held(2) by simp
    next
      case (fresh v)
      then show ?thesis
        using publish_fresh_refines [OF vals(1) times rep h leads w2 fresh(1) refl fresh(2)] held(2) by simp
    qed simp
  qed simp
qed

subsection \<open>Beginning a reorg\<close>

lemma BeginReorg_by_case:
  assumes "p = m_heads m c Latest"
  shows "\<not> (token (leader_of m c) = tok \<and> now < expires (leader_of m c)) \<Longrightarrow> BeginReorg now c tok m = (Inl ErrLeadershipLost, m)"
    "token (leader_of m c) = tok \<Longrightarrow> now < expires (leader_of m c) \<Longrightarrow> \<forall>q. p = Some q \<longrightarrow> Family q \<noteq> ''evm'' \<Longrightarrow>
      BeginReorg now c tok m = (Inl ErrReorgFence, m)"
    "token (leader_of m c) = tok \<Longrightarrow> now < expires (leader_of m c) \<Longrightarrow> p = Some q \<Longrightarrow> Family q = ''evm'' \<Longrightarrow> Hash q \<noteq> [] \<Longrightarrow>
      BeginReorg now c tok m = (if ReorgPending q then (Inr q, m)
        else (Inr (q\<lparr>ReorgEpoch := ReorgEpoch q + 1, ReorgPending := True\<rparr>),
              m\<lparr>m_heads := (m_heads m)(c := (m_heads m c)(Latest \<mapsto> q\<lparr>ReorgEpoch := ReorgEpoch q + 1, ReorgPending := True\<rparr>))\<rparr>))"
  using assms by (auto simp: BeginReorg_def Let_def IsZero_def split: option.splits)

text \<open>The script raises the epoch of the head \<open>q\<close>.\<close>

lemma reorg_raised_refines:
  assumes laws: "hash_laws R stored" and vals: "value_laws R lease counter" and times: "\<And>t. rt (sh t) = Some t"
    and rep: "represents r sh stored lease counter now c w m"
    and q: "m_heads m c Latest = Some q" "small_head q" "keeps_header L q" "small (unat (ReorgEpoch q) + 1)" "Commitment q = Latest"
    and w2: "lease w2 = lease w" "counter w2 = counter w"
      "stored w2 (redis_key r c ''heads'') = stored w (redis_key r c ''heads'')"
    and v: "recoded L sh q v (q\<lparr>ReorgEpoch := ReorgEpoch q + 1, ReorgPending := True\<rparr>)"
    and hset: "HSET R (redis_key r c ''heads'') ''latest'' v w2 = (Inr x, w')"
    and mem: "BeginReorg now c tok m = (if ReorgPending q then (Inr q, m)
      else (Inr (q\<lparr>ReorgEpoch := ReorgEpoch q + 1, ReorgPending := True\<rparr>),
            m\<lparr>m_heads := (m_heads m)(c := (m_heads m c)(Latest \<mapsto> q\<lparr>ReorgEpoch := ReorgEpoch q + 1, ReorgPending := True\<rparr>))\<rparr>))"
    and open': "\<not> ReorgPending q"
  shows "reorg_answer rt [RInt 1, RText (Some v)] = as_redis (fst (BeginReorg now c tok m)) \<and>
    represents r sh stored lease counter now c w' (snd (BeginReorg now c tok m))"
proof -
  let ?k = "redis_key r c ''heads''" and ?h = "q\<lparr>ReorgEpoch := ReorgEpoch q + 1, ReorgPending := True\<rparr>"
  have can: "canonical sh v ?h" using recoded_kept [OF v q(3)] by simp
  have small: "small_head ?h"
    using q(2,4) unat_plus_one_le [of "ReorgEpoch q"] by (auto simp: small_head_def small_def)
  have set: "stored w' ?k = (stored w ?k)(Commitment ?h \<mapsto> Some v)"
    using hash_laws_hash(4) [OF laws hset] w2(3) q(5) by (simp add: Latest_def)
  have "lease w' (redis_key r c ''leader'') = lease w (redis_key r c ''leader'')"
    "counter w' (redis_key r c ''generation'') = counter w (redis_key r c ''generation'')"
    using value_laws_kept(3,4) [OF vals _ hset] w2(1,2) by simp_all
  moreover have "Hash q \<noteq> []" using rep q(1) by (auto simp: represents_def)
  moreover have "unmarshal_head rt v = Some ?h" using unmarshal_head_canonical [of rt sh, OF times can] .
  moreover have "text_of sh (stored w' ?k k) (((m_heads m c)(Latest \<mapsto> ?h)) k)" for k
    using rep set can small q(5) by (simp add: represents_def)
  ultimately show ?thesis using mem open' rep by (auto simp: reorg_answer_def represents_def leader_of_def)
qed

lemma reorg_refines:
  assumes laws: "codec_laws L" "hash_laws R stored" and vals: "value_laws R lease counter"
    and times: "\<And>t. rt (sh t) = Some t"
    and rep: "represents r sh stored lease counter now c w m"
    and head: "\<forall>q. m_heads m c Latest = Some q \<longrightarrow> keeps_header L q \<and> small (unat (ReorgEpoch q) + 1) \<and> Commitment q = Latest"
    and run: "reorg_of L R r c tok w = (Inr reply, w')"
  shows "reorg_answer rt reply = as_redis (fst (BeginReorg now c tok m)) \<and>
    represents r sh stored lease counter now c w' (snd (BeginReorg now c tok m))"
proof -
  let ?k = "redis_key r c ''heads''" and ?l = "redis_key r c ''leader''" and ?g = "redis_key r c ''generation''"
  let ?p = "m_heads m c Latest"
  have run': "reorg_script L R ?l ?k tok w = (Inr reply, w')" using run by (simp add: reorg_of_def)
  have keys: "?k \<noteq> ?l" by simp
  have cur: "text_of sh (stored w ?k ''latest'') ?p" using rep by (simp add: represents_def Latest_def)
  note kept = represents_kept [where stored = stored and lease = lease and counter = counter, OF rep]
  from run' show ?thesis
  proof (cases rule: reorg_script_cases [where stored = stored, OF laws keys cur, consumes 1, case_names failed lost none held])
    case (lost held)
    then have "\<not> (token (leader_of m c) = tok \<and> now < expires (leader_of m c))"
      using represents_leads(2) [OF rep, of tok] value_laws_read(1) [OF vals lost(1)] by simp
    then show ?thesis
      using lost(3) kept [OF lost(4)] value_laws_kept(1,2) [OF vals lost(1)] BeginReorg_by_case(1)
      by (simp add: reorg_answer_def)
  next
    case (none w1)
    have leads: "token (leader_of m c) = tok" "now < expires (leader_of m c)"
      using represents_leads(2) [OF rep, of tok] value_laws_read(1) [OF vals none(1)] by auto
    have "represents r sh stored lease counter now c w' m"
      using kept [OF none(5)] none(4) value_laws_snd(3,4) [OF vals] value_laws_kept(1,2) [OF vals none(1)] by simp
    then show ?thesis using none(2,3) BeginReorg_by_case(2) [OF refl leads] by (simp add: reorg_answer_def)
  next
    case (held w1 q v u)
    let ?w2 = "snd (HGET R ?k ''latest'' w1)"
    have leads: "token (leader_of m c) = tok" "now < expires (leader_of m c)"
      using represents_leads(2) [OF rep, of tok] value_laws_read(1) [OF vals held(1)] by auto
    have q: "keeps_header L q" "small (unat (ReorgEpoch q) + 1)" "Commitment q = Latest" "Hash q \<noteq> []"
      using head held(2) rep by (auto simp: represents_def)
    have w2: "lease ?w2 = lease w" "counter ?w2 = counter w"
      using value_laws_snd(3,4) [OF vals] value_laws_kept(1,2) [OF vals held(1)] by simp_all
    note mem = BeginReorg_by_case(3) [OF refl leads held(2) _ q(4)]
    from held(7) show ?thesis
    proof (cases rule: reorg_decoded_cases [where stored = stored, OF laws held(5,4) q(2), consumes 1,
          case_names failed none raise pending])
      case none
      then show ?thesis using kept [of ?w2] held(6) w2 BeginReorg_by_case(2) [OF refl leads] held(2)
        by (simp add: reorg_answer_def)
    next
        case (raise v' x)
      show ?thesis
        using reorg_raised_refines [OF laws(2) vals times rep held(2,4) q(1-3) w2 held(6) raise(3) raise(5) mem [OF raise(1)]]
          raise(2,4) by simp
    next
      case pending
      have "unmarshal_head rt v = Some q" using unmarshal_head_canonical [of rt sh, OF times held(3)] .
      then show ?thesis using mem [OF pending(1)] pending kept [of ?w2] held(6) w2
        by (simp add: reorg_answer_def)
    qed simp
  qed simp
qed

end
