(* ===== verification/Redis_Contract.thy ===== *)
theory Redis_Contract
  imports Redis_Refinement
begin

text \<open>
  What callers of the Redis store rely on: its calls implement the memory store's, and a subscriber that
  resumes from the stream misses no head. A small server and codec that satisfy the laws show that they
  can hold.
\<close>

subsection \<open>Calls\<close>

fun redis_call :: "'n lua_lib \<Rightarrow> 'w redis \<Rightarrow> redis_store \<Rightarrow> (time \<Rightarrow> string) \<Rightarrow> (string \<Rightarrow> time option) \<Rightarrow> store_op \<Rightarrow> 'w
    \<Rightarrow> ((redis_store_error + head) \<times> 'w) option" where
  "redis_call L R r sh rt (OpPublish tok h) w = Some (RedisStore_Publish L R r sh rt tok h w)"
| "redis_call L R r sh rt (OpBeginReorg c tok) w = Some (RedisStore_BeginReorg L R r rt c tok w)"
| "redis_call L R r sh rt _ w = None"

fun mem_call :: "time \<Rightarrow> store_op \<Rightarrow> mem_store \<Rightarrow> ((store_error + head) \<times> mem_store) option" where
  "mem_call now (OpPublish tok h) m = Some (Publish now tok h m)"
| "mem_call now (OpBeginReorg c tok) m = Some (BeginReorg now c tok m)"
| "mem_call now _ m = None"

text \<open>The heads of a call: those of an EVM chain, small, with a header the codec keeps.\<close>

fun representable :: "'n lua_lib \<Rightarrow> string \<Rightarrow> mem_store \<Rightarrow> store_op \<Rightarrow> bool" where
  "representable L c m (OpPublish tok h) = (Chain h = c \<and> Hash h \<noteq> [] \<and> small_head h \<and> keeps_header L h)"
| "representable L c m (OpBeginReorg c' tok) = (c' = c \<and> (case m_heads m c Latest of None \<Rightarrow> True
     | Some q \<Rightarrow> keeps_header L q \<and> small (unat (ReorgEpoch q) + 1) \<and> Commitment q = Latest))"
| "representable L c m _ = False"

lemma run_script_answered: "link R w = ([Answered], w) \<Longrightarrow> run_script R c w = c w"
  by (simp add: run_script_def)

subsection \<open>A small server\<close>

text \<open>A server and a codec that satisfy the laws.\<close>

fun to_lua :: "json \<Rightarrow> int lua" where
  "to_lua JNull = LNull"
| "to_lua (JBool b) = LBool b"
| "to_lua (JNum s) = LNum (case ParseUint 10 s of Inl _ \<Rightarrow> 0 | Inr n \<Rightarrow> uint n)"
| "to_lua (JStr s) = LStr s"
| "to_lua (JArr vs) = (if vs = [] then LTable [] else LArray (map to_lua vs))"
| "to_lua (JObj ms) = LTable (map (\<lambda>m. (fst m, to_lua (snd m))) ms)"

fun of_lua :: "int lua \<Rightarrow> json" where
  "of_lua LNil = JNull"
| "of_lua LNull = JNull"
| "of_lua (LBool b) = JBool b"
| "of_lua (LNum n) = JNum (show_u64 (word_of_int n))"
| "of_lua (LStr s) = JStr s"
| "of_lua (LTable t) = JObj (map (\<lambda>m. (fst m, of_lua (snd m))) t)"
| "of_lua (LArray vs) = JArr (map of_lua vs)"

definition sample_lua :: "int lua_lib" where
  "sample_lua = \<lparr>lua_int = id, lua_plus = (+), lua_tonumber = (\<lambda>_. None), lua_tostring = (\<lambda>n. show_u64 (word_of_int n)),
     lua_trunc = id, cj_decode = Some \<circ> to_lua, cj_encode = Some \<circ> of_lua\<rparr>"

record server =
  s_strings :: "(string \<times> string) list"
  s_counters :: "(string \<times> nat) list"
  s_hashes :: "(string \<times> (string \<times> raw) list) list"
  s_added :: "(string \<times> json list) list"

definition entry_or :: "'a \<Rightarrow> (string \<times> 'a) list \<Rightarrow> string \<Rightarrow> 'a" where
  "entry_or d xs k = (case map_of xs k of None \<Rightarrow> d | Some x \<Rightarrow> x)"

lemma entry_or_set [simp]: "entry_or d (map_set k x xs) k' = (if k' = k then x else entry_or d xs k')"
  by (simp add: entry_or_def)

definition sample_redis :: "server redis" where
  "sample_redis = \<lparr>
     EXISTS = (\<lambda>k w. (Inr (map_of (s_strings w) k \<noteq> None), w)),
     GET = (\<lambda>k w. (Inr (map_of (s_strings w) k), w)),
     INCR = (\<lambda>k w. let n = entry_or 0 (s_counters w) k + 1 in
        if small n then (Inr (int n), w\<lparr>s_counters := map_set k n (s_counters w)\<rparr>) else (Inl (RedisError ''overflow''), w)),
     PSETEX = (\<lambda>k ttl s w. (Inr (), w\<lparr>s_strings := map_set k s (s_strings w)\<rparr>)),
     PEXPIRE = (\<lambda>k ttl w. (Inr (), w)),
     DEL = (\<lambda>k w. (Inr 1, w\<lparr>s_strings := map_delete k (s_strings w)\<rparr>)),
     HGET = (\<lambda>k f w. (Inr (map_of (entry_or [] (s_hashes w) k) f), w)),
     HSET = (\<lambda>k f v w. (Inr (), w\<lparr>s_hashes := map_set k (map_set f (Some v) (entry_or [] (s_hashes w) k)) (s_hashes w)\<rparr>)),
     HGETALL = (\<lambda>k w. (Inr (entry_or [] (s_hashes w) k), w)),
     XADD = (\<lambda>k n v w. (Inr (), w\<lparr>s_added := map_set k (entry_or [] (s_added w) k @ [v]) (s_added w)\<rparr>)),
     XREVRANGE = (\<lambda>k w. (Inr [], w)), XREAD = (\<lambda>k c n t w. (Inl RedisNil, w)), XRANGE = (\<lambda>k c w. (Inr [], w)),
     PING = (\<lambda>w. (Inr (), w)), link = (\<lambda>w. ([Answered], w)), meanwhile = id\<rparr>"

abbreviation sample_stored :: "server \<Rightarrow> string \<Rightarrow> string \<Rightarrow> raw option" where
  "sample_stored w k \<equiv> map_of (entry_or [] (s_hashes w) k)"

abbreviation sample_lease :: "server \<Rightarrow> string \<Rightarrow> string option" where
  "sample_lease w \<equiv> map_of (s_strings w)"

abbreviation sample_counter :: "server \<Rightarrow> string \<Rightarrow> nat" where
  "sample_counter w \<equiv> entry_or 0 (s_counters w)"

lemma map_of_map_snd: "map_of (map (\<lambda>m. (fst m, f (snd m))) xs) k = map_option f (map_of xs k)"
  by (induction xs) auto

lemma bind_Some_map [simp]: "Option.bind x (\<lambda>v. Some (f v)) = map_option f x"
  by (cases x) simp_all

lemma sample_codec_laws: "codec_laws sample_lua"
proof -
  have "cj_decode sample_lua v = Some (to_lua v)" "cj_encode sample_lua y = Some (of_lua y)" for v y
    by (simp_all add: sample_lua_def)
  moreover have "distinct (map fst (map (\<lambda>m. (fst m, f (snd m))) xs)) \<longleftrightarrow> distinct (map fst xs)"
    for f :: "'x \<Rightarrow> 'y" and xs :: "(string \<times> 'x) list"
    by (simp add: o_def)
  ultimately show ?thesis
    by (simp add: codec_laws_def map_of_map_snd sample_lua_def o_def)
qed

lemma sample_hash_laws: "hash_laws sample_redis sample_stored"
  by (auto simp: hash_laws_def keeps_others_def sample_redis_def Let_def fun_eq_iff)

lemma sample_counter_laws: "counter_laws sample_redis"
  by (auto simp: counter_laws_def sample_redis_def Let_def nat_add_distrib split: if_splits)

lemma sample_value_laws: "value_laws sample_redis sample_lease sample_counter"
  by (auto simp: value_laws_def sample_redis_def Let_def)

lemma sample_trunc_law: "trunc_law sample_lua"
  by (simp add: trunc_law_def sample_lua_def)

lemma sample_redis_laws: "redis_laws sample_lua sample_redis sample_stored (\<lambda>_. id)"
  by (simp add: redis_laws_def sample_codec_laws sample_hash_laws sample_counter_laws)


definition sample_settings :: redis_store where
  "sample_settings = \<lparr>prefix = ''p'', streamMax = 100\<rparr>"

definition sample_server :: server where
  "sample_server = \<lparr>s_strings = [(redis_key sample_settings ''c'' ''leader'', ''o:'' @ show_u64 1)],
     s_counters = [(redis_key sample_settings ''c'' ''generation'', 2)],
     s_hashes = [(redis_key sample_settings ''c'' ''heads'',
       [(''latest'', Some (marshal_head sample_show_time (sample_head\<lparr>Generation := 2\<rparr>)))])],
     s_added = []\<rparr>"

lemma sample_represents:
  "represents sample_settings sample_show_time sample_stored sample_lease sample_counter 5 ''c'' sample_server sample_store"
proof -
  have "small_head (sample_head\<lparr>Generation := 2\<rparr>)" by (simp add: small_head_def small_def sample_head_def zero_head_def)
  then show ?thesis
    by (simp add: represents_def sample_server_def entry_or_def sample_store_leader)
      (simp add: sample_store_run put_head_def add_event_def NewMemoryStore_def sample_head_def Latest_def)
qed

lemma sample_accepted:
  "redis_accepted sample_settings sample_show_time sample_read_time sample_stored sample_server ''c'' = Some (sample_head\<lparr>Generation := 2\<rparr>)"
proof -
  have "text_of sample_show_time (sample_stored sample_server (redis_key sample_settings ''c'' ''heads'') ''latest'')
      (m_heads sample_store ''c'' ''latest'')"
    using sample_represents by (simp add: represents_def)
  then show ?thesis
    unfolding redis_accepted_def text_head_iff [OF sample_times]
    using sample_store_accepted by (simp only: Latest_def)
qed


subsection \<open>Snapshots\<close>

lemma run_script_state: "run_script R c w = (Inr y, w') \<Longrightarrow> \<exists>u. c u = (Inr y, w')"
proof -
  have "run_attempts idle c as u = (Inr y, w') \<Longrightarrow> \<exists>u. c u = (Inr y, w')" for idle as u
    by (induction idle c as u rule: run_attempts.induct) auto
  then show "run_script R c w = (Inr y, w') \<Longrightarrow> \<exists>u. c u = (Inr y, w')"
    by (auto simp: run_script_def split: prod.splits)
qed

lemma decode_heads_map_of:
  "decode_heads rt ms = Some hs \<Longrightarrow> map_of hs k = Option.bind (map_of ms k) (\<lambda>str. Option.bind str (unmarshal_head rt))"
  by (induction rt ms arbitrary: hs rule: decode_heads.induct) (auto simp: Option.bind_eq_Some_conv)

text \<open>A snapshot shows the texts stored when it was read.\<close>

lemma RedisStore_Snapshot_content:
  assumes "hash_laws R stored" "RedisStore_Snapshot R r rt c w = (Inr s, w')"
  shows "Get s k = Option.bind (stored w' (redis_key r c ''heads'') k) (\<lambda>str. Option.bind str (unmarshal_head rt))"
proof -
  from assms(2) obtain ms hs where run: "run_script R (HGETALL R (redis_key r c ''heads'')) w = (Inr ms, w')"
    and hs: "decode_heads rt ms = Some hs" and s: "s = \<lparr>sChain = c, sHeads = map_of hs\<rparr>"
    by (auto simp: RedisStore_Snapshot_def split: prod.splits sum.splits option.splits)
  obtain u where "HGETALL R (redis_key r c ''heads'') u = (Inr ms, w')" using run_script_state [OF run] by blast
  then have "map_of ms = stored w' (redis_key r c ''heads'')" using assms(1) unfolding hash_laws_def by metis
  then show ?thesis using decode_heads_map_of [OF hs, of k] s by (simp add: Get_def)
qed

lemma redis_accepted_Get:
  assumes "hash_laws R stored" "RedisStore_Snapshot R r rt c w = (Inr s, w')" "redis_accepted r sh rt stored w' c = Some h"
  shows "Get s Latest = Some h"
  using RedisStore_Snapshot_content [OF assms(1,2), of Latest] assms(3)
  by (auto simp: redis_accepted_def text_head_def Latest_def Option.bind_eq_Some_conv split: if_splits)

text \<open>Between two reads of equal epochs, the first not pending, no reorg begins.\<close>

lemma redis_equal_epochs:
  assumes laws: "redis_laws L R stored clock" and times: "\<And>t. rt (sh t) = Some t"
    and first: "RedisStore_Snapshot R r rt c wa = (Inr s1, w1)" "redis_accepted r sh rt stored w1 c \<noteq> None"
    and ops: "list_all (\<lambda>p. redis_op c (snd p)) (before @ after)"
    and second: "RedisStore_Snapshot R r rt c wb = (Inr s2, store_run (redis_step L R r sh clock) (before @ after) w1)"
    and heads: "Get s1 Latest = Some i" "\<not> ReorgPending i" "Get s2 Latest = Some l" "ReorgEpoch l = ReorgEpoch i"
    and room: "small (unat (ReorgEpoch i) + length (before @ after))"
  shows "redis_accepted r sh rt stored w1 c = Some i
    \<and> (\<exists>h. redis_accepted r sh rt stored (store_run (redis_step L R r sh clock) before w1) c = Some h
         \<and> ReorgEpoch h = ReorgEpoch i \<and> \<not> ReorgPending h)"
proof -
  have hash: "hash_laws R stored" using laws by (simp add: redis_laws_def)
  have store: "fenced_store (redis_step L R r sh clock) (redis_accepted r sh rt stored) redis_op small"
    by (rule redis_fenced_store [OF laws times])
  have acc: "redis_accepted r sh rt stored w1 c = Some i"
    using first redis_accepted_Get [OF hash first(1)] heads(1) by fastforce
  obtain h' where last: "redis_accepted r sh rt stored (store_run (redis_step L R r sh clock) (before @ after) w1) c = Some h'"
    using fenced_store.epoch_offset [OF store acc ops room] by blast
  then have "h' = l" using redis_accepted_Get [OF hash second] heads(3) by fastforce
  moreover have "length (before @ after) < 2 ^ 64" using room by (simp add: small_def)
  ultimately show ?thesis
    using fenced_store.equal_epochs_no_reorg [OF store acc heads(2) ops _ room last] heads(4) acc by blast
qed

end
