(* ===== verification/Telemetry.thy ===== *)
theory Telemetry
  imports Prelude
begin

text \<open>
  \<^verbatim>\<open>internal/telemetry/telemetry.go\<close>: the redaction of endpoint addresses and credentials in error texts
  and log attributes, and the life and counters of the metrics client. The two regular expressions are
  written as scanners with the meaning \<^verbatim>\<open>regexp\<close> gives them: the leftmost match, alternatives in their
  order, greedy runs, and case folding that includes the two letters outside ASCII that fold to \<^verbatim>\<open>s\<close>
  and \<^verbatim>\<open>k\<close>. Strings are bytes; every character class of the patterns excludes ASCII bytes only, so that
  bytes and runes give the same runs. The Datadog clients are third-party: their answers are arguments.
\<close>

subsection \<open>Matching\<close>

text \<open>A pattern letter (in lower case) at the start of a text, and what follows it.\<close>

definition fold_letter :: "char \<Rightarrow> string \<Rightarrow> string option" where
  "fold_letter p xs =
     (case xs of
        [] \<Rightarrow> None
      | x # ys \<Rightarrow>
          if to_lower x = p then Some ys
          else if p = CHR ''s'' \<and> x = CHR 0xC5 \<and> HasPrefix ys [CHR 0xBF] then Some (drop 1 ys)
          else if p = CHR ''k'' \<and> x = CHR 0xE2 \<and> HasPrefix ys [CHR 0x84, CHR 0xAA] then Some (drop 2 ys)
          else None)"

fun strip_fold :: "string \<Rightarrow> string \<Rightarrow> string option" where
  "strip_fold [] xs = Some xs"
| "strip_fold (p # ps) xs = (case fold_letter p xs of None \<Rightarrow> None | Some ys \<Rightarrow> strip_fold ps ys)"

fun first_match :: "('a \<Rightarrow> 'b option) \<Rightarrow> 'a list \<Rightarrow> 'b option" where
  "first_match f [] = None"
| "first_match f (x # xs) = (case f x of None \<Rightarrow> first_match f xs | Some y \<Rightarrow> Some y)"

definition go_space :: "char \<Rightarrow> bool" where
  "go_space c \<longleftrightarrow> c \<in> set [CHR 0x09, CHR 0x0A, CHR 0x0C, CHR 0x0D, CHR '' '']"

definition url_char :: "char \<Rightarrow> bool" where
  "url_char c \<longleftrightarrow> \<not> go_space c \<and> c \<notin> set [CHR 0x22, CHR ''<'', CHR ''>'']"

definition param_char :: "char \<Rightarrow> bool" where
  "param_char c \<longleftrightarrow> \<not> go_space c \<and> c \<noteq> CHR ''&''"

definition url_schemes :: "string list" where
  "url_schemes = [''https'', ''http'', ''wss'', ''ws'', ''rediss'', ''redis'']"

text \<open>A URL at the start of a text: what follows it.\<close>

definition match_url :: "string \<Rightarrow> string option" where
  "match_url xs = first_match (\<lambda>s.
     case strip_fold (s @ ''://'') xs of
       None \<Rightarrow> None
     | Some ys \<Rightarrow> if takeWhile url_char ys = [] then None else Some (dropWhile url_char ys)) url_schemes"

definition secret_names :: "string list" where
  "secret_names = [''api_key'', ''api-key'', ''apikey'', ''token'', ''secret'', ''password'', ''authorization'']"

text \<open>A credential at the start of a text: its name as written, its value, what follows it.\<close>

definition match_param :: "string \<Rightarrow> (string \<times> string \<times> string) option" where
  "match_param xs = first_match (\<lambda>s.
     case strip_fold s xs of
       None \<Rightarrow> None
     | Some zs \<Rightarrow>
         (case zs of
            [] \<Rightarrow> None
          | c # ys \<Rightarrow>
              if c \<noteq> CHR ''='' \<or> takeWhile param_char ys = [] then None
              else Some (take (length xs - length zs) xs, takeWhile param_char ys, dropWhile param_char ys))) secret_names"

lemma fold_letter_drop:
  assumes "fold_letter p xs = Some ys"
  shows "xs \<noteq> [] \<and> (\<exists>n. ys = drop (Suc n) xs)"
proof -
  obtain x zs where xs: "xs = x # zs" using assms by (cases xs) (auto simp: fold_letter_def)
  then have "ys = drop 0 zs \<or> ys = drop 1 zs \<or> ys = drop 2 zs"
    using assms by (auto simp: fold_letter_def split: if_splits)
  then obtain n where "ys = drop n zs" by blast
  then show ?thesis using xs by auto
qed

lemma strip_fold_drop: "strip_fold p xs = Some ys \<Longrightarrow> \<exists>n. ys = drop n xs \<and> (p \<noteq> [] \<longrightarrow> 0 < n \<and> xs \<noteq> [])"
proof (induction p arbitrary: xs)
  case (Cons c p)
  then obtain zs where zs: "fold_letter c xs = Some zs" "strip_fold p zs = Some ys" by (auto split: option.splits)
  obtain n where n: "xs \<noteq> []" "zs = drop (Suc n) xs" using fold_letter_drop [OF zs(1)] by blast
  obtain m where "ys = drop m zs" using Cons.IH [OF zs(2)] by blast
  then have "ys = drop (m + Suc n) xs" using n(2) by simp
  then show ?case using n(1) by (intro exI [of _ "m + Suc n"]) simp
qed (simp add: exI [of _ 0])

lemma first_match_Some: "first_match f xs = Some y \<Longrightarrow> \<exists>x \<in> set xs. f x = Some y"
  by (induction xs) (auto split: option.splits)

lemma first_match_None: "first_match f xs = None \<longleftrightarrow> (\<forall>x \<in> set xs. f x = None)"
  by (induction xs) (auto split: option.splits)

lemma match_url_Some:
  assumes "match_url xs = Some rest"
  obtains s ys where "s \<in> set url_schemes" "strip_fold (s @ ''://'') xs = Some ys" "takeWhile url_char ys \<noteq> []"
    "rest = dropWhile url_char ys"
proof -
  obtain s where s: "s \<in> set url_schemes" "(case strip_fold (s @ ''://'') xs of None \<Rightarrow> None
     | Some ys \<Rightarrow> if takeWhile url_char ys = [] then None else Some (dropWhile url_char ys)) = Some rest"
    using first_match_Some [OF assms [unfolded match_url_def]] by blast
  then show thesis using that by (cases "strip_fold (s @ ''://'') xs") (simp_all split: if_splits)
qed

lemma match_url_None:
  "match_url xs = None \<longleftrightarrow> (\<forall>s \<in> set url_schemes. \<forall>ys. strip_fold (s @ ''://'') xs = Some ys \<longrightarrow> takeWhile url_char ys = [])"
  unfolding match_url_def first_match_None by (auto split: option.splits)

lemma match_param_Some:
  assumes "match_param xs = Some (nm, v, rest)"
  obtains s ys where "s \<in> set secret_names" "strip_fold s xs = Some (CHR ''='' # ys)" "xs = nm @ CHR ''='' # ys"
    "v = takeWhile param_char ys" "v \<noteq> []" "rest = dropWhile param_char ys"
proof -
  obtain s where s1: "s \<in> set secret_names" "(case strip_fold s xs of None \<Rightarrow> None | Some zs \<Rightarrow> (case zs of [] \<Rightarrow> None
      | c # ys \<Rightarrow> if c \<noteq> CHR ''='' \<or> takeWhile param_char ys = [] then None
       else Some (take (length xs - length zs) xs, takeWhile param_char ys, dropWhile param_char ys))) = Some (nm, v, rest)"
    using first_match_Some [OF assms [unfolded match_param_def]] by blast
  then obtain zs where s: "s \<in> set secret_names" "strip_fold s xs = Some zs" by (cases "strip_fold s xs") simp_all
  have z: "(case zs of [] \<Rightarrow> None | c # ys \<Rightarrow> if c \<noteq> CHR ''='' \<or> takeWhile param_char ys = [] then None
       else Some (take (length xs - length zs) xs, takeWhile param_char ys, dropWhile param_char ys)) = Some (nm, v, rest)"
    using s1(2) s(2) by (simp only: option.case)
  obtain c ys where zs: "zs = c # ys" using z by (cases zs) simp_all
  have "c = CHR ''='' \<and> takeWhile param_char ys \<noteq> [] \<and> nm = take (length xs - length zs) xs
      \<and> v = takeWhile param_char ys \<and> rest = dropWhile param_char ys"
    using z unfolding zs by (auto split: if_splits)
  then have ys: "zs = CHR ''='' # ys" "takeWhile param_char ys \<noteq> []" "nm = take (length xs - length zs) xs"
    "v = takeWhile param_char ys" "rest = dropWhile param_char ys"
    using zs by simp_all
  obtain n where n: "zs = drop n xs" using strip_fold_drop [OF s(2)] by blast
  then have "n \<le> length xs" using ys(1) by (cases "n \<le> length xs") simp_all
  then have "nm = take n xs" using n ys(3) by simp
  then have "xs = nm @ CHR ''='' # ys" using n ys(1) append_take_drop_id [of n xs] by simp
  then show thesis using that s ys by blast
qed

lemma match_param_None:
  "match_param xs = None \<longleftrightarrow> (\<forall>s \<in> set secret_names. \<forall>ys. strip_fold s xs = Some (CHR ''='' # ys) \<longrightarrow> takeWhile param_char ys = [])"
  unfolding match_param_def first_match_None by (auto split: option.splits list.splits)

lemma length_match_url: "match_url xs = Some rest \<Longrightarrow> length rest < length xs"
proof -
  assume "match_url xs = Some rest"
  then obtain s ys where m: "strip_fold (s @ ''://'') xs = Some ys" "rest = dropWhile url_char ys"
    by (rule match_url_Some) blast
  then obtain n where "ys = drop n xs" "0 < n" "xs \<noteq> []" using strip_fold_drop [OF m(1)] by auto
  then have "length ys < length xs" by (cases xs) auto
  then show ?thesis using m(2) length_dropWhile_le [of url_char ys] by simp
qed

lemma length_match_param: "match_param xs = Some (nm, v, rest) \<Longrightarrow> length rest < length xs"
proof -
  assume "match_param xs = Some (nm, v, rest)"
  then obtain s ys where m: "xs = nm @ CHR ''='' # ys" "rest = dropWhile param_char ys" by (rule match_param_Some) blast
  then show ?thesis using length_dropWhile_le [of param_char ys] by simp
qed

subsection \<open>Redaction\<close>

function redact_urls :: "string \<Rightarrow> string" where
  "redact_urls [] = []"
| "redact_urls (c # cs) =
     (case match_url (c # cs) of
        Some rest \<Rightarrow> ''[REDACTED_URL]'' @ redact_urls rest
      | None \<Rightarrow> c # redact_urls cs)"
  by pat_completeness auto
termination
  by (relation "measure length") (auto dest: length_match_url)

function redact_params :: "string \<Rightarrow> string" where
  "redact_params [] = []"
| "redact_params (c # cs) =
     (case match_param (c # cs) of
        Some (nm, v, rest) \<Rightarrow> nm @ ''=[REDACTED]'' @ redact_params rest
      | None \<Rightarrow> c # redact_params cs)"
  by pat_completeness auto
termination
  by (relation "measure length") (auto dest: length_match_param)

definition redact :: "string \<Rightarrow> string" where
  "redact msg = redact_params (redact_urls msg)"

subsection \<open>What redaction leaves\<close>

text \<open>The characters of the replacements that no pattern letter matches.\<close>

definition marks :: "char set" where
  "marks = {CHR ''['', CHR ''=''}"

text \<open>An output that mirrors its input up to the next replacement.\<close>

definition mirrors :: "(string \<Rightarrow> string \<Rightarrow> bool) \<Rightarrow> bool" where
  "mirrors rel \<longleftrightarrow> (\<forall>ys x out. rel ys (x # out) \<and> x \<notin> marks \<longrightarrow> (\<exists>ys'. ys = x # ys' \<and> rel ys' out))"

lemma mirrorsD: "mirrors rel \<Longrightarrow> rel ys (x # out) \<Longrightarrow> x \<notin> marks \<Longrightarrow> \<exists>ys'. ys = x # ys' \<and> rel ys' out"
  by (auto simp: mirrors_def)

lemma to_lower_marks: "to_lower x \<notin> marks \<Longrightarrow> x \<notin> marks"
  by (auto simp: marks_def to_lower_def)

lemma bytes_not_marks [simp]:
  "CHR 0xC5 \<notin> marks" "CHR 0xBF \<notin> marks" "CHR 0xE2 \<notin> marks" "CHR 0x84 \<notin> marks" "CHR 0xAA \<notin> marks"
  by (simp_all add: marks_def)

lemma HasPrefix_Cons: "HasPrefix xs (c # p) \<longleftrightarrow> (\<exists>ys. xs = c # ys \<and> HasPrefix ys p)"
  by (cases xs) (auto simp: HasPrefix_def)

lemma HasPrefix_Nil [simp]: "HasPrefix xs []"
  by (simp add: HasPrefix_def)

lemma fold_letter_mirror:
  assumes m: "mirrors rel" and "rel ys out" "fold_letter p out = Some out'" "p \<notin> marks"
  shows "\<exists>z. fold_letter p ys = Some z \<and> rel z out'"
proof -
  obtain x t where out: "out = x # t" using assms(3) by (cases out) (auto simp: fold_letter_def)
  consider (same) "to_lower x = p" "out' = t"
    | (s) u where "to_lower x \<noteq> p" "p = CHR ''s''" "x = CHR 0xC5" "t = CHR 0xBF # u" "out' = u"
    | (k) u where "to_lower x \<noteq> p" "p = CHR ''k''" "x = CHR 0xE2" "t = CHR 0x84 # CHR 0xAA # u" "out' = u"
    using assms(3) out by (auto simp: fold_letter_def HasPrefix_Cons split: if_splits)
  then show ?thesis
  proof cases
    case same
    then have "x \<notin> marks" using assms(4) to_lower_marks by simp
    then obtain ys' where "ys = x # ys'" "rel ys' t" using mirrorsD [OF m] assms(2) out by blast
    then show ?thesis using same by (simp add: fold_letter_def)
  next
    case s
    then obtain ys1 where y1: "ys = x # ys1" "rel ys1 t" using mirrorsD [OF m, of ys x t] assms(2) out by auto
    then obtain ys2 where "ys1 = CHR 0xBF # ys2" "rel ys2 u" using mirrorsD [OF m, of ys1 "CHR 0xBF" u] s by auto
    then show ?thesis using s y1 by (auto simp: fold_letter_def HasPrefix_Cons)
  next
    case k
    then obtain ys1 where y1: "ys = x # ys1" "rel ys1 t" using mirrorsD [OF m, of ys x t] assms(2) out by auto
    then obtain ys2 where y2: "ys1 = CHR 0x84 # ys2" "rel ys2 (CHR 0xAA # u)" using mirrorsD [OF m, of ys1 "CHR 0x84" "CHR 0xAA # u"] k by auto
    then obtain ys3 where "ys2 = CHR 0xAA # ys3" "rel ys3 u" using mirrorsD [OF m, of ys2 "CHR 0xAA" u] by auto
    then show ?thesis using k y1 y2 by (auto simp: fold_letter_def HasPrefix_Cons)
  qed
qed

lemma strip_fold_mirror:
  assumes "mirrors rel"
  shows "rel ys out \<Longrightarrow> strip_fold p out = Some out' \<Longrightarrow> set p \<inter> marks = {} \<Longrightarrow> \<exists>z. strip_fold p ys = Some z \<and> rel z out'"
proof (induction p arbitrary: ys out)
  case (Cons c p)
  obtain o1 where o1: "fold_letter c out = Some o1" "strip_fold p o1 = Some out'" using Cons.prems(2) by (auto split: option.splits)
  obtain z1 where "fold_letter c ys = Some z1" "rel z1 o1"
    using fold_letter_mirror [OF assms Cons.prems(1) o1(1)] Cons.prems(3) by auto
  then show ?case using Cons.IH [OF _ o1(2)] Cons.prems(3) by auto
qed simp

text \<open>What a pattern without \<^verbatim>\<open>=\<close> consumes has none.\<close>

lemma fold_letter_consumes:
  assumes "fold_letter p xs = Some ys" "p \<noteq> CHR ''=''"
  shows "\<exists>a. xs = a @ ys \<and> CHR ''='' \<notin> set a"
proof -
  obtain x t where xs: "xs = x # t" using assms by (cases xs) (auto simp: fold_letter_def)
  have eq: "to_lower (CHR ''='') = CHR ''=''" by (simp add: to_lower_def)
  consider "to_lower x = p" "ys = t" | "x = CHR 0xC5" "t = CHR 0xBF # ys" | "x = CHR 0xE2" "t = CHR 0x84 # CHR 0xAA # ys"
    using assms(1) xs by (auto simp: fold_letter_def HasPrefix_Cons split: if_splits)
  then show ?thesis
  proof cases
    case 1
    then have "x \<noteq> CHR ''=''" using assms(2) eq by auto
    then show ?thesis using xs 1 by (intro exI [of _ "[x]"]) simp
  next
    case 2
    then show ?thesis using xs by (intro exI [of _ "[CHR 0xC5, CHR 0xBF]"]) simp
  next
    case 3
    then show ?thesis using xs by (intro exI [of _ "[CHR 0xE2, CHR 0x84, CHR 0xAA]"]) simp
  qed
qed

lemma strip_fold_consumes: "strip_fold p xs = Some ys \<Longrightarrow> CHR ''='' \<notin> set p \<Longrightarrow> \<exists>a. xs = a @ ys \<and> CHR ''='' \<notin> set a"
proof (induction p arbitrary: xs)
  case (Cons c p)
  obtain zs where zs: "fold_letter c xs = Some zs" "strip_fold p zs = Some ys" using Cons.prems(1) by (auto split: option.splits)
  obtain a where a: "xs = a @ zs" "CHR ''='' \<notin> set a" using fold_letter_consumes [OF zs(1)] Cons.prems(2) by auto
  obtain b where "zs = b @ ys" "CHR ''='' \<notin> set b" using Cons.IH [OF zs(2)] Cons.prems(2) by auto
  then show ?case using a by (intro exI [of _ "a @ b"]) simp
qed (simp add: exI [of _ "[]"])

lemma patterns_unmarked:
  "s \<in> set url_schemes \<Longrightarrow> set (s @ ''://'') \<inter> marks = {}" "s \<in> set secret_names \<Longrightarrow> set s \<inter> marks = {}"
  "s \<in> set secret_names \<Longrightarrow> CHR ''='' \<notin> set s \<and> s \<noteq> []"
  by (auto simp: url_schemes_def secret_names_def marks_def)

lemma match_param_parts:
  assumes "match_param xs = Some (nm, v, rest)"
  shows "xs = nm @ ''='' @ v @ rest \<and> CHR ''='' \<notin> set nm \<and> nm \<noteq> [] \<and> v \<noteq> [] \<and> (\<forall>c \<in> set v. param_char c)
    \<and> (rest = [] \<or> \<not> param_char (hd rest))"
proof -
  obtain s ys where m: "s \<in> set secret_names" "strip_fold s xs = Some (CHR ''='' # ys)" "xs = nm @ CHR ''='' # ys"
    "v = takeWhile param_char ys" "v \<noteq> []" "rest = dropWhile param_char ys"
    using assms by (rule match_param_Some)
  obtain a where a: "xs = a @ CHR ''='' # ys" "CHR ''='' \<notin> set a"
    using strip_fold_consumes [OF m(2)] patterns_unmarked(3) [OF m(1)] by blast
  obtain n where n: "CHR ''='' # ys = drop n xs" "0 < n" "xs \<noteq> []"
    using strip_fold_drop [OF m(2)] patterns_unmarked(3) [OF m(1)] by auto
  have "length (CHR ''='' # ys) < length xs" using n by (cases xs) auto
  then have "nm \<noteq> []" using m(3) by auto
  moreover have "nm = a" using a(1) m(3) by simp
  moreover have "rest = [] \<or> \<not> param_char (hd rest)" using m(6) hd_dropWhile by blast
  ultimately show ?thesis using a(2) m by (auto dest: set_takeWhileD)
qed

lemma first_mark: "a @ CHR ''='' # u = b @ CHR ''='' # w \<Longrightarrow> CHR ''='' \<notin> set a \<Longrightarrow> CHR ''='' \<notin> set b \<Longrightarrow> a = b \<and> u = w"
  by (induction a arbitrary: b) (case_tac [!] b, auto)

text \<open>The first pass.\<close>

lemma mirrors_urls: "mirrors (\<lambda>ys out. out = redact_urls ys)"
proof -
  have "\<exists>ys'. ys = x # ys' \<and> out = redact_urls ys'" if "x # out = redact_urls ys" "x \<noteq> CHR ''[''" for ys x out
    using that by (cases ys) (auto split: option.splits)
  then show ?thesis by (simp add: mirrors_def marks_def)
qed

lemma not_url_char_fold: "\<not> url_char x \<Longrightarrow> to_lower x = x"
  by (auto simp: url_char_def go_space_def to_lower_def)

lemma match_url_head: "match_url (x # xs) \<noteq> None \<Longrightarrow> url_char x"
proof -
  assume "match_url (x # xs) \<noteq> None"
  then obtain s ys where s: "s \<in> set url_schemes" "strip_fold (s @ ''://'') (x # xs) = Some ys" by (auto elim: match_url_Some)
  then obtain c s' where c: "s = c # s'" "c \<in> set [CHR ''h'', CHR ''w'', CHR ''r'']" by (auto simp: url_schemes_def)
  then have "to_lower x = c" using s(2) by (auto simp: fold_letter_def split: option.splits if_splits)
  then show ?thesis using c(2) not_url_char_fold [of x] by (auto simp: url_char_def go_space_def)
qed

lemma redact_urls_head: "takeWhile url_char (redact_urls z) \<noteq> [] \<Longrightarrow> takeWhile url_char z \<noteq> []"
  using match_url_head by (cases z) (auto split: option.splits if_splits)

lemma match_url_not_mark: "match_url (CHR ''['' # xs) = None"
  by (simp add: match_url_None url_schemes_def fold_letter_def to_lower_def)

lemma redact_urls_none: "match_url (redact_urls ys) = None"
proof (rule ccontr)
  assume a: "match_url (redact_urls ys) \<noteq> None"
  then obtain s z' where s: "s \<in> set url_schemes" "strip_fold (s @ ''://'') (redact_urls ys) = Some z'" "takeWhile url_char z' \<noteq> []"
    by (auto elim: match_url_Some)
  obtain z where z: "strip_fold (s @ ''://'') ys = Some z" "z' = redact_urls z"
    using strip_fold_mirror [OF mirrors_urls refl s(2) patterns_unmarked(1) [OF s(1)]] by blast
  then have "match_url ys \<noteq> None" using s redact_urls_head by (auto simp: match_url_None)
  then obtain rest where rest: "match_url ys = Some rest" by blast
  have "match_url [] = None" by (simp add: match_url_None url_schemes_def fold_letter_def)
  then have "redact_urls ys = CHR ''['' # (''REDACTED_URL]'' @ redact_urls rest)" using rest by (cases ys) auto
  then show False using a match_url_not_mark by metis
qed

lemma lower_constants [simp]:
  "to_lower CHR ''R'' = CHR ''r''"
  "to_lower CHR ''E'' = CHR ''e''"
  "to_lower CHR ''D'' = CHR ''d''"
  "to_lower CHR ''A'' = CHR ''a''"
  "to_lower CHR ''C'' = CHR ''c''"
  "to_lower CHR ''T'' = CHR ''t''"
  "to_lower CHR ''U'' = CHR ''u''"
  "to_lower CHR ''L'' = CHR ''l''"
  "to_lower CHR ''['' = CHR ''[''" "to_lower CHR '']'' = CHR '']''" "to_lower CHR ''_'' = CHR ''_''" "to_lower CHR ''='' = CHR ''=''"
  by code_simp+

lemma constant_urls: "0 < k \<Longrightarrow> k < 14 \<Longrightarrow> match_url (drop k (''[REDACTED_URL]'' @ t)) = None"
proof -
  assume "0 < k" "k < 14"
  then have "k \<in> set [1..<14]" by simp
  then have "k \<in> {1, 2, 3, 4, 5, 6, 7, 8, 9, 10, 11, 12, 13}" by (simp add: upt_rec numeral_eq_Suc)
  then show ?thesis
    by (elim insertE emptyE) (simp_all add: match_url_None url_schemes_def fold_letter_def)
qed

lemma drop_past: "n = length a \<Longrightarrow> n \<le> i \<Longrightarrow> drop i (a @ b) = drop (i - n) b"
  by simp

lemma redact_urls_all: "match_url (drop i (redact_urls ys)) = None"
proof (induction ys arbitrary: i rule: redact_urls.induct)
  case 1
  then show ?case using redact_urls_none [of "[]"] by simp
next
  case (2 c cs)
  show ?case
  proof (cases "match_url (c # cs)")
    case None
    then show ?thesis using 2(1) [OF None] redact_urls_none [of "c # cs"] by (cases i) auto
  next
    case (Some rest)
    then have out: "redact_urls (c # cs) = ''[REDACTED_URL]'' @ redact_urls rest" by simp
    consider "i = 0" | "0 < i" "i < 14" | "14 \<le> i" by linarith
    then show ?thesis
    proof cases
      case 1
      then show ?thesis using redact_urls_none [of "c # cs"] by simp
    next
      case 2
      show ?thesis unfolding out by (rule constant_urls [OF 2])
    next
      case 3
      then show ?thesis using 2(2) [OF Some, of "i - 14"] drop_past [of 14 "''[REDACTED_URL]''" i] unfolding out by simp
    qed
  qed
qed

text \<open>The second pass.\<close>

definition copied :: "string \<Rightarrow> string \<Rightarrow> bool" where
  "copied ys out \<longleftrightarrow> out = redact_params ys
     \<or> (\<exists>nm v rest. ys = nm @ ''='' @ v @ rest \<and> out = nm @ ''=[REDACTED]'' @ redact_params rest
          \<and> CHR ''='' \<notin> set nm \<and> (rest = [] \<or> \<not> param_char (hd rest)))"

lemma copied_matched:
  assumes "match_param ys = Some (nm, v, rest)"
  shows "redact_params ys = nm @ ''=[REDACTED]'' @ redact_params rest"
proof -
  have "ys \<noteq> []" using match_param_parts [OF assms] by auto
  then show ?thesis using assms by (cases ys) auto
qed

lemma mirrors_copied: "mirrors copied"
  unfolding mirrors_def
proof (intro allI impI)
  fix ys x out
  assume a: "copied ys (x # out) \<and> x \<notin> marks"
  have second: "\<exists>ys'. ys = x # ys' \<and> copied ys' out"
    if s: "ys = nm @ ''='' @ v @ rest" "x # out = nm @ ''=[REDACTED]'' @ redact_params rest" "CHR ''='' \<notin> set nm"
      "rest = [] \<or> \<not> param_char (hd rest)" for nm v rest
  proof -
    have "nm \<noteq> []" using s(2) a by (auto simp: marks_def)
    then obtain nm' where nm: "nm = x # nm'" using s(2) by (cases nm) auto
    then have "copied (nm' @ ''='' @ v @ rest) out" using s unfolding copied_def by auto
    then show ?thesis using s(1) nm by simp
  qed
  show "\<exists>ys'. ys = x # ys' \<and> copied ys' out"
  proof (cases "x # out = redact_params ys")
    case True
    show ?thesis
    proof (cases "match_param ys")
      case None
      then show ?thesis using True by (cases ys) (auto simp: copied_def)
    next
      case (Some p)
      then obtain nm v rest where m: "match_param ys = Some (nm, v, rest)" by (cases p) auto
      then show ?thesis using second match_param_parts [OF m] copied_matched [OF m] True by simp
    qed
  next
    case False
    then show ?thesis using a second unfolding copied_def by blast
  qed
qed

lemma redact_params_head:
  "redact_params z = [] \<longleftrightarrow> z = []" "z \<noteq> [] \<Longrightarrow> hd (redact_params z) = hd z"
proof -
  have h: "redact_params (c # cs) \<noteq> [] \<and> hd (redact_params (c # cs)) = c" for c cs
  proof (cases "match_param (c # cs)")
    case (Some p)
    then obtain nm v rest where m: "match_param (c # cs) = Some (nm, v, rest)" by (cases p) auto
    then have "nm \<noteq> []" "c # cs = nm @ ''='' @ v @ rest" using match_param_parts [OF m] by auto
    then show ?thesis using copied_matched [OF m] by (cases nm) auto
  qed simp
  show "redact_params z = [] \<longleftrightarrow> z = []" using h by (cases z) auto
  show "z \<noteq> [] \<Longrightarrow> hd (redact_params z) = hd z" using h by (cases z) auto
qed

lemma copied_head:
  assumes "copied z w" "w \<noteq> []"
  shows "z \<noteq> [] \<and> hd z = hd w"
proof (cases "w = redact_params z")
  case True
  then show ?thesis using redact_params_head [of z] assms(2) by simp
next
  case False
  then obtain nm v rest where "z = nm @ ''='' @ v @ rest" "w = nm @ ''=[REDACTED]'' @ redact_params rest"
    using assms(1) unfolding copied_def by blast
  then show ?thesis by (cases nm) simp_all
qed

lemma takeWhile_head: "takeWhile P xs \<noteq> [] \<longleftrightarrow> xs \<noteq> [] \<and> P (hd xs)"
  by (cases xs) auto

lemma value_of_constant:
  "rest = [] \<or> \<not> param_char (hd rest) \<Longrightarrow> takeWhile param_char (''[REDACTED]'' @ redact_params rest) = ''[REDACTED]''"
proof -
  assume a: "rest = [] \<or> \<not> param_char (hd rest)"
  have "takeWhile param_char (redact_params rest) = []"
    using a redact_params_head [of rest] takeWhile_head [of param_char "redact_params rest"] by auto
  then show ?thesis by (simp add: param_char_def go_space_def)
qed

lemma copied_cases:
  assumes "copied ys out"
  obtains (replaced) nm rest where "out = nm @ ''=[REDACTED]'' @ redact_params rest" "CHR ''='' \<notin> set nm"
      "rest = [] \<or> \<not> param_char (hd rest)"
  | (kept) "out = redact_params ys" "match_param ys = None"
proof (cases "out = redact_params ys")
  case True
  show thesis
  proof (cases "match_param ys")
    case None
    then show thesis using kept True by blast
  next
    case (Some p)
    then obtain nm v rest where m: "match_param ys = Some (nm, v, rest)" by (cases p) auto
    show thesis by (rule replaced [of nm rest]) (use match_param_parts [OF m] copied_matched [OF m] True in simp_all)
  qed
next
  case False
  then show thesis using assms replaced unfolding copied_def by blast
qed

text \<open>What follows a mirrored \<^verbatim>\<open>=\<close>: the replaced value, or a value of the input.\<close>

lemma copied_equals:
  assumes "copied z (CHR ''='' # w)" "takeWhile param_char w \<noteq> []"
  shows "takeWhile param_char w = ''[REDACTED]'' \<or> (\<exists>cs. z = CHR ''='' # cs \<and> takeWhile param_char cs \<noteq> [])"
  using assms(1)
proof (cases rule: copied_cases)
  case (replaced nm rest)
  then have "w = ''[REDACTED]'' @ redact_params rest" by (cases nm) auto
  then show ?thesis using value_of_constant [OF replaced(3)] by simp
next
  case kept
  then obtain cs where z: "z = CHR ''='' # cs" "w = redact_params cs" by (cases z) auto
  then have "takeWhile param_char cs \<noteq> []" using assms(2) redact_params_head [of cs] unfolding takeWhile_head by metis
  then show ?thesis using z by blast
qed

text \<open>Every credential left in a mirrored text has the replaced value.\<close>

lemma copied_value:
  assumes "copied ys out" "match_param out = Some (nm, v, r)"
  shows "v = ''[REDACTED]''"
proof -
  obtain s w where s: "s \<in> set secret_names" "strip_fold s out = Some (CHR ''='' # w)" "v = takeWhile param_char w" "v \<noteq> []"
    using assms(2) by (rule match_param_Some)
  from assms(1) show ?thesis
  proof (cases rule: copied_cases)
    case (replaced nm' rest)
    obtain a where "out = a @ CHR ''='' # w" "CHR ''='' \<notin> set a"
      using strip_fold_consumes [OF s(2)] patterns_unmarked(3) [OF s(1)] by blast
    then have "w = ''[REDACTED]'' @ redact_params rest" using first_mark [of a w nm'] replaced(1,2) by simp
    then show ?thesis using s(3) value_of_constant [OF replaced(3)] by simp
  next
    case kept
    obtain z where z: "strip_fold s ys = Some z" "copied z (CHR ''='' # w)"
      using strip_fold_mirror [OF mirrors_copied assms(1) s(2) patterns_unmarked(2) [OF s(1)]] by blast
    have "\<not> (\<exists>cs. z = CHR ''='' # cs \<and> takeWhile param_char cs \<noteq> [])"
      using kept(2) z(1) s(1) by (auto simp: match_param_None)
    then show ?thesis using copied_equals [OF z(2)] s(3,4) by blast
  qed
qed

lemma constant_params:
  assumes "0 < k" "k < 11"
  shows "match_param (drop k (''=[REDACTED]'' @ t)) = None" "match_url (drop k (''=[REDACTED]'' @ t)) = None"
proof -
  have "k \<in> set [1..<11]" using assms by simp
  then have k: "k \<in> {1, 2, 3, 4, 5, 6, 7, 8, 9, 10}" by (simp add: upt_rec numeral_eq_Suc)
  then show "match_param (drop k (''=[REDACTED]'' @ t)) = None"
    by (elim insertE emptyE) (simp_all add: match_param_None secret_names_def fold_letter_def)
  from k show "match_url (drop k (''=[REDACTED]'' @ t)) = None"
    by (elim insertE emptyE) (simp_all add: match_url_None url_schemes_def fold_letter_def)
qed

text \<open>A place of the second pass's output mirrors a place of its input, or is inside a replacement.\<close>

lemma places_matched:
  assumes m: "match_param ys = Some (nm, v, rest)"
    and rest: "\<And>k. (\<exists>j. copied (drop j rest) (drop k (redact_params rest)))
      \<or> match_param (drop k (redact_params rest)) = None \<and> match_url (drop k (redact_params rest)) = None"
  shows "(\<exists>j. copied (drop j ys) (drop i (redact_params ys)))
    \<or> match_param (drop i (redact_params ys)) = None \<and> match_url (drop i (redact_params ys)) = None"
proof -
  note parts = match_param_parts [OF m] and out = copied_matched [OF m]
  consider "i \<le> length nm" | "length nm < i" "i < length nm + 11" | "length nm + 11 \<le> i" by linarith
  then show ?thesis
  proof cases
    case 1
    have "drop i (nm @ ''='' @ v @ rest) = drop i nm @ ''='' @ v @ rest"
      "drop i (nm @ ''=[REDACTED]'' @ redact_params rest) = drop i nm @ ''=[REDACTED]'' @ redact_params rest"
      using 1 by simp_all
    moreover have "CHR ''='' \<notin> set (drop i nm)" using parts in_set_dropD by fast
    ultimately have "copied (drop i ys) (drop i (redact_params ys))"
      using parts unfolding out copied_def by metis
    then show ?thesis by blast
  next
    case 2
    have "drop i (nm @ ''=[REDACTED]'' @ redact_params rest) = drop (i - length nm) (''=[REDACTED]'' @ redact_params rest)"
      using 2 by (intro drop_past) simp_all
    moreover have "0 < i - length nm" "i - length nm < 11" using 2 by simp_all
    ultimately show ?thesis using constant_params unfolding out by simp
  next
    case 3
    have d: "drop i ((nm @ ''=[REDACTED]'') @ redact_params rest) = drop (i - (length nm + 11)) (redact_params rest)"
      using 3 by (intro drop_past) simp_all
    have "drop (length nm + 1 + length v + j) ys = drop j rest" for j
      using parts by (simp add: add.assoc)
    then have "copied (drop j rest) o' \<Longrightarrow> \<exists>j. copied (drop j ys) o'" for j o' by metis
    then show ?thesis using rest [of "i - (length nm + 11)"] d unfolding out by auto
  qed
qed

lemma places:
  "(\<exists>j. copied (drop j ys) (drop i (redact_params ys)))
   \<or> match_param (drop i (redact_params ys)) = None \<and> match_url (drop i (redact_params ys)) = None"
proof (induction ys arbitrary: i rule: redact_params.induct)
  case 1
  then show ?case by (auto simp: copied_def)
next
  case (2 c cs)
  show ?case
  proof (cases "match_param (c # cs)")
    case None
    then have out: "redact_params (c # cs) = c # redact_params cs" by simp
    show ?thesis
    proof (cases i)
      case 0
      then show ?thesis by (intro disjI1 exI [of _ 0]) (simp add: copied_def)
    next
      case (Suc k)
      have "copied (drop j cs) o' \<Longrightarrow> \<exists>j. copied (drop j (c # cs)) o'" for j o'
        by (rule exI [of _ "Suc j"]) simp
      then show ?thesis using 2(1) [OF None, of k] Suc out by auto
    qed
  next
    case (Some p)
    then obtain nm v rest where m: "match_param (c # cs) = Some (nm, v, rest)" by (cases p) auto
    show ?thesis by (rule places_matched [OF m 2(2) [OF m refl refl]])
  qed
qed

lemma copied_url: "copied ys out \<Longrightarrow> match_url out \<noteq> None \<Longrightarrow> match_url ys \<noteq> None"
proof -
  assume c: "copied ys out" and "match_url out \<noteq> None"
  then obtain s w where s: "s \<in> set url_schemes" "strip_fold (s @ ''://'') out = Some w" "takeWhile url_char w \<noteq> []"
    by (auto elim: match_url_Some)
  obtain z where z: "strip_fold (s @ ''://'') ys = Some z" "copied z w"
    using strip_fold_mirror [OF mirrors_copied c s(2) patterns_unmarked(1) [OF s(1)]] by blast
  have "takeWhile url_char z \<noteq> []" using copied_head [OF z(2)] s(3) unfolding takeWhile_head by metis
  then show ?thesis using z(1) s(1) by (auto simp: match_url_None)
qed

lemma unmatched_urls: "(\<And>i. match_url (drop i xs) = None) \<Longrightarrow> redact_urls xs = xs"
proof (induction xs)
  case (Cons c cs)
  have "match_url (drop i cs) = None" for i using Cons.prems [of "Suc i"] by simp
  then show ?case using Cons.IH Cons.prems [of 0] by simp
qed simp

lemma replaced_params:
  "(\<And>i nm v rest. match_param (drop i xs) = Some (nm, v, rest) \<Longrightarrow> v = ''[REDACTED]'') \<Longrightarrow> redact_params xs = xs"
proof (induction xs rule: redact_params.induct)
  case (2 c cs)
  show ?case
  proof (cases "match_param (c # cs)")
    case None
    have "v = ''[REDACTED]''" if "match_param (drop i cs) = Some (nm, v, rest)" for i nm v rest
      using 2(3) [of "Suc i" nm v rest] that by simp
    then show ?thesis using 2(1) [OF None] None by simp
  next
    case (Some p)
    then obtain nm v rest where m: "match_param (c # cs) = Some (nm, v, rest)" by (cases p) auto
    note parts = match_param_parts [OF m]
    have v: "v = ''[REDACTED]''" using 2(3) [of 0 nm v rest] m by simp
    have d: "drop (length nm + 1 + length v + j) (c # cs) = drop j rest" for j
      using parts by (simp add: add.assoc)
    have "redact_params rest = rest"
      using 2(2) [OF m refl refl] 2(3) d by metis
    then show ?thesis using copied_matched [OF m] parts v by simp
  qed
qed simp

lemma redact_no_url: "match_url (drop i (redact msg)) = None"
  using places [of "redact_urls msg" i] copied_url redact_urls_all unfolding redact_def by blast

lemma redact_values: "match_param (drop i (redact msg)) = Some (nm, v, rest) \<Longrightarrow> v = ''[REDACTED]''"
  using places [of "redact_urls msg" i] copied_value unfolding redact_def by fastforce

lemma redact_idempotent: "redact (redact msg) = redact msg"
  using unmatched_urls [OF redact_no_url] replaced_params [of "redact msg", OF redact_values] redact_def [of "redact msg"] by simp



subsection \<open>Log attributes\<close>

text \<open>A log attribute: an error, a string, or another value, which is left alone. A rewritten error is a
  string, which the second check rewrites again.\<close>

datatype 'a attribute = AttrError string | AttrString string | AttrOther 'a

definition replaceAttr :: "'a attribute \<Rightarrow> 'a attribute" where
  "replaceAttr attr =
     (let attr1 = (case attr of AttrError msg \<Rightarrow> AttrString (redact msg) | _ \<Rightarrow> attr) in
      case attr1 of AttrString msg \<Rightarrow> AttrString (redact msg) | _ \<Rightarrow> attr1)"

subsection \<open>The metrics client\<close>

text \<open>The Datadog packages that run in the process, the fields of the service, and what it submits. The
  answers of the packages are arguments (\<open>None\<close> for no error).\<close>

datatype service = Statsd | Tracer | Profiler

record telemetry =
  stats :: bool
  trace :: bool
  profiling :: bool
  activeHTTP :: "64 word"
  metricErrs :: "64 word"

definition idle_telemetry :: telemetry where
  "idle_telemetry = \<lparr>stats = False, trace = False, profiling = False, activeHTTP = 0, metricErrs = 0\<rparr>"

definition NewTelemetry :: "bool \<Rightarrow> bool \<Rightarrow> string option \<Rightarrow> string option \<Rightarrow> string option \<Rightarrow> service set \<Rightarrow>
    (string list + telemetry) \<times> service set" where
  "NewTelemetry enabled profilingEnabled stats_err profiler_err close_err running =
     (if \<not> enabled then (Inr idle_telemetry, running)
      else
        (case stats_err of
           Some e \<Rightarrow> (Inl [''create dogstatsd client: '' @ e], running)
         | None \<Rightarrow>
             let t = idle_telemetry\<lparr>stats := True, trace := True\<rparr>;
                 running1 = insert Tracer (insert Statsd running) in
             if profilingEnabled
             then
               (case profiler_err of
                  Some e \<Rightarrow>
                    (let running2 = running1 - {Statsd} - {Tracer} in
                     case close_err of
                       Some c \<Rightarrow> (Inl [''start datadog profiler: '' @ e, ''close dogstatsd client: '' @ c], running2)
                     | None \<Rightarrow> (Inl [''start datadog profiler: '' @ e], running2))
                | None \<Rightarrow> (Inr (t\<lparr>profiling := True\<rparr>), insert Profiler running1))
             else (Inr t, running1)))"

definition Close_telemetry :: "string option \<Rightarrow> telemetry \<Rightarrow> service set \<Rightarrow> string list \<times> service set" where
  "Close_telemetry close_err t running =
     (let running1 = (if profiling t then running - {Profiler} else running);
          running2 = (if trace t then running1 - {Tracer} else running1) in
      if stats t then ((case close_err of None \<Rightarrow> [] | Some e \<Rightarrow> [''close dogstatsd client: '' @ e]), running2 - {Statsd})
      else ([], running2))"

lemma NewTelemetry_failed: "NewTelemetry b p se pe ce {} = (Inl es, running) \<Longrightarrow> running = {} \<and> es \<noteq> []"
  by (auto simp: NewTelemetry_def Let_def split: if_splits option.splits)

lemma Close_telemetry_stops: "NewTelemetry b p se pe ce {} = (Inr t, running) \<Longrightarrow> snd (Close_telemetry e t running) = {}"
  by (auto simp: NewTelemetry_def Close_telemetry_def idle_telemetry_def Let_def split: if_splits option.splits)

text \<open>A submission, common to \<^verbatim>\<open>Count\<close>, \<^verbatim>\<open>Gauge\<close> and \<^verbatim>\<open>Distribution\<close>: what is sent, and the local count of
  failures.\<close>

definition submit :: "'m \<Rightarrow> bool \<Rightarrow> telemetry \<Rightarrow> 'm list \<times> telemetry" where
  "submit m failed t =
     (if \<not> stats t then ([], t)
      else if failed then ([m], t\<lparr>metricErrs := metricErrs t + 1\<rparr>) else ([m], t))"

definition HTTPStarted :: "bool \<Rightarrow> telemetry \<Rightarrow> 64 word list \<times> telemetry" where
  "HTTPStarted failed t = (let n = activeHTTP t + 1 in submit n failed (t\<lparr>activeHTTP := n\<rparr>))"

definition HTTPFinished :: "bool \<Rightarrow> telemetry \<Rightarrow> 64 word list \<times> telemetry" where
  "HTTPFinished failed t = (let n = activeHTTP t - 1 in submit n failed (t\<lparr>activeHTTP := n\<rparr>))"

lemma HTTP_balanced: "activeHTTP (snd (HTTPFinished f (snd (HTTPStarted g t)))) = activeHTTP t"
  by (simp add: HTTPFinished_def HTTPStarted_def submit_def Let_def)

subsection \<open>Spans\<close>

text \<open>\<^verbatim>\<open>strings.Cut\<close> at the first colon; a tag without one is dropped.\<close>

definition cut_tag :: "string \<Rightarrow> (string \<times> string) option" where
  "cut_tag tag =
     (if CHR '':'' \<in> set tag
      then Some (takeWhile (\<lambda>c. c \<noteq> CHR '':'') tag, tl (dropWhile (\<lambda>c. c \<noteq> CHR '':'') tag)) else None)"

definition span_tags :: "string list \<Rightarrow> (string \<times> string) list" where
  "span_tags tags = map the (filter (\<lambda>t. t \<noteq> None) (map cut_tag tags))"

text \<open>What a span is given when it starts and when it finishes, besides its duration; nothing without a
  tracer.\<close>

definition Span :: "telemetry \<Rightarrow> string list \<Rightarrow> (string \<times> string) list" where
  "Span t tags = (if \<not> trace t then [] else span_tags tags)"

definition FinishSpan :: "telemetry \<Rightarrow> string option \<Rightarrow> string list \<Rightarrow> (string \<times> string) list" where
  "FinishSpan t err extra =
     (if \<not> trace t then []
      else span_tags extra @ (case err of None \<Rightarrow> [] | Some e \<Rightarrow> [(''error'', redact e)]))"

text \<open>An error is logged and traced with its redaction.\<close>

lemma replaceAttr_error: "replaceAttr (AttrError msg) = AttrString (redact msg)"
  by (simp add: replaceAttr_def redact_idempotent)

end
