(* ===== verification/Startup.thy ===== *)
theory Startup
  imports Leader_Fence Redis_Contract Telemetry
begin

text \<open>
  The process, \<^verbatim>\<open>cmd/rpc-proxy/main.go\<close>: what is started, in which order, and what is closed on each way
  out. Flags, signals, listeners and the shutdown of servers are answers given to \<open>run\<close> (\<open>process\<close>); the
  result is the error and the list of actions. A deferred call is an action appended to those of the
  rest of the function. Making the cache, the gateway and the multiplexers changes nothing outside them, and the
  errors of closing are only logged: neither has an action. The lemmas lead to one property of every run.
\<close>

datatype run_error =
    ReadConfig string
  | LoadConfig config_error
  | StartTelemetry "string list"
  | CreateStore redis_store_error
  | ConnectRedis redis_store_error
  | ReadHostname string
  | EmptyHostname
  | ServerFailed string
  | ShutdownFailed "string list"

text \<open>Why the main \<^verbatim>\<open>select\<close> continues: the signal, or the error of a server.\<close>

datatype main_event = Signalled | ServerError string | ServerClosed

datatype action =
    TelemetryStarted
  | StoreOpened
  | CoordinatorStarted string runtime
  | ServersListening string string
  | SignalStopped
  | ServersShutDown
  | StoreClosed
  | TelemetryClosed

record 'w process =
  ps_urls :: url_pkg
  ps_environment :: "string \<Rightarrow> string"
  ps_document :: "string + config"
  ps_stats_err :: "string option"
  ps_profiler_err :: "string option"
  ps_close_err :: "string option"
  ps_redis_url :: "string \<Rightarrow> bool"
  ps_redis :: "'w redis"
  ps_hostname :: "string + string"
  ps_pid :: "64 word"
  ps_number :: "string \<Rightarrow> string"
  ps_text :: "validate_error \<Rightarrow> string"
  ps_env :: "string \<Rightarrow> 'w node_env"
  ps_event :: "'w \<Rightarrow> main_event"
  ps_shutdown :: "'w \<Rightarrow> string list"

definition getInstanceID :: "string + string \<Rightarrow> 64 word \<Rightarrow> run_error + string" where
  "getInstanceID hostname pid =
     (case hostname of
        Inl e \<Rightarrow> Inl (ReadHostname e)
      | Inr name \<Rightarrow> if name = [] then Inl EmptyHostname else Inr (name @ ''-'' @ show_u64 pid))"

text \<open>A chain's runtime after its validation, which records the redacted text of an error.\<close>

definition validate_chain :: "'w process \<Rightarrow> ChainConfig \<Rightarrow> 'w \<Rightarrow> (string \<times> validate_error) list \<times> runtime \<times> 'w" where
  "validate_chain P cc w =
     Validate_runtime (ps_number P) (\<lambda>e. redact (ps_text P e)) (ps_env P (cc_Name cc)) (NewRuntime cc) w"

text \<open>Each chain is validated, whatever the outcome, and its coordinator started.\<close>

fun start_chains :: "'w process \<Rightarrow> string \<Rightarrow> ChainConfig list \<Rightarrow> 'w \<Rightarrow> action list \<times> 'w" where
  "start_chains P owner [] w = ([], w)"
| "start_chains P owner (cc # ccs) w =
     (case validate_chain P cc w of
        (_, r, w1) \<Rightarrow>
          (case start_chains P owner ccs w1 of (acts, w2) \<Rightarrow> (CoordinatorStarted owner r # acts, w2)))"

definition serve :: "'w process \<Rightarrow> config \<Rightarrow> 'w \<Rightarrow> run_error option \<times> action list" where
  "serve P cfg w =
     (let listening = ServersListening (ListenAddress (Server cfg)) (AdminAddress (Server cfg)) in
      case ps_event P w of
        ServerError e \<Rightarrow> (Some (ServerFailed e), [listening, SignalStopped])
      | _ \<Rightarrow> ((case ps_shutdown P w of [] \<Rightarrow> None | es \<Rightarrow> Some (ShutdownFailed es)), [listening, ServersShutDown]))"

text \<open>From the signal context on; its deferred \<^verbatim>\<open>stop\<close> comes last.\<close>

definition run_started :: "'w process \<Rightarrow> config \<Rightarrow> 'w \<Rightarrow> run_error option \<times> action list" where
  "run_started P cfg w =
     (let (err, acts) =
        (case RedisStore_Ping (ps_redis P) w of
           (Inl e, w1) \<Rightarrow> (Some (ConnectRedis e), [])
         | (Inr _, w1) \<Rightarrow>
             (case getInstanceID (ps_hostname P) (ps_pid P) of
                Inl e \<Rightarrow> (Some e, [])
              | Inr owner \<Rightarrow>
                  (case start_chains P owner (Chains cfg) w1 of
                     (started, w2) \<Rightarrow> (case serve P cfg w2 of (err, served) \<Rightarrow> (err, started @ served)))))
      in (err, acts @ [SignalStopped]))"

definition run_store :: "'w process \<Rightarrow> config \<Rightarrow> 'w \<Rightarrow> run_error option \<times> action list" where
  "run_store P cfg w =
     (case NewRedisStore (ps_redis_url P) \<lparr>redis_URL = rd_URL (Redis cfg), redis_KeyPrefix = KeyPrefix (Redis cfg),
             redis_StreamMaxLength = StreamMaxLength (Redis cfg)\<rparr> of
        Inl e \<Rightarrow> (Some (CreateStore e), [])
      | Inr store \<Rightarrow> (case run_started P cfg w of (err, acts) \<Rightarrow> (err, [StoreOpened] @ acts @ [StoreClosed])))"

definition run :: "'w process \<Rightarrow> 'w \<Rightarrow> run_error option \<times> action list" where
  "run P w =
     (case ps_document P of
        Inl e \<Rightarrow> (Some (ReadConfig e), [])
      | Inr document \<Rightarrow>
          (case Load (ps_urls P) (ps_environment P) document of
             Inl e \<Rightarrow> (Some (LoadConfig e), [])
           | Inr cfg \<Rightarrow>
               (case fst (NewTelemetry (dd_Enabled (Datadog cfg)) (ProfilingEnabled (Datadog cfg))
                        (ps_stats_err P) (ps_profiler_err P) (ps_close_err P) {}) of
                  Inl es \<Rightarrow> (Some (StartTelemetry es), [])
                | Inr tel \<Rightarrow> (case run_store P cfg w of (err, acts) \<Rightarrow> (err, [TelemetryStarted] @ acts @ [TelemetryClosed])))))"

subsection \<open>Every run\<close>

text \<open>A runtime that came out of the validation of a chain's configuration.\<close>

definition validated :: "'w process \<Rightarrow> ChainConfig \<Rightarrow> runtime \<Rightarrow> bool" where
  "validated P cc r \<longleftrightarrow> (\<exists>w es w'. validate_chain P cc w = (es, r, w'))"

lemma validated_config: "validated P cc r \<Longrightarrow> rt_Config r = cc"
  using validate_all_config by (fastforce simp: validated_def validate_chain_def Validate_runtime_def NewRuntime_def)

lemma start_chains_actions:
  "start_chains P owner ccs w = (acts, w') \<Longrightarrow>
     \<exists>rs. acts = map (CoordinatorStarted owner) rs \<and> list_all2 (validated P) ccs rs"
proof (induction ccs arbitrary: w acts)
  case (Cons cc ccs)
  obtain es r w1 where v: "validate_chain P cc w = (es, r, w1)"
    by (metis prod_cases3)
  obtain acts1 where a: "start_chains P owner ccs w1 = (acts1, w')" "acts = CoordinatorStarted owner r # acts1"
    using Cons.prems v by (auto split: prod.splits)
  obtain rs where "acts1 = map (CoordinatorStarted owner) rs" "list_all2 (validated P) ccs rs" using Cons.IH [OF a(1)] by blast
  moreover have "validated P cc r" using v by (auto simp: validated_def)
  ultimately show ?case using a(2) by (intro exI [of _ "r # rs"]) simp
qed simp

text \<open>What comes between the opening and the closing of the store.\<close>

definition started_well :: "'w process \<Rightarrow> config \<Rightarrow> action list \<Rightarrow> bool" where
  "started_well P cfg acts \<longleftrightarrow>
     (\<exists>name rs served. ps_hostname P = Inr name \<and> name \<noteq> [] \<and> list_all2 (validated P) (Chains cfg) rs
        \<and> acts = map (CoordinatorStarted (name @ ''-'' @ show_u64 (ps_pid P))) rs
            @ ServersListening (ListenAddress (Server cfg)) (AdminAddress (Server cfg)) # served
        \<and> set served \<subseteq> {SignalStopped, ServersShutDown})"

lemma run_started_actions:
  assumes "run_started P cfg w = (err, acts)"
  shows "acts = [SignalStopped] \<and> err \<noteq> None
    \<or> (\<exists>w1. RedisStore_Ping (ps_redis P) w = (Inr (), w1)) \<and> started_well P cfg acts"
proof -
  obtain x w1 where x: "RedisStore_Ping (ps_redis P) w = (x, w1)" by (metis surj_pair)
  show ?thesis
  proof (cases x)
    case (Inl e)
    then show ?thesis using assms x by (auto simp: run_started_def)
  next
    case (Inr u)
    show ?thesis
    proof (cases "getInstanceID (ps_hostname P) (ps_pid P)")
      case e: (Inl e)
      then show ?thesis using assms x Inr by (auto simp: run_started_def)
    next
      case owner: (Inr owner)
      obtain started w2 where s: "start_chains P owner (Chains cfg) w1 = (started, w2)" by (metis surj_pair)
      obtain rs where rs: "started = map (CoordinatorStarted owner) rs" "list_all2 (validated P) (Chains cfg) rs"
        using start_chains_actions [OF s] by blast
      obtain e served where sv: "serve P cfg w2 = (e, served)" by (metis surj_pair)
      have acts: "acts = started @ served @ [SignalStopped]" using assms x Inr owner s sv by (auto simp: run_started_def)
      have "\<exists>rest. served = ServersListening (ListenAddress (Server cfg)) (AdminAddress (Server cfg)) # rest
          \<and> set rest \<subseteq> {SignalStopped, ServersShutDown}"
        using sv by (auto simp: serve_def Let_def split: main_event.splits)
      moreover obtain name where "ps_hostname P = Inr name" "name \<noteq> []" "owner = name @ ''-'' @ show_u64 (ps_pid P)"
        using owner by (auto simp: getInstanceID_def split: sum.splits if_splits)
      ultimately have "started_well P cfg acts" unfolding started_well_def using acts rs by auto
      then show ?thesis using x Inr by simp
    qed
  qed
qed

text \<open>
  Property C31. A process serves only what it could start, and closes what it opened. Every run either does
  nothing but fail, or starts and finally closes telemetry; it opens the store only for a valid
  configuration, and closes it before telemetry; between the two it either stops with an error, or Redis
  answered, and then one coordinator was started for every chain of the configuration, under the name of
  host and process, with the runtime that the chain's validation returned, before the servers listen.
\<close>

theorem run_starts_in_order:
  assumes "run P w = (err, acts)"
  shows "acts = [] \<and> err \<noteq> None
    \<or> (\<exists>document cfg inner. ps_document P = Inr document \<and> Load (ps_urls P) (ps_environment P) document = Inr cfg
        \<and> valid_config (ps_urls P) cfg \<and> acts = [TelemetryStarted] @ inner @ [TelemetryClosed]
        \<and> (inner = [] \<and> err \<noteq> None
           \<or> (\<exists>acts1. inner = [StoreOpened] @ acts1 @ [StoreClosed]
                \<and> (acts1 = [SignalStopped] \<and> err \<noteq> None
                   \<or> (\<exists>w1. RedisStore_Ping (ps_redis P) w = (Inr (), w1)) \<and> started_well P cfg acts1))))"
proof (cases "acts = [] \<and> err \<noteq> None")
  case False
  obtain document cfg err1 acts1 where r: "ps_document P = Inr document" "Load (ps_urls P) (ps_environment P) document = Inr cfg"
    "run_store P cfg w = (err, acts1)" "acts = [TelemetryStarted] @ acts1 @ [TelemetryClosed]"
    using assms False by (auto simp: run_def split: sum.splits prod.splits)
  have v: "valid_config (ps_urls P) cfg" using load_effect [OF r(2)] by blast
  consider "acts1 = []" "err \<noteq> None" | acts2 where "run_started P cfg w = (err, acts2)" "acts1 = [StoreOpened] @ acts2 @ [StoreClosed]"
    using r(3) by (auto simp: run_store_def split: sum.splits prod.splits)
  then show ?thesis
  proof cases
    case 1
    then show ?thesis using r v by blast
  next
    case 2
    then show ?thesis using r v run_started_actions [OF 2(1)] by blast
  qed
qed blast

text \<open>A process whose upstreams are all down, stopped by a signal.\<close>

definition sample_process :: "server process" where
  "sample_process = \<lparr>ps_urls = sample_urls, ps_environment = (\<lambda>_. ''v''), ps_document = Inr sample_document,
     ps_stats_err = None, ps_profiler_err = None, ps_close_err = None, ps_redis_url = (\<lambda>_. True),
     ps_redis = sample_redis, ps_hostname = Inr ''h'', ps_pid = 7, ps_number = id, ps_text = (\<lambda>_. []),
     ps_env = (\<lambda>_. \<lparr>now_of = (\<lambda>_. 1), node_call = (\<lambda>_ _ _ w. (Inl ''down'', w)), node_healthy = (\<lambda>_ _. False),
       node_score = (\<lambda>_ _. 0), node_eip1898 = (\<lambda>_ _. False), node_pinned = (\<lambda>_ _ _. False), set_eip1898 = (\<lambda>_ _ w. w),
       set_pinned = (\<lambda>_ _ _ w. w), node_supports = (\<lambda>_ _ _. True), mark_unsupported = (\<lambda>_ _ w. w)\<rparr>),
     ps_event = (\<lambda>_. Signalled), ps_shutdown = (\<lambda>_. [])\<rparr>"

theorem run_starts_in_order_witness:
  "\<exists>acts cfg acts1. run sample_process sample_server = (None, acts)
     \<and> acts = [TelemetryStarted, StoreOpened] @ acts1 @ [StoreClosed, TelemetryClosed] \<and> started_well sample_process cfg acts1"
proof -
  let ?P = sample_process
  obtain cfg where cfg: "Load sample_urls (\<lambda>_. ''v'') sample_document = Inr cfg" using load_effect_witness by blast
  have "\<exists>tel. fst (NewTelemetry enabled prof None None None {}) = Inr tel" for enabled prof
    by (simp add: NewTelemetry_def Let_def)
  then obtain tel where tel: "fst (NewTelemetry (dd_Enabled (Datadog cfg)) (ProfilingEnabled (Datadog cfg)) None None None {}) = Inr tel"
    by blast
  have ping: "RedisStore_Ping sample_redis sample_server = (Inr (), sample_server)"
    by (simp add: RedisStore_Ping_def run_script_def sample_redis_def)
  obtain owner where owner: "getInstanceID (Inr ''h'') 7 = Inr owner" by (simp add: getInstanceID_def)
  obtain started w2 where started: "start_chains ?P owner (Chains cfg) sample_server = (started, w2)" by (metis surj_pair)
  obtain served where served: "serve ?P cfg w2 = (None, served)" by (simp add: serve_def sample_process_def Let_def)
  have fields: "ps_urls ?P = sample_urls" "ps_environment ?P = (\<lambda>_. ''v'')" "ps_document ?P = Inr sample_document"
    "ps_stats_err ?P = None" "ps_profiler_err ?P = None" "ps_close_err ?P = None" "ps_redis_url ?P = (\<lambda>_. True)"
    "ps_redis ?P = sample_redis" "ps_hostname ?P = Inr ''h''" "ps_pid ?P = 7"
    by (simp_all add: sample_process_def)
  have "run_started ?P cfg sample_server = (None, started @ served @ [SignalStopped])"
    using ping owner started served by (simp add: run_started_def fields)
  then have run: "run ?P sample_server
      = (None, [TelemetryStarted] @ ([StoreOpened] @ (started @ served @ [SignalStopped]) @ [StoreClosed]) @ [TelemetryClosed])"
    using cfg tel by (simp add: run_def run_store_def NewRedisStore_def fields)
  from run_starts_in_order [OF this] obtain cfg' where "started_well ?P cfg' (started @ served @ [SignalStopped])" by auto
  then show ?thesis using run by auto
qed

end
