(* ===== verification/Admin.thy ===== *)
theory Admin
  imports Gateway Upstream Startup
begin

text \<open>
  The private pages of \<^verbatim>\<open>gateway/admin.go\<close>, with the status of a chain's runtime of \<^verbatim>\<open>chain/runtime.go\<close>:
  readiness as its status code and text, and the status page as the record that is encoded. The order
  in which the program walks the map of the runtimes is that of the list given. Two properties tie the
  pages to the other components: what readiness promises the gateway's reads, and what the status page
  cannot show.
\<close>

record 'w admin =
  ad_ping :: "'w \<Rightarrow> string option \<times> 'w"
  ad_snapshot :: "string \<Rightarrow> 'w \<Rightarrow> (store_error + snapshot) \<times> 'w"
  ad_env :: "string \<Rightarrow> 'w node_env"
  ad_status :: "string \<Rightarrow> string \<Rightarrow> 'w \<Rightarrow> client_status"
  ad_text :: "store_error \<Rightarrow> string"

subsection \<open>Readiness\<close>

definition http_error :: "string \<Rightarrow> nat \<times> string" where
  "http_error msg = (503, msg @ [CHR 0x0A])"

text \<open>The first commitment that keeps a chain from serving, and why.\<close>

fun check_heads :: "time \<Rightarrow> ChainConfig \<Rightarrow> snapshot \<Rightarrow> string list \<Rightarrow> string option" where
  "check_heads now cfg snap [] = None"
| "check_heads now cfg snap (c # cs) =
     (let h = or_zero (Get snap c) in
      if ReorgPending h then Some ''reorg recovery in progress''
      else if Get snap c = None \<or> IsZero h \<or> (MaxHeadAge cfg > 0 \<and> time_sub now (ObservedAt h) > MaxHeadAge cfg)
      then Some ''accepted head is stale''
      else check_heads now cfg snap cs)"

definition check_chain :: "'w admin \<Rightarrow> string \<Rightarrow> runtime \<Rightarrow> snapshot \<Rightarrow> 'w \<Rightarrow> string option" where
  "check_chain A name r snap w =
     (case check_heads (now_of (ad_env A name) w) (rt_Config r) snap (poll_commitments (rt_Config r)) of
        Some e \<Rightarrow> Some e
      | None \<Rightarrow>
          if Candidates (ad_env A name) r (cc_Family (rt_Config r) = ''evm'') w = [] then Some ''no eligible upstream''
          else None)"

fun check_chains :: "'w admin \<Rightarrow> (string \<times> runtime) list \<Rightarrow> 'w \<Rightarrow> string option \<times> 'w" where
  "check_chains A [] w = (None, w)"
| "check_chains A ((name, r) # rts) w =
     (case ad_snapshot A name w of
        (Inl _, w1) \<Rightarrow> (Some ''head store unavailable'', w1)
      | (Inr snap, w1) \<Rightarrow>
          (case check_chain A name r snap w1 of
             Some e \<Rightarrow> (Some e, w1)
           | None \<Rightarrow> check_chains A rts w1))"

definition ready :: "'w admin \<Rightarrow> (string \<times> runtime) list \<Rightarrow> 'w \<Rightarrow> (nat \<times> string) \<times> 'w" where
  "ready A rts w =
     (case ad_ping A w of
        (Some _, w1) \<Rightarrow> (http_error ''head store unavailable'', w1)
      | (None, w1) \<Rightarrow>
          (case check_chains A rts w1 of
             (Some e, w2) \<Rightarrow> (http_error e, w2)
           | (None, w2) \<Rightarrow> ((200, ''ready'' @ [CHR 0x0A]), w2)))"

subsection \<open>Status\<close>

record runtime_status =
  rs_Name :: string
  rs_Family :: string
  rs_Validation :: "string \<Rightarrow> string option"
  rs_Upstreams :: "client_status list"

definition Runtime_Status :: "(string \<Rightarrow> 'w \<Rightarrow> client_status) \<Rightarrow> runtime \<Rightarrow> 'w \<Rightarrow> runtime_status" where
  "Runtime_Status client r w =
     \<lparr>rs_Name = cc_Name (rt_Config r), rs_Family = cc_Family (rt_Config r), rs_Validation = validation r,
      rs_Upstreams = map (\<lambda>i. client i w) (upstream_ids r)\<rparr>"

record chain_status =
  cs_Runtime :: runtime_status
  cs_Heads :: "string \<Rightarrow> head option"
  cs_Error :: string

definition shown_heads :: "string \<Rightarrow> snapshot \<Rightarrow> string \<Rightarrow> head option" where
  "shown_heads family snap c =
     (if family = ''evm'' \<and> c \<noteq> Latest then None else map_option (\<lambda>h. h\<lparr>Header := None\<rparr>) (sHeads snap c))"

definition chainStatus :: "'w admin \<Rightarrow> string \<Rightarrow> runtime \<Rightarrow> 'w \<Rightarrow> chain_status \<times> 'w" where
  "chainStatus A name r w =
     (let status = \<lparr>cs_Runtime = Runtime_Status (ad_status A name) r w, cs_Heads = (\<lambda>_. None), cs_Error = []\<rparr> in
      case ad_snapshot A name w of
        (Inl e, w1) \<Rightarrow> (status\<lparr>cs_Error := redact (ad_text A e)\<rparr>, w1)
      | (Inr snap, w1) \<Rightarrow> (status\<lparr>cs_Heads := shown_heads (cc_Family (rt_Config r)) snap\<rparr>, w1))"

fun chain_statuses :: "'w admin \<Rightarrow> (string \<times> runtime) list \<Rightarrow> 'w \<Rightarrow> (string \<times> chain_status) list \<times> 'w" where
  "chain_statuses A [] w = ([], w)"
| "chain_statuses A ((name, r) # rts) w =
     (case chainStatus A name r w of
        (s, w1) \<Rightarrow> (case chain_statuses A rts w1 of (ss, w2) \<Rightarrow> ((name, s) # ss, w2)))"

record status_page =
  sp_chains :: "(string \<times> chain_status) list"
  sp_metric_submission_errors :: "64 word"

definition status_of :: "'w admin \<Rightarrow> telemetry \<Rightarrow> (string \<times> runtime) list \<Rightarrow> 'w \<Rightarrow> status_page \<times> 'w" where
  "status_of A t rts w =
     (case chain_statuses A rts w of
        (ss, w1) \<Rightarrow> (\<lparr>sp_chains = ss, sp_metric_submission_errors = metricErrs t\<rparr>, w1))"

subsection \<open>What readiness means\<close>

text \<open>A head that lets reads at its commitment pass, and a chain that serves.\<close>

definition serving_head :: "time \<Rightarrow> ChainConfig \<Rightarrow> head \<Rightarrow> bool" where
  "serving_head now cfg h \<longleftrightarrow> \<not> IsZero h \<and> \<not> ReorgPending h
     \<and> (MaxHeadAge cfg > 0 \<longrightarrow> time_sub now (ObservedAt h) \<le> MaxHeadAge cfg)"

definition serves :: "'w admin \<Rightarrow> string \<Rightarrow> runtime \<Rightarrow> snapshot \<Rightarrow> 'w \<Rightarrow> bool" where
  "serves A name r snap w \<longleftrightarrow>
     (\<forall>c \<in> set (poll_commitments (rt_Config r)). \<exists>h. Get snap c = Some h \<and> serving_head (now_of (ad_env A name) w) (rt_Config r) h)
     \<and> Candidates (ad_env A name) r (cc_Family (rt_Config r) = ''evm'') w \<noteq> []"

lemma check_heads_None:
  "check_heads now cfg snap cs = None \<longleftrightarrow> (\<forall>c \<in> set cs. \<exists>h. Get snap c = Some h \<and> serving_head now cfg h)"
proof (induction cs)
  case (Cons c cs)
  then show ?case
    by (cases "Get snap c") (auto simp: serving_head_def Let_def)
qed simp

lemma check_chain_None: "check_chain A name r snap w = None \<longleftrightarrow> serves A name r snap w"
  using check_heads_None [of "now_of (ad_env A name) w" "rt_Config r" snap "poll_commitments (rt_Config r)"]
  by (auto simp: check_chain_def serves_def split: option.splits)

lemma check_chains_None:
  "check_chains A rts w = (None, w') \<Longrightarrow> (name, r) \<in> set rts \<Longrightarrow>
     \<exists>w1 snap w2. ad_snapshot A name w1 = (Inr snap, w2) \<and> serves A name r snap w2"
proof (induction A rts w rule: check_chains.induct)
  case (2 A n r1 rts w)
  obtain snap w1 where s: "ad_snapshot A n w = (Inr snap, w1)" using 2(2) by (auto split: prod.splits sum.splits)
  then have c: "check_chain A n r1 snap w1 = None" "check_chains A rts w1 = (None, w')"
    using 2(2) by (auto split: option.splits)
  show ?case
  proof (cases "(name, r) = (n, r1)")
    case True
    then show ?thesis using s c(1) check_chain_None by fastforce
  next
    case False
    then have "(name, r) \<in> set rts" using 2(3) by auto
    then show ?thesis by (rule 2(1) [OF s [symmetric] refl c])
  qed
qed simp

lemma check_chains_Some:
  "check_chains A rts w = (Some e, w') \<Longrightarrow>
     \<exists>(name, r) \<in> set rts. \<exists>w1 x. ad_snapshot A name w1 = (x, w')
       \<and> (case x of Inl _ \<Rightarrow> e = ''head store unavailable'' | Inr snap \<Rightarrow> check_chain A name r snap w' = Some e)"
proof (induction A rts w rule: check_chains.induct)
  case (2 A n r1 rts w)
  obtain x w1 where s: "ad_snapshot A n w = (x, w1)" by (metis surj_pair)
  show ?case
  proof (cases "\<exists>snap. x = Inr snap \<and> check_chain A n r1 snap w1 = None")
    case True
    then obtain snap where x: "x = Inr snap" "check_chain A n r1 snap w1 = None" by blast
    have "check_chains A rts w1 = (Some e, w')" using 2(2) s x by simp
    from 2(1) [OF s [symmetric] x this] show ?thesis by (auto simp: case_prod_beta)
  next
    case False
    then have "w' = w1 \<and> (case x of Inl _ \<Rightarrow> e = ''head store unavailable'' | Inr snap \<Rightarrow> check_chain A n r1 snap w1 = Some e)"
      using 2(2) s by (auto split: sum.splits option.splits)
    then show ?thesis using s by auto
  qed
qed simp

text \<open>
  Readiness is exact. The page says ready only when every chain was found serving, at
  the snapshot and the clock of its own turn: at each commitment the chain is polled at there is an accepted
  head, no reorg is pending there and the head is not older than the limit, and an upstream is
  eligible. Every other answer is a 503 for a reason that holds: the store failed, or some
  chain's store read failed or showed that it does not serve.
\<close>

theorem ready_exact:
  assumes "ready A rts w = (page, w')"
  shows "page = (200, ''ready'' @ [CHR 0x0A]) \<and> (\<exists>w0. ad_ping A w = (None, w0))
      \<and> (\<forall>(name, r) \<in> set rts. \<exists>w1 snap w2. ad_snapshot A name w1 = (Inr snap, w2) \<and> serves A name r snap w2)
    \<or> fst page = 503 \<and> ((\<exists>e. fst (ad_ping A w) = Some e)
      \<or> (\<exists>(name, r) \<in> set rts. \<exists>w1 x. ad_snapshot A name w1 = (x, w')
           \<and> (case x of Inl _ \<Rightarrow> True | Inr snap \<Rightarrow> \<not> serves A name r snap w')))"
proof -
  obtain x w0 where p: "ad_ping A w = (x, w0)" by (metis surj_pair)
  obtain y w2 where c: "check_chains A rts w0 = (y, w2)" by (metis surj_pair)
  consider e where "x = Some e" | e where "x = None" "y = Some e" | "x = None" "y = None" by (metis option.exhaust)
  then show ?thesis
  proof cases
    case 1
    then show ?thesis using assms p by (auto simp: ready_def http_error_def)
  next
    case 2
    obtain name r w1 z where z: "(name, r) \<in> set rts" "ad_snapshot A name w1 = (z, w2)"
      "case z of Inl _ \<Rightarrow> e = ''head store unavailable'' | Inr snap \<Rightarrow> check_chain A name r snap w2 = Some e"
      using check_chains_Some [of A rts w0 e w2] c 2 by auto
    then have "case z of Inl _ \<Rightarrow> True | Inr snap \<Rightarrow> \<not> serves A name r snap w2"
      by (auto simp flip: check_chain_None split: sum.splits)
    then show ?thesis using assms p c 2 z(1,2) by (fastforce simp: ready_def http_error_def)
  next
    case 3
    then show ?thesis using assms p c check_chains_None [of A rts w0 w2] by (auto simp: ready_def)
  qed
qed


definition sample_admin :: "rpc_response list admin" where
  "sample_admin = \<lparr>ad_ping = (\<lambda>w. (None, w)), ad_snapshot = (\<lambda>_ w. (Inr sample_fresh, w)), ad_env = (\<lambda>_. sample_env),
     ad_status = (\<lambda>_ _ _. Status sample_client 1 new_client_state), ad_text = (\<lambda>_. [])\<rparr>"

lemma sample_ready: "ready sample_admin [(''eth'', sample_runtime)] [] = ((200, ''ready'' @ [CHR 0x0A]), [])"
proof -
  have "poll_commitments (rt_Config sample_runtime) = [Latest]"
    by (simp add: poll_commitments_def sample_runtime_def NewRuntime_def sample_chain_def)
  moreover obtain h where "Get sample_fresh Latest = Some h" "\<not> IsZero h" "\<not> ReorgPending h" "ObservedAt h = 1"
    by (simp add: Get_def sample_fresh_def IsZero_def)
  moreover have "MaxHeadAge (rt_Config sample_runtime) \<ge> 0" by (simp add: sample_runtime_def NewRuntime_def sample_chain_def)
  ultimately show ?thesis
    by (simp add: ready_def sample_admin_def check_chain_def sample_env_run Candidates_sample time_sub_def max_duration_def)
qed

theorem ready_exact_witness:
  "\<exists>w1 snap w2. ad_snapshot sample_admin ''eth'' w1 = (Inr snap, w2) \<and> serves sample_admin ''eth'' sample_runtime snap w2"
  using ready_exact [OF sample_ready] by simp

subsection \<open>What readiness promises to reads\<close>

lemma serving_target:
  assumes "serves A name r snap w" "c \<in> set (poll_commitments (rt_Config r))" "p_target p = Get snap c"
    and "MaxHeadAge (rt_Config r) < time_sub (now_of (ad_env A name) w) 0"
  shows "\<not> stale_target (now_of (ad_env A name) w) (rt_Config r) p"
proof -
  obtain h where h: "Get snap c = Some h" "serving_head (now_of (ad_env A name) w) (rt_Config r) h"
    using assms(1,2) by (auto simp: serves_def)
  then show ?thesis using assms(3,4) by (auto simp: stale_target_def serving_head_def IsZeroTime_def)
qed

lemma serving_not_pending:
  assumes "serves A name r snap w" "cc_Family (rt_Config r) = ''evm''"
  shows "\<not> pending_head snap"
proof -
  have "Latest \<in> set (poll_commitments (rt_Config r))" using assms(2) by (simp add: poll_commitments_def)
  then obtain h where "Get snap Latest = Some h" "serving_head (now_of (ad_env A name) w) (rt_Config r) h"
    using assms(1) by (auto simp: serves_def)
  then show ?thesis by (simp add: pending_head_def serving_head_def)
qed

text \<open>
  Property C29. A ready chain answers reads. When the page says ready, there is for each chain a snapshot and
  a moment at which the gateway, given them, refuses no request pinned to a head of the polled
  commitments, neither for a pending reorg nor for a stale head, provided the clock is beyond the year
  one; and then some upstream is validated, healthy and, on an EVM chain, able to read by hash.
\<close>

theorem ready_chains_answer_reads:
  assumes "ready A rts w = ((200, body), w')" "(name, r) \<in> set rts"
    and "\<And>w. MaxHeadAge (rt_Config r) < time_sub (now_of (ad_env A name) w) 0"
  shows "\<exists>w1 snap w2. ad_snapshot A name w1 = (Inr snap, w2)
    \<and> (\<forall>p c. c \<in> set (poll_commitments (rt_Config r)) \<and> p_target p = Get snap c \<longrightarrow>
         \<not> (cc_Family (rt_Config r) = ''evm'' \<and> p_target p \<noteq> None \<and> pending_head snap)
         \<and> \<not> stale_target (now_of (ad_env A name) w2) (rt_Config r) p)
    \<and> (\<exists>i \<in> set (upstream_ids r). IsValid r i \<and> node_healthy (ad_env A name) i w2
         \<and> (cc_Family (rt_Config r) = ''evm'' \<longrightarrow> node_eip1898 (ad_env A name) i w2))"
proof -
  obtain w0 w3 where c: "check_chains A rts w0 = (None, w3)"
    using assms(1) by (auto simp: ready_def http_error_def split: prod.splits option.splits)
  then obtain w1 snap w2 where s: "ad_snapshot A name w1 = (Inr snap, w2)" "serves A name r snap w2"
    using check_chains_None [OF c assms(2)] by blast
  have "Candidates (ad_env A name) r (cc_Family (rt_Config r) = ''evm'') w2 \<noteq> []" using s(2) by (simp add: serves_def)
  then have "\<exists>i \<in> set (upstream_ids r). IsValid r i \<and> node_healthy (ad_env A name) i w2
      \<and> (cc_Family (rt_Config r) = ''evm'' \<longrightarrow> node_eip1898 (ad_env A name) i w2)"
    unfolding Candidates_def by (auto simp: filter_empty_conv simp flip: set_empty)
  then show ?thesis using s serving_target [OF s(2) _ _ assms(3)] serving_not_pending [OF s(2)] by blast
qed

theorem ready_chains_answer_reads_witness:
  "ready sample_admin [(''eth'', sample_runtime)] [] = ((200, ''ready'' @ [CHR 0x0A]), [])
   \<and> (\<exists>w1 snap w2. ad_snapshot sample_admin ''eth'' w1 = (Inr snap, w2)
        \<and> (\<forall>p. p_target p = Get snap Latest \<longrightarrow> \<not> stale_target (now_of (ad_env sample_admin ''eth'') w2) (rt_Config sample_runtime) p))"
proof -
  have age: "MaxHeadAge (rt_Config sample_runtime) < time_sub (now_of (ad_env sample_admin ''eth'') w) 0" for w
    by (simp add: sample_runtime_def NewRuntime_def sample_chain_def sample_admin_def sample_env_run time_sub_def max_duration_def)
  have polled: "Latest \<in> set (poll_commitments (rt_Config sample_runtime))"
    by (simp add: poll_commitments_def sample_runtime_def NewRuntime_def sample_chain_def)
  have "(''eth'', sample_runtime) \<in> set [(''eth'', sample_runtime)]" by simp
  from ready_chains_answer_reads [OF sample_ready this age] polled show ?thesis using sample_ready by blast
qed

subsection \<open>What the status page shows\<close>

text \<open>A text without an endpoint and without a credential.\<close>

definition reveals_nothing :: "string \<Rightarrow> bool" where
  "reveals_nothing msg \<longleftrightarrow> (\<forall>i. match_url (drop i msg) = None)
     \<and> (\<forall>i nm v rest. match_param (drop i msg) = Some (nm, v, rest) \<longrightarrow> v = ''[REDACTED]'')"

lemma redact_reveals_nothing [simp]: "reveals_nothing (redact msg)"
  using redact_no_url redact_values by (auto simp: reveals_nothing_def)

lemma reveals_nothing_Nil [simp]: "reveals_nothing []"
  using redact_reveals_nothing [of "[]"] by (simp add: redact_def)

lemma validate_all_texts:
  "validate_all num tx env is r w = (es, r', w') \<Longrightarrow> \<forall>u v. validation r u = Some v \<longrightarrow> (\<exists>e. v = tx e) \<Longrightarrow>
     \<forall>u v. validation r' u = Some v \<longrightarrow> (\<exists>e. v = tx e)"
proof (induction num tx env "is" r w arbitrary: es r' w' rule: validate_all.induct)
  case (2 num tx env j js r w)
  obtain x w1 where v: "validateUpstream num env r j w = (x, w1)" by (cases "validateUpstream num env r j w")
  show ?case
  proof (cases x)
    case None
    let ?r = "r\<lparr>valid := (valid r)(j := True), validation := (validation r)(j := None)\<rparr>"
    have "validate_all num tx env js ?r w1 = (es, r', w')" using 2(3) v None by simp
    moreover have "\<forall>u t. validation ?r u = Some t \<longrightarrow> (\<exists>e. t = tx e)" using 2(4) by auto
    ultimately show ?thesis by (rule 2(1) [OF v [symmetric] None])
  next
    case (Some e)
    let ?r = "r\<lparr>valid := (valid r)(j := False), validation := (validation r)(j \<mapsto> tx e)\<rparr>"
    obtain es1 where "validate_all num tx env js ?r w1 = (es1, r', w')"
      using 2(3) v Some by (auto split: prod.splits)
    moreover have "\<forall>u t. validation ?r u = Some t \<longrightarrow> (\<exists>e. t = tx e)" using 2(4) by auto
    ultimately show ?thesis by (rule 2(2) [OF v [symmetric] Some])
  qed
qed simp

lemma validated_texts: "validated P cc r \<Longrightarrow> validation r u = Some v \<Longrightarrow> reveals_nothing v"
  using validate_all_texts [of "ps_number P" "\<lambda>e. redact (ps_text P e)"]
  by (fastforce simp: validated_def validate_chain_def Validate_runtime_def NewRuntime_def)

lemma chain_statuses_from:
  "chain_statuses A rts w = (ss, w') \<Longrightarrow> (name, s) \<in> set ss \<Longrightarrow>
     \<exists>r w1 w2. (name, r) \<in> set rts \<and> chainStatus A name r w1 = (s, w2)"
proof (induction A rts w arbitrary: ss rule: chain_statuses.induct)
  case (2 A n r1 rts w)
  obtain s1 w1 where s: "chainStatus A n r1 w = (s1, w1)" by (metis surj_pair)
  obtain ss1 where ss: "chain_statuses A rts w1 = (ss1, w')" "ss = (n, s1) # ss1" using 2(2) s by (auto split: prod.splits)
  show ?case
  proof (cases "(name, s) \<in> set ss1")
    case True
    from 2(1) [OF s [symmetric] ss(1) this] show ?thesis by auto
  next
    case False
    then show ?thesis using 2(3) ss(2) s by auto
  qed
qed simp

lemma chainStatus_parts:
  assumes "chainStatus A name r w = (s, w')"
  shows "cs_Runtime s = Runtime_Status (ad_status A name) r w" "reveals_nothing (cs_Error s)"
    "cs_Heads s = (\<lambda>_. None) \<or> (\<exists>snap. cs_Heads s = shown_heads (cc_Family (rt_Config r)) snap)"
  using assms by (auto simp: chainStatus_def Let_def split: prod.splits sum.splits)

text \<open>
  Property C30. The status page reveals no secret of the configuration. For the runtimes a process has
  started, every validation error and every store error on the page is free of endpoint URLs and of the
  values of credential parameters, no head is shown with its block header, and an EVM chain shows only its
  accepted head. (The last errors of the upstreams are not covered: their clients shorten them.)
\<close>

theorem status_page_reveals_nothing:
  assumes "start_chains P owner ccs w0 = (acts, w1)" "\<And>nm r. (nm, r) \<in> set rts \<Longrightarrow> CoordinatorStarted owner r \<in> set acts"
    and "status_of A t rts w = (page, w')" "(name, s) \<in> set (sp_chains page)"
  shows "reveals_nothing (cs_Error s) \<and> (\<forall>u v. rs_Validation (cs_Runtime s) u = Some v \<longrightarrow> reveals_nothing v)
    \<and> (\<forall>c h. cs_Heads s c = Some h \<longrightarrow> Header h = None \<and> (rs_Family (cs_Runtime s) = ''evm'' \<longrightarrow> c = Latest))"
proof -
  have c: "chain_statuses A rts w = (sp_chains page, w')" using assms(3) by (auto simp: status_of_def split: prod.splits)
  then obtain r w2 w3 where r: "(name, r) \<in> set rts" and s: "chainStatus A name r w2 = (s, w3)"
    using chain_statuses_from [OF c assms(4)] by blast
  obtain rs where rs: "acts = map (CoordinatorStarted owner) rs" "list_all2 (validated P) ccs rs"
    using start_chains_actions [OF assms(1)] by blast
  then have "r \<in> set rs" using assms(2) [OF r] by auto
  then obtain cc where "validated P cc r" using rs(2) by (auto simp: list_all2_conv_all_nth in_set_conv_nth)
  then have "\<forall>u v. rs_Validation (cs_Runtime s) u = Some v \<longrightarrow> reveals_nothing v"
    using validated_texts chainStatus_parts(1) [OF s] by (auto simp: Runtime_Status_def)
  moreover have "\<forall>c h. cs_Heads s c = Some h \<longrightarrow> Header h = None \<and> (rs_Family (cs_Runtime s) = ''evm'' \<longrightarrow> c = Latest)"
    using chainStatus_parts(1,3) [OF s] by (auto simp: shown_heads_def Runtime_Status_def split: if_splits)
  ultimately show ?thesis using chainStatus_parts(2) [OF s] by blast
qed

theorem status_page_reveals_nothing_witness:
  "\<exists>acts w1 r page w'. start_chains sample_process ''o'' [sample_chain] sample_server = (acts, w1)
     \<and> acts = [CoordinatorStarted ''o'' r]
     \<and> status_of (sample_admin\<lparr>ad_snapshot := (\<lambda>_ w. (Inl (ErrContext ''dial redis://user:pw@host''), w)),
          ad_text := (\<lambda>_. ''dial redis://user:pw@host'')\<rparr>) idle_telemetry [(''eth'', r)] [] = (page, w')
     \<and> (\<exists>s. sp_chains page = [(''eth'', s)] \<and> reveals_nothing (cs_Error s))"
proof -
  let ?A = "sample_admin\<lparr>ad_snapshot := (\<lambda>_ w. (Inl (ErrContext ''dial redis://user:pw@host''), w)),
          ad_text := (\<lambda>_. ''dial redis://user:pw@host'')\<rparr>"
  obtain acts w1 where start: "start_chains sample_process ''o'' [sample_chain] sample_server = (acts, w1)" by (metis surj_pair)
  then obtain r where acts: "acts = [CoordinatorStarted ''o'' r]" by (auto split: prod.splits)
  obtain page s where page: "status_of ?A idle_telemetry [(''eth'', r)] [] = (page, [])" "sp_chains page = [(''eth'', s)]"
    by (simp add: status_of_def chainStatus_def Let_def)
  have "reveals_nothing (cs_Error s)"
    using status_page_reveals_nothing [OF start _ page(1), of "''eth''" s] acts page(2) by simp
  then show ?thesis using start acts page by blast
qed

end
