(* ===== verification/Spec2Isabelle.thy ===== *)
theory Spec2Isabelle
  imports Subscriptions Redis_Stream Admin
begin

text \<open>
  A verification development for rpc-proxy, a JSON-RPC proxy in front of several upstream nodes per
  chain. A coordinator per chain follows the chain's head at its upstreams and publishes the head it
  accepts to a store that all replicas share; the gateway answers each caller's batch from one
  snapshot of that store: it rewrites every read to the accepted block, sends it to an upstream that
  has this block, checks the answer, may cache it, and reads the store once more before anything
  leaves. When the coordinator must replace the accepted branch it first raises a fence in the store
  (a pending reorg with a new epoch), so that answers read across the replacement are discarded.

  \<^bold>\<open>Theories and code.\<close> The paths are under \<^verbatim>\<open>src/internal\<close>, but for the program itself.

  \<^item> \<open>Prelude\<close>: strings, 64-bit words, times and durations of the Go library; lemma collections.
  \<^item> \<open>Evm_Utils\<close>: \<^verbatim>\<open>utils/evm.go\<close>. \<open>Go_Json\<close>: decoding of \<^verbatim>\<open>encoding/json\<close> into the types the
    program uses. \<open>Jsonrpc\<close>: \<^verbatim>\<open>jsonrpc/jsonrpc.go\<close> and \<^verbatim>\<open>jsonrpc/errors.go\<close>.
  \<^item> \<open>Quicknode\<close>: \<^verbatim>\<open>services/quicknode/endpoints.go\<close>. \<open>Config\<close>: \<^verbatim>\<open>config/config.go\<close> behind the YAML decoder.
  \<^item> \<open>Head\<close>: heads, snapshots and the memory store of \<^verbatim>\<open>head/types.go\<close>. \<open>Head_Json\<close>: the JSON form of a
    head. \<open>Head_Store\<close>: the locales of what a store promises about its reorg fence. \<open>Memory_Store\<close>: the
    memory store's operations as steps and the interpretation of the locales.
  \<^item> \<open>Redis_Store\<close>: \<^verbatim>\<open>head/redis.go\<close>, its five Lua scripts and its methods. \<open>Redis_Fence\<close>: the named laws of Redis
    and \<^verbatim>\<open>cjson\<close>, and the scripts under the locale of \<open>Head_Store\<close>. \<open>Redis_Refinement\<close> and
    \<open>Redis_Contract\<close>: the scripts and the calls refine those of the memory store; a server that obeys the
    laws. \<open>Redis_Stream\<close>: resuming a stream.
  \<^item> \<open>Request_Cache\<close>: \<^verbatim>\<open>services/requestcache/cache.go\<close>. \<open>Receipts\<close>: \<^verbatim>\<open>services/receipts/receipts.go\<close>.
  \<^item> \<open>Upstream\<close>: the client of one node and its circuit breaker, \<^verbatim>\<open>upstream/client.go\<close>.
  \<^item> \<open>Runtime\<close>: \<^verbatim>\<open>chain/runtime.go\<close>. The record \<open>node_env\<close> stands for the upstream clients and the
    clock; \<open>client_env\<close> of \<open>Upstream\<close> is its instance over the clients. \<open>Runtime_Steps\<close>: what calls and
    probes keep of the state.
  \<^item> \<open>Coordinator\<close>: the decisions of \<^verbatim>\<open>coordinator/coordinator.go\<close> and a session of
    \<^verbatim>\<open>coordinator/subscription.go\<close>. \<open>Leader\<close>: the life of a coordinator, its goroutines as a step relation.
    \<open>Leader_Fence\<close>: the coordinators of all replicas over one store.
  \<^item> \<open>Transform\<close>: \<^verbatim>\<open>gateway/transform.go\<close>. \<open>Verify\<close>: \<^verbatim>\<open>gateway/verification.go\<close> and the checks of answers
    in \<^verbatim>\<open>gateway/router.go\<close>. \<open>Route\<close>: the routing loop of \<^verbatim>\<open>gateway/router.go\<close>. \<open>Gateway_Response\<close>:
    \<^verbatim>\<open>gateway/cache.go\<close> and \<^verbatim>\<open>process\<close>. \<open>Gateway\<close>: the HTTP handler, the fence of \<^verbatim>\<open>gateway/reorg.go\<close>, the
    headers, and the labels of \<^verbatim>\<open>gateway/clients.go\<close>. \<open>Subscriptions\<close>: \<^verbatim>\<open>gateway/websocket.go\<close>.
  \<^item> \<open>Telemetry\<close>: \<^verbatim>\<open>telemetry/telemetry.go\<close>. \<open>Admin\<close>: \<^verbatim>\<open>gateway/admin.go\<close>. \<open>Startup\<close>:
    \<^verbatim>\<open>src/cmd/rpc-proxy/main.go\<close>.

  \<^bold>\<open>State.\<close> A Go struct with fields that change is a record that its operations return updated; the
  shared store and the cache are such records, and an operation that holds a lock is one step. What
  lies outside the program (upstream nodes, Redis, the clock, contexts) is a world \<open>'w\<close> that calls return
  changed; the environment records (\<open>node_env\<close>, \<open>net\<close>, \<open>redis\<close>, \<open>gateway\<close>, \<open>admin\<close>, \<open>process\<close>) name those
  calls, and nothing is assumed of them unless a theorem says so. A panic, and a loop that does not
  end, is \<open>None\<close>.

  \<^bold>\<open>Loops and bounds.\<close> Loops over data are structural. Walks along parent links end because the height
  decreases, with the reorg depth as the bound of the source. Some loops have no bound of their own: the
  routing loop (\<open>route_loop\<close>) is a partial function, and \<open>route_ends\<close> states when it returns; the
  frames of a session, the wake-ups of a blocked reader and the attempts of a Redis call (a call is sent
  until it is answered) are lists given to them; a coordinator is a step relation, and \<open>term_ends\<close> bounds a
  term that lost its context by \<open>6 n + 7\<close> further turns, \<open>n\<close> being its upstreams. The channel of a
  coordinator holds 128 heads, as in the source. Lua numbers are doubles: what Redis keeps of epochs and heights
  is stated below \<open>10 ^ 14\<close>, the range in which \<^verbatim>\<open>cjson\<close> prints them exactly.

  \<^bold>\<open>What is shown.\<close> The reorg fence (epochs, pending heads) in both stores, in the coordinators and in the
  gateway, and their composition below; leases and stream resumption; the pinning of every read and
  the checks every answer has passed, down to the HTTP reply of an upstream; subscriptions without gaps;
  the cache as an expiring LRU list with keys that keep forks apart; block references and availability;
  configuration; the shape and order of the answers; what readiness promises to reads; redaction; the order in
  which a process starts and closes its parts.

  \<^bold>\<open>Concurrency.\<close> The goroutines of the coordinators of all replicas are interleaved step by step, and so are
  the operations of replicas on a store. The items of a batch, the probes of a validation and the polls of a
  round run in list order; a lock-holding operation is atomic; a shared flight (\<^verbatim>\<open>singleflight\<close>) is a
  parameter.

  \<^bold>\<open>Not modelled.\<close> The texts of log lines, the names and values of metrics outside \<open>Telemetry\<close> and the
  coordinator's gauges (no result depends on them), the liveness page (a constant) and the multiplexers,
  command-line flags, signals and listeners, which belong to the standard library. Third-party packages
  (YAML, Redis, websocket, Datadog, \<^verbatim>\<open>singleflight\<close>) are parameters.
\<close>

subsection \<open>The store and the gateway together\<close>

text \<open>
  Property C2. No answer that was read at a head crosses a reorg. Let a batch be answered from a snapshot
  of the shared store, let any operations of any replica run on the store until the fence reads it
  again, and let one answer with a head leave the gateway: then at every moment between the two
  reads the chain's accepted head had the epoch of the first snapshot and no reorg was pending.
\<close>

theorem served_reads_cross_no_reorg:
  assumes "fenceEVMResponses g cfg (Snapshot (cc_Name cfg) m) xs w = (ys, w')" "cc_Family cfg = ''evm''"
    and "g_snapshot g (cc_Name cfg) w = (Inr (Snapshot (cc_Name cfg) (mem_run (before @ after) m)), w1)"
    and "list_all (\<lambda>p. evm_op (cc_Name cfg) (snd p)) (before @ after)" "length (before @ after) < 2 ^ 64"
    and "y \<in> set ys" "pr_target y \<noteq> None"
  shows "\<exists>i h. mem_accepted m (cc_Name cfg) = Some i \<and> mem_accepted (mem_run before m) (cc_Name cfg) = Some h
    \<and> ReorgEpoch h = ReorgEpoch i \<and> \<not> ReorgPending h"
  using assms(1)
proof (cases rule: fence_cases)
  case skipped
  then show ?thesis using assms(2,6,7) by (auto simp: list_all_iff)
next
  case (passed current i l)
  then have heads: "mem_accepted m (cc_Name cfg) = Some i"
    "mem_accepted (mem_run (before @ after) m) (cc_Name cfg) = Some l"
    "\<not> ReorgPending i" "ReorgEpoch l = ReorgEpoch i"
    using assms(3) by (auto simp: Snapshot_def Get_def fence_holds_def)
  show ?thesis
    using mem.equal_epochs_no_reorg [OF heads(1,3) assms(4,5) _ heads(2,4)] heads(1) by blast
next
  case (discarded failureClass)
  then show ?thesis using assms(6,7) by auto
qed

theorem served_reads_cross_no_reorg_witness:
  "\<exists>ys w' h. fenceEVMResponses
      (sample_gateway\<lparr>g_snapshot := (\<lambda>_ w. (Inr (Snapshot ''c'' (mem_run [(3, OpRenew ''c'' (''o:'' @ show_u64 1) 9)] sample_store)), w))\<rparr>)
      (sample_chain\<lparr>cc_Name := ''c'', MaxHeadAge := 0\<rparr>) (Snapshot ''c'' sample_store)
      [(plain_response (Success None None))\<lparr>pr_target := Some zero_head\<rparr>] [] = (ys, w')
    \<and> mem_accepted (mem_run [] sample_store) ''c'' = Some h \<and> \<not> ReorgPending h"
proof -
  let ?ops = "[(3, OpRenew ''c'' (''o:'' @ show_u64 1) 9)]"
  let ?g = "sample_gateway\<lparr>g_snapshot := (\<lambda>_ w. (Inr (Snapshot ''c'' (mem_run ?ops sample_store)), w))\<rparr>"
  let ?cfg = "sample_chain\<lparr>cc_Name := ''c'', MaxHeadAge := 0\<rparr>"
  let ?x = "(plain_response (Success None None))\<lparr>pr_target := Some zero_head\<rparr>"
  have heads: "Get (Snapshot ''c'' sample_store) Latest = Some (sample_head\<lparr>Generation := 2\<rparr>)"
    "Get (Snapshot ''c'' (mem_run ?ops sample_store)) Latest = Some (sample_head\<lparr>Generation := 2\<rparr>)"
    by (simp_all add: Get_def Snapshot_def sample_store_accepted)
  have "fence_failure 1 0 False None (Some (sample_head\<lparr>Generation := 2\<rparr>)) (Some (sample_head\<lparr>Generation := 2\<rparr>)) = []"
    unfolding fence_failure_Nil by (simp add: fence_holds_def sample_head_def IsZero_def)
  then have run: "fenceEVMResponses ?g ?cfg (Snapshot (cc_Name ?cfg) sample_store) [?x] [] = ([?x], [])"
    using heads by (simp add: fenceEVMResponses_def sample_chain_def sample_gateway_def sample_env_run)
  have snap: "g_snapshot ?g (cc_Name ?cfg) [] = (Inr (Snapshot (cc_Name ?cfg) (mem_run ([] @ ?ops) sample_store)), [])"
    by simp
  have "\<exists>h. mem_accepted (mem_run [] sample_store) ''c'' = Some h \<and> \<not> ReorgPending h"
    using served_reads_cross_no_reorg [OF run _ snap, of ?x] by (auto simp: sample_chain_def)
  with run show ?thesis by auto
qed

text \<open>
  Property C1. The same over Redis, the store of production. Let a batch be answered from a snapshot read from
  Redis and let the scripts of any replicas, sent again or not, run on the server until the fence reads the
  store again: if one answer with a head leaves the gateway, then at every moment between the two reads the
  head stored for the chain had the epoch of the first snapshot and no reorg was pending. It rests on what
  Redis and \<^verbatim>\<open>cjson\<close> promise and on epochs and block numbers below \<open>10 ^ 14\<close>.
\<close>

theorem redis_reads_cross_no_reorg:
  assumes "redis_laws L R stored clock" "\<And>t. rt (sh t) = Some t"
    and "RedisStore_Snapshot R r rt (cc_Name cfg) wa = (Inr initial, w1)"
    and "redis_accepted r sh rt stored w1 (cc_Name cfg) \<noteq> None"
    and "fenceEVMResponses g cfg initial xs w = (ys, w')" "cc_Family cfg = ''evm''"
    and "list_all (\<lambda>p. redis_op (cc_Name cfg) (snd p)) (before @ after)"
    and "\<And>i. Get initial Latest = Some i \<Longrightarrow> small (unat (ReorgEpoch i) + length (before @ after))"
    and "RedisStore_Snapshot R r rt (cc_Name cfg) wb = (Inr final, store_run (redis_step L R r sh clock) (before @ after) w1)"
    and "g_snapshot g (cc_Name cfg) w = (Inr final, w2)"
    and "y \<in> set ys" "pr_target y \<noteq> None"
  shows "\<exists>i h. redis_accepted r sh rt stored w1 (cc_Name cfg) = Some i
    \<and> redis_accepted r sh rt stored (store_run (redis_step L R r sh clock) before w1) (cc_Name cfg) = Some h
    \<and> ReorgEpoch h = ReorgEpoch i \<and> \<not> ReorgPending h"
  using assms(5)
proof (cases rule: fence_cases)
  case skipped
  then show ?thesis using assms(6,11,12) by (auto simp: list_all_iff)
next
  case (passed current i l)
  then have heads: "Get initial Latest = Some i" "\<not> ReorgPending i" "Get final Latest = Some l" "ReorgEpoch l = ReorgEpoch i"
    using assms(10) by (auto simp: fence_holds_def)
  show ?thesis
    using redis_equal_epochs [OF assms(1,2,3,4,7,9) heads assms(8) [OF heads(1)]] by blast
next
  case (discarded failureClass)
  then show ?thesis using assms(11,12) by auto
qed

theorem redis_reads_cross_no_reorg_witness:
  "\<exists>ys w' h. fenceEVMResponses
      (sample_gateway\<lparr>g_snapshot := (\<lambda>_ w. (Inr \<lparr>sChain = ''c'', sHeads = [Latest \<mapsto> sample_head\<lparr>Generation := 2\<rparr>]\<rparr>, w))\<rparr>)
      (sample_chain\<lparr>cc_Name := ''c'', MaxHeadAge := 0\<rparr>) \<lparr>sChain = ''c'', sHeads = [Latest \<mapsto> sample_head\<lparr>Generation := 2\<rparr>]\<rparr>
      [(plain_response (Success None None))\<lparr>pr_target := Some zero_head\<rparr>] [] = (ys, w')
    \<and> redis_accepted sample_settings sample_show_time sample_read_time sample_stored sample_server ''c'' = Some h
    \<and> \<not> ReorgPending h"
proof -
  let ?s = "\<lparr>sChain = ''c'', sHeads = [Latest \<mapsto> sample_head\<lparr>Generation := 2\<rparr>]\<rparr>"
  let ?g = "sample_gateway\<lparr>g_snapshot := (\<lambda>_ w. (Inr ?s, w))\<rparr>"
  let ?cfg = "sample_chain\<lparr>cc_Name := ''c'', MaxHeadAge := 0\<rparr>" and ?ops = "[(3, OpRenew ''c'' (''o:'' @ show_u64 1) 9)]"
  let ?x = "(plain_response (Success None None))\<lparr>pr_target := Some zero_head\<rparr>"
  let ?step = "redis_step sample_lua sample_redis sample_settings sample_show_time (\<lambda>_. id)"
  have heads: "Get ?s Latest = Some (sample_head\<lparr>Generation := 2\<rparr>)" by (simp add: Get_def)
  have "fence_failure 1 0 False None (Some (sample_head\<lparr>Generation := 2\<rparr>)) (Some (sample_head\<lparr>Generation := 2\<rparr>)) = []"
    unfolding fence_failure_Nil by (simp add: fence_holds_def sample_head_def IsZero_def)
  then have run: "fenceEVMResponses ?g ?cfg ?s [?x] [] = ([?x], [])"
    using heads by (simp add: fenceEVMResponses_def sample_chain_def sample_gateway_def sample_env_run)
  have snap: "RedisStore_Snapshot sample_redis sample_settings sample_read_time (cc_Name ?cfg) sample_server = (Inr ?s, sample_server)"
    using unmarshal_marshal_head [OF sample_times]
    by (simp add: RedisStore_Snapshot_def run_script_def sample_redis_def sample_server_def entry_or_def Latest_def fun_eq_iff)
  have same: "store_run ?step ([] @ ?ops) sample_server = sample_server"
    by (simp add: redis_step_def renew_script_def cmd_defs sample_redis_def sample_server_def)
  have acc: "redis_accepted sample_settings sample_show_time sample_read_time sample_stored sample_server (cc_Name ?cfg)
      = Some (sample_head\<lparr>Generation := 2\<rparr>)"
    using sample_accepted by (simp add: sample_chain_def)
  have "\<exists>h. redis_accepted sample_settings sample_show_time sample_read_time sample_stored (store_run ?step [] sample_server) (cc_Name ?cfg)
      = Some h \<and> \<not> ReorgPending h"
  proof -
    have ops: "list_all (\<lambda>p. redis_op (cc_Name ?cfg) (snd p)) ([] @ ?ops)" by simp
    have room: "small (unat (ReorgEpoch i) + length ([] @ ?ops))" if "Get ?s Latest = Some i" for i
      using that heads by (auto simp: small_def sample_head_def zero_head_def)
    have evm: "cc_Family ?cfg = ''evm''" by (simp add: sample_chain_def)
    have snap2: "RedisStore_Snapshot sample_redis sample_settings sample_read_time (cc_Name ?cfg) sample_server
        = (Inr ?s, store_run ?step ([] @ ?ops) sample_server)"
      unfolding same by (rule snap)
    show ?thesis
      using redis_reads_cross_no_reorg [where before = "[]" and after = ?ops and g = ?g and y = ?x and stored = sample_stored,
          OF sample_redis_laws sample_times snap _ run evm ops room snap2] acc
      by auto
  qed
  with run acc show ?thesis by (auto simp: sample_chain_def)
qed

subsection \<open>The route over the clients\<close>

text \<open>
  Property C38. What the gateway serves is what an upstream replied. Over the clients of the chain, an
  answer of the route without an error is \<^verbatim>\<open>null\<close> for a receipt lookup, or the result of a successful
  HTTP reply to a request that the client of a configured and validated upstream posted for the
  prepared method and parameters: the reply carries that request's identifier and no error, and its
  result passed the checks of the request's target.
\<close>

theorem routed_answers_are_replies:
  assumes "flight_respects flight"
    and "route num (client_env rnd net clients) flight wait p (r, sts, w) = Some ((v, i, None), s')"
  shows "receiptHash p \<noteq> [] \<and> v = Some JNull \<or>
    i \<in> set (upstream_ids r) \<and> IsValid r i \<and> (\<exists>n w1 w2 status body e.
      net_post net (HTTPURL (clients i)) (request_headers (clients i)) (request_body n (p_method p) (p_parameters p)) w1
        = (HTTPAnswer status (Parsed body), w2)
      \<and> 200 \<le> status \<and> status < 300 \<and> unmarshal_reply (net_in_range net) body = Some e
      \<and> re_ID e = Some (JNum (show_u64 n)) \<and> re_Error e = None \<and> answer_checked (cc_Family (rt_Config r)) p (re_Result e)
      \<and> (if unwrapContext p then unwrap_value (re_Result e) = Some v else v = re_Result e))"
proof -
  let ?args = "case p_parameters p of None \<Rightarrow> MarshalParams [] | Some a \<Rightarrow> a"
  have args: "request_body n m (Some ?args) = request_body n m (p_parameters p)" for n m
    by (simp add: request_body_def MarshalParams_def split: option.splits)
  have "route_result num (client_env rnd net clients) p r (v, i, None)"
    using route_loop_result [OF assms(1), of num _ wait p "[]" r "(sts, w)"] assms(2) unfolding route_def by blast
  then consider "receiptHash p \<noteq> [] \<and> v = Some JNull"
    | "i \<in> set (upstream_ids r)" "IsValid r i" "upstream_answer (client_env rnd net clients) p (cc_Family (rt_Config r)) v i"
    by (auto simp: route_result_def)
  then show ?thesis
  proof cases
    case 2
    then obtain sts1 w1 s2 resp where call: "node_call (client_env rnd net clients) i (p_method p) ?args (sts1, w1) = (Inr resp, s2)"
      and resp: "Err resp = None" "answer_checked (cc_Family (rt_Config r)) p (Result resp)"
        "if unwrapContext p then unwrap_value (Result resp) = Some v else v = Result resp"
      by (auto simp: upstream_answer_def)
    obtain st' w2 where "Call rnd net (clients i) (p_method p) (Some ?args) (sts1 i, w1) = (Inr resp, st', w2)"
      using call by (auto simp: client_env_def split: prod.splits)
    then obtain status body e w3 d where reply: "net_post net (HTTPURL (clients i)) (request_headers (clients i))
        (request_body (requestID (sts1 i) + 1) (p_method p) (Some ?args)) w3 = (HTTPAnswer status (Parsed body), w2)"
      "200 \<le> status" "status < 300" "unmarshal_reply (net_in_range net) body = Some e"
      "check_reply (requestID (sts1 i) + 1) e = None" "resp = \<lparr>Result = re_Result e, Err = re_Error e\<rparr>"
      by (auto elim: Call_cases)
    from reply(5) have env: "re_ID e = Some (JNum (show_u64 (requestID (sts1 i) + 1)))" by (simp add: check_reply_None)
    have "i \<in> set (upstream_ids r) \<and> IsValid r i" using 2 by blast
    moreover have res: "Result resp = re_Result e" "Err resp = re_Error e" using reply(6) by simp_all
    have "re_Error e = None" "answer_checked (cc_Family (rt_Config r)) p (re_Result e)"
      "if unwrapContext p then unwrap_value (re_Result e) = Some v else v = re_Result e"
      using resp by (simp_all only: res)
    ultimately show ?thesis using reply(1) [unfolded args] reply(2-4) env by blast
  qed blast
qed

theorem routed_answers_are_replies_witness:
  "\<exists>v s'. route id (client_env id sample_net (\<lambda>_. sample_client)) probe_alone (\<lambda>w. (True, w)) (prepared_request ''m'' None)
      (sample_runtime, (\<lambda>_. new_client_state), ()) = Some ((v, ''a'', None), s')
    \<and> (\<exists>n w2 body e. net_post sample_net ''u'' (request_headers sample_client) (request_body n ''m'' None) () = (HTTPAnswer 200 (Parsed body), w2)
        \<and> unmarshal_reply (net_in_range sample_net) body = Some e \<and> v = re_Result e)"
proof -
  let ?env = "client_env id sample_net (\<lambda>_. sample_client)"
  let ?s = "(\<lambda>_. new_client_state, ())"
  have runtime: "Candidates ?env sample_runtime False ?s = [''a'']" "cc_Family (rt_Config sample_runtime) = ''evm''"
    by (simp_all add: Candidates_def client_env_def sample_runtime_def upstream_ids_def NewRuntime_def sample_chain_def
        sample_upstream_def IsValid_def Healthy_def sample_net_def new_client_state_def)
  have call: "node_call ?env ''a'' ''m'' (MarshalParams []) ?s =
      (Inr \<lparr>Result = Some (JStr ''0x1''), Err = None\<rparr>, (\<lambda>_. new_client_state)(''a'' := new_client_state
         \<lparr>requestID := 1, health := recordSuccess id 0 (health new_client_state)\<rparr>), ())"
    using sample_call [of id] by (simp add: client_env_def)
  have run: "route id ?env probe_alone (\<lambda>w. (True, w)) (prepared_request ''m'' None) (sample_runtime, ?s)
      = Some ((Some (JStr ''0x1''), ''a'', None), sample_runtime, (\<lambda>_. new_client_state)(''a'' := new_client_state
         \<lparr>requestID := 1, health := recordSuccess id 0 (health new_client_state)\<rparr>), ())"
    using call runtime by (simp add: route_def route_loop.simps route_turn_def route_candidates_def Let_def new_pass_def
        try_candidate_def check_target_def boundaries_hold_def call_candidate_def settle_def judge_response_def
        receipt_verdict_def client_env_def SupportsMethod_def new_client_state_def)
  from routed_answers_are_replies [OF flight_respects_alone run] run show ?thesis
    by (auto simp: sample_client_def sample_net_def)
qed

end
